(* ===== verification/Prelude.thy ===== *)
theory Prelude
  imports Main "HOL-Library.Word"
begin

section \<open>Shared vocabulary of the development\<close>

text \<open>
  This theory names the types every component uses, the lemma collections the component
  proofs draw on, and two interfaces that several components implement:
  \<^item> \<open>chunk_machine\<close>: an incremental transducer (the output sanitizer, the tar scanner);
  \<^item> \<open>chunk_sink\<close>: an incremental consumer (the capture buffer, the framed decoder).
  Their laws say that a chunk boundary carries no information; everything the clients
  need (feeding a list of chunks is feeding their concatenation, a transducer in front of
  a sink is a sink) is proved once, inside the locales.

  Rust's \<open>u8\<close> is the 8-bit type \<^typ>\<open>char\<close>, so that \<open>Vec<u8>\<close> and \<open>String\<close> (the bytes of
  its UTF-8 form) are both \<^typ>\<open>string\<close> and byte literals can be written as in the source.
  \<open>usize\<close> counters that only ever count bytes held in memory are \<^typ>\<open>nat\<close>; integers whose
  width matters are words. A \<open>Duration\<close> is a number of nanoseconds, an \<open>Instant\<close> the
  nanoseconds since an arbitrary origin.
\<close>

type_synonym byte = char
type_synonym bytes = "char list"
type_synonym duration = nat
type_synonym instant = nat
type_synonym u16 = "16 word"
type_synonym u32 = "32 word"
type_synonym u64 = "64 word"
type_synonym ('e, 'a) result = "'e + 'a"

abbreviation Ok :: "'a \<Rightarrow> ('e, 'a) result" where
  "Ok \<equiv> Inr"

abbreviation Err :: "'e \<Rightarrow> ('e, 'a) result" where
  "Err \<equiv> Inl"

abbreviation from_secs :: "nat \<Rightarrow> duration" where
  "from_secs n \<equiv> n * 1000000000"

named_theorems step_simps \<open>one-step equations of the state machines\<close>
named_theorems inv_intros \<open>preservation of the component invariants\<close>

subsection \<open>The question mark operator\<close>

definition bind_result :: "('e, 'a) result \<Rightarrow> ('a \<Rightarrow> ('e, 'b) result) \<Rightarrow> ('e, 'b) result" where
  "bind_result r f = (case r of Err e \<Rightarrow> Err e | Ok a \<Rightarrow> f a)"

lemma bind_result_simps [simp]:
  "bind_result (Err e) f = Err e"
  "bind_result (Ok a) f = f a"
  by (simp_all add: bind_result_def)

lemma bind_result_Ok_iff: "bind_result r f = Ok b \<longleftrightarrow> (\<exists>a. r = Ok a \<and> f a = Ok b)"
  by (cases r) simp_all

lemma bind_result_Err_iff:
  "bind_result r f = Err e \<longleftrightarrow> r = Err e \<or> (\<exists>a. r = Ok a \<and> f a = Err e)"
  by (cases r) simp_all

definition ok_or :: "'a option \<Rightarrow> 'e \<Rightarrow> ('e, 'a) result" where
  "ok_or x e = (case x of None \<Rightarrow> Err e | Some a \<Rightarrow> Ok a)"

lemma ok_or_simps [simp]: "ok_or None e = Err e" "ok_or (Some a) e = Ok a"
  by (simp_all add: ok_or_def)

subsection \<open>Bytes and their ranges\<close>

definition byte_val :: "byte \<Rightarrow> nat" where
  "byte_val b = of_char b"

definition byte_in :: "nat \<Rightarrow> nat \<Rightarrow> byte \<Rightarrow> bool" where
  "byte_in lo hi b \<longleftrightarrow> lo \<le> byte_val b \<and> byte_val b \<le> hi"

definition byte_of :: "nat \<Rightarrow> byte" where
  "byte_of n = char_of n"

lemma byte_val_lt [simp]: "byte_val b < 256"
  using nat_of_char_less_256 [of b] by (simp add: byte_val_def)

lemma byte_of_val [simp]: "byte_of (byte_val b) = b"
  by (simp add: byte_of_def byte_val_def)

lemma byte_val_of [simp]: "byte_val (byte_of n) = n mod 256"
  by (simp add: byte_of_def byte_val_def)

lemma byte_val_Char [simp]:
  "byte_val (Char b0 b1 b2 b3 b4 b5 b6 b7) =
     of_bool b0 + 2 * of_bool b1 + 4 * of_bool b2 + 8 * of_bool b3 +
     16 * of_bool b4 + 32 * of_bool b5 + 64 * of_bool b6 + 128 * of_bool b7"
  by (simp add: byte_val_def)

lemma byte_val_inject: "byte_val a = byte_val b \<longleftrightarrow> a = b"
  by (metis byte_of_val)

lemmas byte_eq_iff = byte_val_inject [symmetric]

subsection \<open>Suffixes of bounded length\<close>

definition lastn :: "nat \<Rightarrow> 'a list \<Rightarrow> 'a list" where
  "lastn n xs = drop (length xs - n) xs"

lemma length_lastn [simp]: "length (lastn n xs) = min n (length xs)"
  by (simp add: lastn_def)

lemma lastn_Nil [simp]: "lastn n [] = []"
  by (simp add: lastn_def)

lemma lastn_0 [simp]: "lastn 0 xs = []"
  by (simp add: lastn_def)

lemma lastn_all: "length xs \<le> n \<Longrightarrow> lastn n xs = xs"
  by (simp add: lastn_def)

lemma lastn_snoc_full: "0 < n \<Longrightarrow> n \<le> length xs \<Longrightarrow> lastn n (xs @ [x]) = tl (lastn n xs) @ [x]"
  by (simp add: lastn_def Suc_diff_le tl_drop drop_Suc)

lemma lastn_snoc_room: "length xs < n \<Longrightarrow> lastn n (xs @ [x]) = xs @ [x]"
  by (simp add: lastn_def)

subsection \<open>Incremental consumers\<close>

text \<open>\<open>absorb_all absorb s cs\<close> feeds the chunks \<open>cs\<close> one after the other.\<close>

primrec absorb_all :: "('s \<Rightarrow> 'a list \<Rightarrow> 's) \<Rightarrow> 's \<Rightarrow> 'a list list \<Rightarrow> 's" where
  "absorb_all absorb s [] = s"
| "absorb_all absorb s (c # cs) = absorb_all absorb (absorb s c) cs"

locale chunk_sink =
  fixes absorb :: "'s \<Rightarrow> 'a list \<Rightarrow> 's"
  assumes absorb_Nil: "absorb s [] = s"
    and absorb_append: "absorb s (xs @ ys) = absorb (absorb s xs) ys"
begin

lemma absorb_all_concat: "absorb_all absorb s cs = absorb s (concat cs)"
  by (induction cs arbitrary: s) (simp_all add: absorb_Nil absorb_append)

lemma absorb_all_chunking:
  "concat cs = concat ds \<Longrightarrow> absorb_all absorb s cs = absorb_all absorb s ds"
  by (simp add: absorb_all_concat)

lemma absorb_invariant:
  assumes "\<And>s x. I s \<Longrightarrow> I (absorb s [x])" and "I s"
  shows "I (absorb s xs)"
  using assms(2)
proof (induction xs arbitrary: s)
  case Nil
  then show ?case by (simp add: absorb_Nil)
next
  case (Cons x xs)
  then show ?case
    using absorb_append [of s "[x]" xs] assms(1) by simp
qed

end

subsection \<open>Incremental transducers\<close>

text \<open>\<open>feed_all push s cs\<close> feeds the chunks and appends what each of them releases.\<close>

primrec feed_all :: "('s \<Rightarrow> 'a list \<Rightarrow> 's \<times> 'b list) \<Rightarrow> 's \<Rightarrow> 'a list list \<Rightarrow> 's \<times> 'b list" where
  "feed_all push s [] = (s, [])"
| "feed_all push s (c # cs) =
     (let (s1, out1) = push s c; (s2, out2) = feed_all push s1 cs in (s2, out1 @ out2))"

locale chunk_machine =
  fixes push :: "'s \<Rightarrow> 'a list \<Rightarrow> 's \<times> 'b list"
  assumes push_Nil: "push s [] = (s, [])"
    and push_append: "push s (xs @ ys) =
      (let (s1, out1) = push s xs; (s2, out2) = push s1 ys in (s2, out1 @ out2))"
begin

lemma feed_all_concat: "feed_all push s cs = push s (concat cs)"
proof (induction cs arbitrary: s)
  case Nil
  then show ?case by (simp add: push_Nil)
next
  case (Cons c cs)
  then show ?case by (simp add: push_append)
qed

lemma feed_all_chunking:
  "concat cs = concat ds \<Longrightarrow> feed_all push s cs = feed_all push s ds"
  by (simp add: feed_all_concat)

end

text \<open>A transducer given by its effect on one element is a chunk machine.\<close>

primrec run_steps :: "('s \<Rightarrow> 'a \<Rightarrow> 's \<times> 'b list) \<Rightarrow> 's \<Rightarrow> 'a list \<Rightarrow> 's \<times> 'b list" where
  "run_steps step s [] = (s, [])"
| "run_steps step s (x # xs) =
     (let (s1, out1) = step s x; (s2, out2) = run_steps step s1 xs in (s2, out1 @ out2))"

lemma run_steps_append:
  "run_steps step s (xs @ ys) =
     (let (s1, out1) = run_steps step s xs; (s2, out2) = run_steps step s1 ys
      in (s2, out1 @ out2))"
  by (induction xs arbitrary: s) (simp_all add: Let_def split: prod.splits)

lemma run_steps_invariant:
  assumes "\<And>s x. I s \<Longrightarrow> I (fst (step s x))" and "I s"
  shows "I (fst (run_steps step s xs))"
  using assms(2)
  by (induction xs arbitrary: s)
     (simp_all add: Let_def split: prod.splits, metis assms(1) fst_conv)

text \<open>A transducer whose output a sink consumes, as one consumer.\<close>

definition pipe ::
  "('s \<Rightarrow> 'a list \<Rightarrow> 's \<times> 'b list) \<Rightarrow> ('t \<Rightarrow> 'b list \<Rightarrow> 't) \<Rightarrow> 's \<times> 't \<Rightarrow> 'a list \<Rightarrow> 's \<times> 't" where
  "pipe push absorb st xs = (let (s', out) = push (fst st) xs in (s', absorb (snd st) out))"

locale chunk_pipeline = src: chunk_machine push + snk: chunk_sink absorb
  for push :: "'s \<Rightarrow> 'a list \<Rightarrow> 's \<times> 'b list" and absorb :: "'t \<Rightarrow> 'b list \<Rightarrow> 't"
begin

sublocale piped: chunk_sink "pipe push absorb"
  by unfold_locales
    (simp_all add: pipe_def src.push_Nil snk.absorb_Nil src.push_append snk.absorb_append
      split: prod.splits)

lemma pipe_snd: "snd (pipe push absorb st xs) = absorb (snd st) (snd (push (fst st) xs))"
  by (simp add: pipe_def split: prod.splits)

lemma pipe_fst: "fst (pipe push absorb st xs) = fst (push (fst st) xs)"
  by (simp add: pipe_def split: prod.splits)

end

end
