(* ===== verification/Rust_Std.thy ===== *)
theory Rust_Std
  imports Prelude
begin

section \<open>The parts of Rust's standard library the sources use\<close>

text \<open>
  Strings are the bytes of their UTF-8 form. This theory models what the sources call of
  \<open>str\<close> and \<open>String\<close>: splitting, trimming, searching, integer parsing and printing, and
  \<open>String::from_utf8_lossy\<close>, which cuts a byte sequence into its longest valid UTF-8
  sequences and replaces every maximal invalid one by U+FFFD. The lemmas are the round
  trips the parsers rely on.
\<close>

subsection \<open>Splitting at a byte\<close>

primrec split_on :: "'a \<Rightarrow> 'a list \<Rightarrow> 'a list list" where
  "split_on c [] = [[]]"
| "split_on c (x # xs) =
     (if x = c then [] # split_on c xs
      else (case split_on c xs of [] \<Rightarrow> [[x]] | y # ys \<Rightarrow> (x # y) # ys))"

primrec join_with :: "'a \<Rightarrow> 'a list list \<Rightarrow> 'a list" where
  "join_with c [] = []"
| "join_with c (x # xs) = (if xs = [] then x else x @ c # join_with c xs)"

primrec split_once :: "'a \<Rightarrow> 'a list \<Rightarrow> ('a list \<times> 'a list) option" where
  "split_once c [] = None"
| "split_once c (x # xs) =
     (if x = c then Some ([], xs)
      else map_option (\<lambda>(a, b). (x # a, b)) (split_once c xs))"

fun splitn :: "nat \<Rightarrow> 'a \<Rightarrow> 'a list \<Rightarrow> 'a list list" where
  "splitn 0 c s = []"
| "splitn (Suc 0) c s = [s]"
| "splitn (Suc (Suc n)) c s =
     (case split_once c s of None \<Rightarrow> [s] | Some (a, b) \<Rightarrow> a # splitn (Suc n) c b)"

lemma split_on_ne [simp]: "split_on c s \<noteq> []"
  by (induction s) (simp_all split: list.splits)

lemma split_on_notin [simp]: "c \<notin> set s \<Longrightarrow> split_on c s = [s]"
  by (induction s) auto

lemma split_on_append: "c \<notin> set a \<Longrightarrow> split_on c (a @ c # b) = a # split_on c b"
  by (induction a) auto

lemma split_on_pieces: "x \<in> set (split_on c s) \<Longrightarrow> c \<notin> set x"
  by (induction s arbitrary: x) (auto split: list.splits if_splits)

lemma join_split_on: "join_with c (split_on c s) = s"
proof (induction s)
  case (Cons x s)
  then show ?case by (cases "split_on c s") auto
qed simp

lemma split_on_join:
  "xs \<noteq> [] \<Longrightarrow> \<forall>x\<in>set xs. c \<notin> set x \<Longrightarrow> split_on c (join_with c xs) = xs"
  by (induction xs) (auto simp: split_on_append)

lemma split_once_notin: "split_once c s = None \<longleftrightarrow> c \<notin> set s"
  by (induction s) auto

lemma split_once_append [simp]: "c \<notin> set a \<Longrightarrow> split_once c (a @ c # b) = Some (a, b)"
  by (induction a) auto

lemma split_once_Some: "split_once c s = Some (a, b) \<longleftrightarrow> s = a @ c # b \<and> c \<notin> set a"
proof
  assume "split_once c s = Some (a, b)"
  then show "s = a @ c # b \<and> c \<notin> set a"
    by (induction s arbitrary: a) (auto split: if_splits)
qed auto

lemma splitn_join:
  "length xs = n \<Longrightarrow> 0 < n \<Longrightarrow> \<forall>x\<in>set (butlast xs). c \<notin> set x \<Longrightarrow>
   splitn n c (join_with c xs) = xs"
proof (induction xs arbitrary: n)
  case (Cons x xs)
  show ?case
  proof (cases xs)
    case Nil
    with Cons.prems show ?thesis by auto
  next
    case (Cons y ys)
    with Cons.prems obtain m where n: "n = Suc (Suc m)" "length xs = Suc m" by auto
    from Cons Cons.prems have "c \<notin> set x" and "\<forall>z\<in>set (butlast xs). c \<notin> set z"
      by auto
    with Cons.IH [OF n(2)] n Cons show ?thesis by simp
  qed
qed simp

lemma splitn_concat: "0 < n \<Longrightarrow> join_with c (splitn n c s) = s"
proof (induction n c s rule: splitn.induct)
  case (3 n c s)
  have ne: "splitn (Suc n) c b \<noteq> []" for b
    by (cases n) (auto split: option.splits)
  show ?case
  proof (cases "split_once c s")
    case None
    then show ?thesis by simp
  next
    case (Some p)
    then obtain a b where p: "p = (a, b)" and s: "s = a @ c # b"
      by (metis prod.exhaust split_once_Some)
    then show ?thesis using "3.IH" Some ne by simp
  qed
qed simp_all

subsection \<open>Prefixes, suffixes, searching\<close>

fun strip_prefix :: "'a list \<Rightarrow> 'a list \<Rightarrow> 'a list option" where
  "strip_prefix [] s = Some s"
| "strip_prefix (p # ps) [] = None"
| "strip_prefix (p # ps) (x # xs) = (if p = x then strip_prefix ps xs else None)"

definition strip_suffix :: "'a list \<Rightarrow> 'a list \<Rightarrow> 'a list option" where
  "strip_suffix q s = map_option rev (strip_prefix (rev q) (rev s))"

definition starts_with :: "'a list \<Rightarrow> 'a list \<Rightarrow> bool" where
  "starts_with p s \<longleftrightarrow> strip_prefix p s \<noteq> None"

primrec contains :: "'a list \<Rightarrow> 'a list \<Rightarrow> bool" where
  "contains p [] \<longleftrightarrow> p = []"
| "contains p (x # xs) \<longleftrightarrow> starts_with p (x # xs) \<or> contains p xs"

definition trim_start_matches :: "'a \<Rightarrow> 'a list \<Rightarrow> 'a list" where
  "trim_start_matches c s = dropWhile (\<lambda>x. x = c) s"

definition trim_end_matches :: "'a \<Rightarrow> 'a list \<Rightarrow> 'a list" where
  "trim_end_matches c s = rev (dropWhile (\<lambda>x. x = c) (rev s))"

lemma strip_prefix_Some: "strip_prefix p s = Some r \<longleftrightarrow> s = p @ r"
  by (induction p s rule: strip_prefix.induct) auto

lemma strip_prefix_append [simp]: "strip_prefix p (p @ r) = Some r"
  by (simp add: strip_prefix_Some)

lemma strip_suffix_Some: "strip_suffix q s = Some r \<longleftrightarrow> s = r @ q"
  by (auto simp: strip_suffix_def strip_prefix_Some rev_swap)

lemma strip_suffix_append [simp]: "strip_suffix q (r @ q) = Some r"
  by (simp add: strip_suffix_Some)

lemma starts_with_iff: "starts_with p s \<longleftrightarrow> (\<exists>r. s = p @ r)"
proof -
  have "strip_prefix p s \<noteq> None \<longleftrightarrow> (\<exists>r. strip_prefix p s = Some r)"
    by auto
  then show ?thesis
    by (simp only: starts_with_def strip_prefix_Some)
qed

lemma contains_iff: "contains p s \<longleftrightarrow> (\<exists>a b. s = a @ p @ b)"
proof (induction s)
  case (Cons x xs)
  have "(\<exists>a b. x # xs = a @ p @ b) \<longleftrightarrow>
        (\<exists>b. x # xs = p @ b) \<or> (\<exists>a b. xs = a @ p @ b)"
    by (metis append_Cons append_Nil list.inject neq_Nil_conv)
  with Cons show ?case by (simp add: starts_with_iff)
qed simp

lemma contains_append [simp]: "contains p (a @ p @ b)"
  by (auto simp: contains_iff)

lemma contains_mono: "contains p s \<Longrightarrow> contains p (a @ s @ b)"
  unfolding contains_iff by (metis append.assoc)

lemma trim_end_matches_last: "s \<noteq> [] \<Longrightarrow> last s \<noteq> c \<Longrightarrow> trim_end_matches c s = s"
  by (cases s rule: rev_cases) (simp_all add: trim_end_matches_def)

lemma trim_end_matches_snoc [simp]: "trim_end_matches c (s @ [c]) = trim_end_matches c s"
  by (simp add: trim_end_matches_def)

lemma trim_end_matches_end: "trim_end_matches c s = [] \<or> last (trim_end_matches c s) \<noteq> c"
proof -
  have "dropWhile (\<lambda>x. x = c) r = [] \<or> hd (dropWhile (\<lambda>x. x = c) r) \<noteq> c" for r
    by (metis (mono_tags) hd_dropWhile)
  from this [of "rev s"] show ?thesis by (simp add: trim_end_matches_def last_rev)
qed

subsection \<open>ASCII classes\<close>

definition is_ascii_lowercase :: "byte \<Rightarrow> bool" where
  "is_ascii_lowercase b \<longleftrightarrow> byte_in 97 122 b"

definition is_ascii_uppercase :: "byte \<Rightarrow> bool" where
  "is_ascii_uppercase b \<longleftrightarrow> byte_in 65 90 b"

definition is_ascii_digit :: "byte \<Rightarrow> bool" where
  "is_ascii_digit b \<longleftrightarrow> byte_in 48 57 b"

definition is_ascii_alphanumeric :: "byte \<Rightarrow> bool" where
  "is_ascii_alphanumeric b \<longleftrightarrow> is_ascii_lowercase b \<or> is_ascii_uppercase b \<or> is_ascii_digit b"

definition is_ascii_hexdigit :: "byte \<Rightarrow> bool" where
  "is_ascii_hexdigit b \<longleftrightarrow> is_ascii_digit b \<or> byte_in 65 70 b \<or> byte_in 97 102 b"

definition ascii_lower :: "byte \<Rightarrow> byte" where
  "ascii_lower b = (if is_ascii_uppercase b then byte_of (byte_val b + 32) else b)"

definition to_ascii_lowercase :: "string \<Rightarrow> string" where
  "to_ascii_lowercase s = map ascii_lower s"

lemmas ascii_defs = is_ascii_lowercase_def is_ascii_uppercase_def is_ascii_digit_def
  is_ascii_alphanumeric_def is_ascii_hexdigit_def byte_in_def

lemma ascii_lower_idem [simp]: "ascii_lower (ascii_lower b) = ascii_lower b"
  by (auto simp: ascii_lower_def ascii_defs)

lemma ascii_lower_not_upper: "\<not> is_ascii_uppercase (ascii_lower b)"
  by (auto simp: ascii_lower_def ascii_defs)

lemma to_ascii_lowercase_idem [simp]:
  "to_ascii_lowercase (to_ascii_lowercase s) = to_ascii_lowercase s"
  by (simp add: to_ascii_lowercase_def)

subsection \<open>Unsigned decimal integers\<close>

text \<open>
  \<open>str::parse\<close> for an unsigned integer of \<open>w\<close> bits: an optional plus sign, at least one
  digit, nothing else, and a value below \<open>2 ^ w\<close>.
\<close>

primrec digits_val :: "nat \<Rightarrow> string \<Rightarrow> nat" where
  "digits_val acc [] = acc"
| "digits_val acc (d # ds) = digits_val (10 * acc + (byte_val d - 48)) ds"

definition parse_unsigned :: "nat \<Rightarrow> string \<Rightarrow> nat option" where
  "parse_unsigned w s =
     (let ds = (case s of x # xs \<Rightarrow> if x = CHR ''+'' then xs else s | [] \<Rightarrow> s)
      in if ds = [] \<or> \<not> list_all is_ascii_digit ds then None
         else if digits_val 0 ds < 2 ^ w then Some (digits_val 0 ds) else None)"

fun show_nat :: "nat \<Rightarrow> string" where
  "show_nat n = (if n < 10 then [byte_of (48 + n)]
                 else show_nat (n div 10) @ [byte_of (48 + n mod 10)])"

declare show_nat.simps [simp del]

lemma digits_val_append [simp]: "digits_val acc (a @ b) = digits_val (digits_val acc a) b"
  by (induction a arbitrary: acc) simp_all

lemma is_ascii_digit_byte_of: "n < 10 \<Longrightarrow> is_ascii_digit (byte_of (48 + n))"
  by (simp add: ascii_defs)

lemma show_nat_digits: "list_all is_ascii_digit (show_nat n)"
proof (induction n rule: show_nat.induct)
  case (1 n)
  then show ?case
    by (subst show_nat.simps) (simp add: is_ascii_digit_byte_of)
qed

lemma show_nat_ne [simp]: "show_nat n \<noteq> []"
  by (subst show_nat.simps) simp

lemma digits_val_show [simp]: "digits_val 0 (show_nat n) = n"
proof (induction n rule: show_nat.induct)
  case (1 n)
  then show ?case
    by (subst show_nat.simps) simp
qed

lemma show_nat_hd: "is_ascii_digit (hd (show_nat n))"
  using show_nat_digits [of n] by (cases "show_nat n") auto

lemma parse_show_nat [simp]: "n < 2 ^ w \<Longrightarrow> parse_unsigned w (show_nat n) = Some n"
proof -
  assume n: "n < 2 ^ w"
  obtain x xs where s: "show_nat n = x # xs"
    by (cases "show_nat n") auto
  moreover have "x \<noteq> CHR ''+''"
    using show_nat_hd [of n] s by (auto simp: ascii_defs byte_val_def)
  ultimately show ?thesis
    using n show_nat_digits [of n] digits_val_show [of n]
    by (auto simp: parse_unsigned_def Let_def)
qed

lemma parse_unsigned_lt: "parse_unsigned w s = Some n \<Longrightarrow> n < 2 ^ w"
  by (auto simp: parse_unsigned_def Let_def split: if_splits list.splits)

lemma show_nat_no: "\<not> is_ascii_digit c \<Longrightarrow> c \<notin> set (show_nat n)"
  using show_nat_digits [of n] by (auto simp: list_all_iff)

subsection \<open>UTF-8\<close>

text \<open>
  \<open>utf8_width\<close> and \<open>utf8_second\<close> are the standard library's tables: the length announced by
  a lead byte, and the range of second bytes that excludes overlong forms, surrogates and
  values above U+10FFFF. \<open>utf8_head\<close> takes the next unit off a byte sequence: a whole
  character, or the longest prefix of one that is invalid.
\<close>

definition is_cont :: "byte \<Rightarrow> bool" where
  "is_cont b \<longleftrightarrow> byte_in 128 191 b"

definition utf8_width :: "byte \<Rightarrow> nat" where
  "utf8_width b =
     (if byte_in 0 127 b then 1 else if byte_in 194 223 b then 2
      else if byte_in 224 239 b then 3 else if byte_in 240 244 b then 4 else 0)"

definition utf8_second :: "byte \<Rightarrow> byte \<Rightarrow> bool" where
  "utf8_second b c =
     (if byte_val b = 224 then byte_in 160 191 c
      else if byte_val b = 237 then byte_in 128 159 c
      else if byte_val b = 240 then byte_in 144 191 c
      else if byte_val b = 244 then byte_in 128 143 c
      else is_cont c)"

fun utf8_tail :: "nat \<Rightarrow> bytes \<Rightarrow> bool \<times> bytes \<times> bytes" where
  "utf8_tail 0 s = (True, [], s)"
| "utf8_tail (Suc n) [] = (False, [], [])"
| "utf8_tail (Suc n) (c # s) =
     (if is_cont c then (case utf8_tail n s of (ok, t, r) \<Rightarrow> (ok, c # t, r))
      else (False, [], c # s))"

fun utf8_head :: "bytes \<Rightarrow> (bool \<times> bytes \<times> bytes) option" where
  "utf8_head [] = None"
| "utf8_head (b # s) = Some
     (case utf8_width b of
        0 \<Rightarrow> (False, [b], s)
      | Suc 0 \<Rightarrow> (True, [b], s)
      | Suc (Suc n) \<Rightarrow>
          (case s of [] \<Rightarrow> (False, [b], [])
           | c # s' \<Rightarrow>
               if utf8_second b c
               then (case utf8_tail n s' of (ok, t, r) \<Rightarrow> (ok, b # c # t, r))
               else (False, [b], s)))"

lemma utf8_tail_split: "utf8_tail n s = (ok, t, r) \<Longrightarrow> s = t @ r"
  by (induction n s arbitrary: t rule: utf8_tail.induct)
     (auto split: if_splits prod.splits)

lemma utf8_head_split: "utf8_head s = Some (ok, u, r) \<Longrightarrow> s = u @ r \<and> u \<noteq> []"
  by (cases s) (auto dest: utf8_tail_split split: nat.splits list.splits if_splits prod.splits)

lemma utf8_head_shorter: "utf8_head s = Some (ok, u, r) \<Longrightarrow> length r < length s"
  by (drule utf8_head_split) auto

text \<open>The units of a byte sequence, each with whether it is a character.\<close>

function utf8_units :: "bytes \<Rightarrow> (bool \<times> bytes) list" where
  "utf8_units s = (case utf8_head s of None \<Rightarrow> [] | Some (ok, u, r) \<Rightarrow> (ok, u) # utf8_units r)"
  by pat_completeness auto
termination
  by (relation "measure length") (auto dest: utf8_head_shorter)

declare utf8_units.simps [simp del]

definition replacement_char :: bytes where
  "replacement_char = [CHR 0xEF, CHR 0xBF, CHR 0xBD]"

definition from_utf8_lossy :: "bytes \<Rightarrow> string" where
  "from_utf8_lossy s = concat (map (\<lambda>(ok, u). if ok then u else replacement_char) (utf8_units s))"

definition utf8_valid :: "bytes \<Rightarrow> bool" where
  "utf8_valid s \<longleftrightarrow> list_all fst (utf8_units s)"

text \<open>The characters of a string, each as its UTF-8 bytes (\<open>str::chars\<close>).\<close>

definition chars :: "string \<Rightarrow> bytes list" where
  "chars s = map snd (utf8_units s)"

lemma utf8_units_Nil [simp]: "utf8_units [] = []"
  by (simp add: utf8_units.simps)

lemma utf8_units_ascii: "byte_val b < 128 \<Longrightarrow> utf8_units (b # s) = (True, [b]) # utf8_units s"
  by (subst utf8_units.simps) (simp add: utf8_width_def byte_in_def)

lemma concat_chars: "concat (chars s) = s"
proof (induction s rule: utf8_units.induct)
  case (1 s)
  show ?case
  proof (cases "utf8_head s")
    case None
    then show ?thesis by (cases s) (auto simp: chars_def utf8_units.simps)
  next
    case (Some q)
    then obtain ok u r where q: "utf8_head s = Some (ok, u, r)"
      by (cases q) auto
    then have "concat (chars r) = r" and "s = u @ r"
      using "1" utf8_head_split by auto
    moreover have "utf8_units s = (ok, u) # utf8_units r"
      by (subst utf8_units.simps) (simp add: q)
    ultimately show ?thesis by (simp add: chars_def)
  qed
qed

lemma from_utf8_lossy_valid [simp]: "utf8_valid s \<Longrightarrow> from_utf8_lossy s = s"
proof -
  assume "utf8_valid s"
  then have "map (\<lambda>(ok, u). if ok then u else replacement_char) (utf8_units s) = chars s"
    by (auto simp: utf8_valid_def chars_def list_all_iff)
  then show ?thesis by (simp add: from_utf8_lossy_def concat_chars)
qed

lemma utf8_units_all_ascii:
  "list_all (\<lambda>b. byte_val b < 128) s \<Longrightarrow> utf8_units s = map (\<lambda>b. (True, [b])) s"
  by (induction s) (simp_all add: utf8_units_ascii)

lemma utf8_valid_ascii [simp]: "list_all (\<lambda>b. byte_val b < 128) s \<Longrightarrow> utf8_valid s"
  by (simp add: utf8_valid_def utf8_units_all_ascii list_all_iff)

subsection \<open>Characters by code point class\<close>

definition char_is_control :: "bytes \<Rightarrow> bool" where
  "char_is_control u =
     (case u of
        [b] \<Rightarrow> byte_in 0 31 b \<or> byte_val b = 127
      | [b, c] \<Rightarrow> byte_val b = 194 \<and> byte_in 128 159 c
      | _ \<Rightarrow> False)"

text \<open>
  \<open>char::is_whitespace\<close>, the Unicode property White_Space: U+0009 to U+000D, U+0020,
  U+0085, U+00A0, U+1680, U+2000 to U+200A, U+2028, U+2029, U+202F, U+205F and U+3000.
\<close>

definition char_is_whitespace :: "bytes \<Rightarrow> bool" where
  "char_is_whitespace u =
     (case map byte_val u of
        [b] \<Rightarrow> 9 \<le> b \<and> b \<le> 13 \<or> b = 32
      | [b, c] \<Rightarrow> b = 194 \<and> (c = 133 \<or> c = 160)
      | [b, c, d] \<Rightarrow>
          b = 225 \<and> c = 154 \<and> d = 128 \<or>
          b = 226 \<and> c = 128 \<and> (128 \<le> d \<and> d \<le> 138 \<or> d = 168 \<or> d = 169 \<or> d = 175) \<or>
          b = 226 \<and> c = 129 \<and> d = 159 \<or>
          b = 227 \<and> c = 128 \<and> d = 128
      | _ \<Rightarrow> False)"

definition trim :: "string \<Rightarrow> string" where
  "trim s = concat (rev (dropWhile char_is_whitespace
                     (rev (dropWhile char_is_whitespace (chars s)))))"

text \<open>\<open>str::split_whitespace\<close>: the non-empty runs between whitespace characters.\<close>

fun words_of :: "bytes list \<Rightarrow> bytes \<Rightarrow> string list" where
  "words_of [] w = (if w = [] then [] else [w])"
| "words_of (u # us) w =
     (if char_is_whitespace u then (if w = [] then words_of us [] else w # words_of us [])
      else words_of us (w @ u))"

definition split_whitespace :: "string \<Rightarrow> string list" where
  "split_whitespace s = words_of (chars s) []"

subsection \<open>Slices\<close>

text \<open>\<open>slice::chunks\<close>.\<close>

function chunks_of :: "nat \<Rightarrow> bytes \<Rightarrow> bytes list" where
  "chunks_of n xs = (if xs = [] \<or> n = 0 then [] else take n xs # chunks_of n (drop n xs))"
  by pat_completeness auto

termination
  by (relation "measure (\<lambda>(_, xs). length xs)") auto

declare chunks_of.simps [simp del]

lemma chunks_of_sound:
  assumes "0 < m" shows "concat (chunks_of m xs) = xs" "list_all (\<lambda>c. length c \<le> m) (chunks_of m xs)"
  using assms
proof (induction m xs rule: chunks_of.induct)
  case (1 n xs)
  { case 1
    with "1.IH"(1) show ?case by (subst chunks_of.simps) auto
  next
    case 2
    with "1.IH"(2) show ?case by (subst chunks_of.simps) auto }
qed

end
