(* ===== verification/Capabilities.thy ===== *)
theory Capabilities
  imports Rust_Std
begin

section \<open>Negotiated capabilities (capabilities.rs)\<close>

text \<open>
  The capability names a caller can preflight, the capability set a provider declares, and
  \<open>Capabilities::supports\<close>, which connects the two. The records follow the structs of the
  source, a field name carrying its struct's prefix where several structs use the name.
  \<open>capability_name\<close> and \<open>capability_of_name\<close> are the wire form that the \<open>serde(rename)\<close>
  attributes fix: reading a name this version does not know gives \<open>Unknown\<close>.
\<close>

datatype isolation = IsolationNone | IsolationContainer | IsolationVm

datatype capability =
    LifecyclePause | LifecycleArchive | LifecycleFork | LifecycleResize | LifecycleRecover
  | LifecycleUndelete | LifecycleRefreshActivity | LifecycleTimers | LifecycleLabels
  | LifecycleUpdateNetwork | LifecycleSnapshotSandbox | ExecStdin | ExecStop
  | ExecStdioProcess | ExecStdinStream | ExecEnvironment | FsUpload | FsDownload
  | FsPermissions | CapPty | CapLogs | CapOneShot | OneShotBuild | CapSessions | PreviewUrls
  | SignedPreviewUrls | CapSsh | SshTtl | SshRevoke | ShellCommandAccess | WebTerminalAccess
  | VncAccess | CapSnapshots | SnapshotsContainerFromImage | SnapshotsVmFromImage
  | SnapshotsContainerFromDockerfile | SnapshotsVmFromDockerfile | SnapshotsFilesystem
  | SnapshotsLiveProcessState | SnapshotsActivation | CapSearch | CapGit | CapServices
  | CapVolumes | CapUnknown

fun capability_name :: "capability \<Rightarrow> string" where
  "capability_name LifecyclePause = ''lifecycle.pause''"
| "capability_name LifecycleArchive = ''lifecycle.archive''"
| "capability_name LifecycleFork = ''lifecycle.fork''"
| "capability_name LifecycleResize = ''lifecycle.resize''"
| "capability_name LifecycleRecover = ''lifecycle.recover''"
| "capability_name LifecycleUndelete = ''lifecycle.undelete''"
| "capability_name LifecycleRefreshActivity = ''lifecycle.refresh_activity''"
| "capability_name LifecycleTimers = ''lifecycle.timers''"
| "capability_name LifecycleLabels = ''lifecycle.labels''"
| "capability_name LifecycleUpdateNetwork = ''lifecycle.update_network''"
| "capability_name LifecycleSnapshotSandbox = ''lifecycle.snapshot_sandbox''"
| "capability_name ExecStdin = ''exec.stdin''"
| "capability_name ExecStop = ''exec.stop''"
| "capability_name ExecStdioProcess = ''exec.stdio_process''"
| "capability_name ExecStdinStream = ''exec.stdin_stream''"
| "capability_name ExecEnvironment = ''exec.environment''"
| "capability_name FsUpload = ''fs.upload''"
| "capability_name FsDownload = ''fs.download''"
| "capability_name FsPermissions = ''fs.permissions''"
| "capability_name CapPty = ''pty''"
| "capability_name CapLogs = ''logs''"
| "capability_name CapOneShot = ''one_shot''"
| "capability_name OneShotBuild = ''one_shot.build''"
| "capability_name CapSessions = ''sessions''"
| "capability_name PreviewUrls = ''access.preview_urls''"
| "capability_name SignedPreviewUrls = ''access.preview_urls.signed''"
| "capability_name CapSsh = ''access.ssh''"
| "capability_name SshTtl = ''access.ssh.ttl''"
| "capability_name SshRevoke = ''access.ssh.revoke''"
| "capability_name ShellCommandAccess = ''access.shell_command''"
| "capability_name WebTerminalAccess = ''access.web_terminal''"
| "capability_name VncAccess = ''access.vnc''"
| "capability_name CapSnapshots = ''snapshots''"
| "capability_name SnapshotsContainerFromImage = ''snapshots.from_image.container''"
| "capability_name SnapshotsVmFromImage = ''snapshots.from_image.virtual_machine''"
| "capability_name SnapshotsContainerFromDockerfile = ''snapshots.from_dockerfile.container''"
| "capability_name SnapshotsVmFromDockerfile = ''snapshots.from_dockerfile.virtual_machine''"
| "capability_name SnapshotsFilesystem = ''snapshots.filesystem''"
| "capability_name SnapshotsLiveProcessState = ''snapshots.live_process_state''"
| "capability_name SnapshotsActivation = ''snapshots.activation''"
| "capability_name CapSearch = ''search''"
| "capability_name CapGit = ''git''"
| "capability_name CapServices = ''services''"
| "capability_name CapVolumes = ''volumes''"
| "capability_name CapUnknown = ''Unknown''"

definition known_capabilities :: "capability list" where
  "known_capabilities =
     [LifecyclePause, LifecycleArchive, LifecycleFork, LifecycleResize, LifecycleRecover,
      LifecycleUndelete, LifecycleRefreshActivity, LifecycleTimers, LifecycleLabels,
      LifecycleUpdateNetwork, LifecycleSnapshotSandbox, ExecStdin, ExecStop,
      ExecStdioProcess, ExecStdinStream, ExecEnvironment, FsUpload, FsDownload,
      FsPermissions, CapPty, CapLogs, CapOneShot, OneShotBuild, CapSessions, PreviewUrls,
      SignedPreviewUrls, CapSsh, SshTtl, SshRevoke, ShellCommandAccess, WebTerminalAccess,
      VncAccess, CapSnapshots, SnapshotsContainerFromImage, SnapshotsVmFromImage,
      SnapshotsContainerFromDockerfile, SnapshotsVmFromDockerfile, SnapshotsFilesystem,
      SnapshotsLiveProcessState, SnapshotsActivation, CapSearch, CapGit, CapServices,
      CapVolumes]"

definition capability_of_name :: "string \<Rightarrow> capability" where
  "capability_of_name s =
     (case find (\<lambda>c. capability_name c = s) known_capabilities of
        Some c \<Rightarrow> c | None \<Rightarrow> CapUnknown)"

subsection \<open>The capability set\<close>

record lifecycle_caps =
  pause :: bool
  archive :: bool
  fork :: bool
  resize :: bool
  recover :: bool
  undelete :: bool
  refresh_activity :: bool
  timers :: bool
  labels :: bool
  update_network :: bool
  snapshot_sandbox :: bool

record exec_caps =
  live_streaming :: bool
  streams_separated :: bool
  stdin_cap :: bool
  stop_cap :: bool
  stdio_process :: bool
  stdin_stream :: bool
  environment :: bool

record fs_caps =
  fs_native :: bool
  upload :: bool
  download :: bool
  permissions :: bool

record search_caps =
  search_supported :: bool
  search_native :: bool

record git_caps =
  git_supported :: bool
  git_native :: bool

record service_caps =
  service_supported :: bool
  service_native :: bool

record pty_caps =
  pty_resize :: bool

record logs_caps =
  provision :: bool
  entrypoint :: bool

record one_shot_caps =
  build :: bool

record access_caps =
  preview_urls :: bool
  signed_preview_urls :: bool
  ssh :: bool
  ssh_ttl :: bool
  ssh_revoke :: bool
  shell_command :: bool
  web_terminal :: bool
  vnc :: bool
  vpn_legacy :: bool

record network_caps =
  allow_all :: bool
  block_all :: bool
  cidr_allow_list :: bool
  domain_allow_list :: bool
  outbound_proxy :: bool

datatype sandbox_kind = KindContainer | KindVirtualMachine | KindUnknown

record sandbox_kind_support =
  container :: bool
  virtual_machine :: bool

fun kind_supports :: "sandbox_kind_support \<Rightarrow> sandbox_kind \<Rightarrow> bool" where
  "kind_supports s KindContainer = container s"
| "kind_supports s KindVirtualMachine = virtual_machine s"
| "kind_supports s KindUnknown = False"

record snapshot_caps =
  from_image :: bool
  from_dockerfile :: bool
  from_image_kinds :: sandbox_kind_support
  from_dockerfile_kinds :: sandbox_kind_support
  filesystem_from_sandbox :: bool
  live_process_state_from_sandbox :: bool
  build_logs :: bool
  activation :: bool

record volume_caps =
  create_time_attach :: bool

record capabilities =
  isolation_level :: isolation
  lifecycle :: lifecycle_caps
  exec_c :: exec_caps
  fs :: fs_caps
  search :: search_caps
  git :: git_caps
  services :: service_caps
  pty :: "pty_caps option"
  logs :: "logs_caps option"
  one_shot :: "one_shot_caps option"
  access :: access_caps
  network :: network_caps
  snapshots :: "snapshot_caps option"
  volumes :: "volume_caps option"

definition minimal :: "isolation \<Rightarrow> capabilities" where
  "minimal i =
     \<lparr>isolation_level = i,
      lifecycle = \<lparr>pause = False, archive = False, fork = False, resize = False,
        recover = False, undelete = False, refresh_activity = False, timers = False,
        labels = False, update_network = False, snapshot_sandbox = False\<rparr>,
      exec_c = \<lparr>live_streaming = False, streams_separated = False, stdin_cap = False,
        stop_cap = False, stdio_process = False, stdin_stream = False, environment = False\<rparr>,
      fs = \<lparr>fs_native = False, upload = False, download = False, permissions = False\<rparr>,
      search = \<lparr>search_supported = False, search_native = False\<rparr>,
      git = \<lparr>git_supported = False, git_native = False\<rparr>,
      services = \<lparr>service_supported = False, service_native = False\<rparr>,
      pty = None, logs = None, one_shot = None,
      access = \<lparr>preview_urls = False, signed_preview_urls = False, ssh = False,
        ssh_ttl = False, ssh_revoke = False, shell_command = False, web_terminal = False,
        vnc = False, vpn_legacy = False\<rparr>,
      network = \<lparr>allow_all = False, block_all = False, cidr_allow_list = False,
        domain_allow_list = False, outbound_proxy = False\<rparr>,
      snapshots = None, volumes = None\<rparr>"

definition is_some_and :: "'a option \<Rightarrow> ('a \<Rightarrow> bool) \<Rightarrow> bool" where
  "is_some_and x p = (case x of None \<Rightarrow> False | Some a \<Rightarrow> p a)"

fun supports :: "capabilities \<Rightarrow> capability \<Rightarrow> bool" where
  "supports c LifecyclePause = pause (lifecycle c)"
| "supports c LifecycleArchive = archive (lifecycle c)"
| "supports c LifecycleFork = fork (lifecycle c)"
| "supports c LifecycleResize = resize (lifecycle c)"
| "supports c LifecycleRecover = recover (lifecycle c)"
| "supports c LifecycleUndelete = undelete (lifecycle c)"
| "supports c LifecycleRefreshActivity = refresh_activity (lifecycle c)"
| "supports c LifecycleTimers = timers (lifecycle c)"
| "supports c LifecycleLabels = labels (lifecycle c)"
| "supports c LifecycleUpdateNetwork = update_network (lifecycle c)"
| "supports c LifecycleSnapshotSandbox = snapshot_sandbox (lifecycle c)"
| "supports c ExecStdin = stdin_cap (exec_c c)"
| "supports c ExecStop = stop_cap (exec_c c)"
| "supports c ExecStdioProcess = stdio_process (exec_c c)"
| "supports c ExecStdinStream = stdin_stream (exec_c c)"
| "supports c ExecEnvironment = environment (exec_c c)"
| "supports c FsUpload = upload (fs c)"
| "supports c FsDownload = download (fs c)"
| "supports c FsPermissions = permissions (fs c)"
| "supports c CapPty = (pty c \<noteq> None)"
| "supports c CapLogs = (logs c \<noteq> None)"
| "supports c CapOneShot = (one_shot c \<noteq> None)"
| "supports c OneShotBuild = is_some_and (one_shot c) build"
| "supports c PreviewUrls = preview_urls (access c)"
| "supports c SignedPreviewUrls = signed_preview_urls (access c)"
| "supports c CapSsh = ssh (access c)"
| "supports c SshTtl = ssh_ttl (access c)"
| "supports c SshRevoke = ssh_revoke (access c)"
| "supports c ShellCommandAccess = shell_command (access c)"
| "supports c WebTerminalAccess = web_terminal (access c)"
| "supports c VncAccess = vnc (access c)"
| "supports c CapSnapshots = (snapshots c \<noteq> None)"
| "supports c SnapshotsContainerFromImage =
     is_some_and (snapshots c) (\<lambda>s. container (from_image_kinds s))"
| "supports c SnapshotsVmFromImage =
     is_some_and (snapshots c) (\<lambda>s. virtual_machine (from_image_kinds s))"
| "supports c SnapshotsContainerFromDockerfile =
     is_some_and (snapshots c) (\<lambda>s. container (from_dockerfile_kinds s))"
| "supports c SnapshotsVmFromDockerfile =
     is_some_and (snapshots c) (\<lambda>s. virtual_machine (from_dockerfile_kinds s))"
| "supports c SnapshotsFilesystem = is_some_and (snapshots c) filesystem_from_sandbox"
| "supports c SnapshotsLiveProcessState =
     is_some_and (snapshots c) live_process_state_from_sandbox"
| "supports c SnapshotsActivation = is_some_and (snapshots c) activation"
| "supports c CapSearch = search_supported (search c)"
| "supports c CapGit = git_supported (git c)"
| "supports c CapServices = service_supported (services c)"
| "supports c CapVolumes = (volumes c \<noteq> None)"
| "supports c CapSessions = False"
| "supports c CapUnknown = False"

subsection \<open>Properties\<close>

lemma known_capabilities_complete: "c \<in> set known_capabilities \<or> c = CapUnknown"
  by (cases c) (simp_all add: known_capabilities_def)

lemma capability_names_distinct: "distinct (map capability_name known_capabilities)"
  by (simp add: known_capabilities_def)

lemma find_distinct:
  "distinct (map f xs) \<Longrightarrow> x \<in> set xs \<Longrightarrow> find (\<lambda>y. f y = f x) xs = Some x"
  by (induction xs) (auto simp: image_iff)

lemma capability_of_unknown_name:
  "s \<notin> capability_name ` set known_capabilities \<Longrightarrow> capability_of_name s = CapUnknown"
proof -
  assume "s \<notin> capability_name ` set known_capabilities"
  then have "find (\<lambda>c. capability_name c = s) known_capabilities = None"
    by (auto simp: find_None_iff)
  then show ?thesis by (simp add: capability_of_name_def)
qed

text \<open>
  Reading back the dotted path of a capability gives that capability, so a preflight
  answer means the same on both sides of the wire; the capability sent as unknown stays
  unknown.
\<close>

lemma capability_name_roundtrip: "capability_of_name (capability_name c) = c"
proof (cases "c \<in> set known_capabilities")
  case True
  then show ?thesis
    using find_distinct [OF capability_names_distinct] by (simp add: capability_of_name_def)
next
  case False
  then have "c = CapUnknown"
    using known_capabilities_complete by blast
  moreover have "capability_name CapUnknown \<notin> capability_name ` set known_capabilities"
    by (simp add: known_capabilities_def)
  ultimately show ?thesis
    using capability_of_unknown_name by blast
qed

text \<open>
  A refinement capability is declared only with the facet it refines: the build form of
  one-shot containers with one-shot containers, each snapshot form with snapshots.
\<close>

lemma supports_facet:
  "supports c OneShotBuild \<Longrightarrow> supports c CapOneShot"
  "k \<in> {SnapshotsContainerFromImage, SnapshotsVmFromImage, SnapshotsContainerFromDockerfile,
     SnapshotsVmFromDockerfile, SnapshotsFilesystem, SnapshotsLiveProcessState,
     SnapshotsActivation} \<Longrightarrow> supports c k \<Longrightarrow> supports c CapSnapshots"
  by (auto simp: is_some_and_def split: option.splits)

lemma minimal_supports_nothing: "\<not> supports (minimal i) c"
  by (cases c) (simp_all add: minimal_def is_some_and_def)

end
