(* ===== verification/Errors.thy ===== *)
theory Errors
  imports Capabilities
begin

section \<open>The boundary error and its reports (error.rs, event.rs)\<close>

text \<open>
  The error type every operation returns, the classification of git failures by what the
  remote or the working tree said, and the bounded report an error is projected to. A
  \<open>serde_json::Value\<close> that only travels through is the uninterpreted type \<open>json_value\<close>. An
  opaque \<open>dyn Error\<close> is the list of the rendered texts of itself and its sources, outermost
  first; the absent source is the empty list. Rendering the error itself (the derived
  \<open>Display\<close>) is a parameter of the report.
\<close>

typedecl json_value

type_synonym cause_chain = "string list"

datatype resource_kind =
    ResSandbox | ResSnapshot | ResVolume | ResPlugin | ResFile | ResUnknown

datatype sandbox_state =
    Creating | Starting | Running | Stopping | Stopped | Pausing | Paused | Resuming
  | Archiving | Archived | Restoring | Resizing | Forking | Snapshotting | Deleting
  | Deleted | StateError | StateUnknown

definition is_stable :: "sandbox_state \<Rightarrow> bool" where
  "is_stable s \<longleftrightarrow> s \<in> {Running, Stopped, Paused, Archived, Deleted, StateError}"

datatype action =
    Create | Attach | Start | Stop | Delete | Activate | Deactivate | Pause | Resume
  | Archive | Fork | Resize | SnapshotAction | Recover | Undelete | RefreshActivity
  | SetTimers | SetLabels | UpdateNetwork | ActionUnknown

datatype termination_kind =
    Exited | TimedOut | Cancelled | Killed | TerminationUnknown

record incomplete_operation =
  inc_operation :: string
  output_abandoned :: bool
  stop_acknowledged :: bool
  termination_confirmed :: bool
  cleanup_confirmed :: bool

definition incomplete_new :: "string \<Rightarrow> incomplete_operation" where
  "incomplete_new operation =
     \<lparr>inc_operation = operation, output_abandoned = True, stop_acknowledged = False,
      termination_confirmed = False, cleanup_confirmed = False\<rparr>"

record auth_error =
  auth_provider :: string
  auth_reason :: string
  auth_source :: cause_chain

record exec_failure =
  ef_label :: string
  ef_termination :: termination_kind
  ef_exit_code :: "int option"
  ef_stdout :: bytes
  ef_stderr :: bytes
  ef_duration :: "duration option"

definition exec_failure_new ::
  "string \<Rightarrow> termination_kind \<Rightarrow> int option \<Rightarrow> bytes \<Rightarrow> bytes \<Rightarrow> exec_failure" where
  "exec_failure_new label term code stdout stderr =
     \<lparr>ef_label = label, ef_termination = term, ef_exit_code = code, ef_stdout = stdout,
      ef_stderr = stderr, ef_duration = None\<rparr>"

definition with_duration :: "exec_failure \<Rightarrow> duration \<Rightarrow> exec_failure" where
  "with_duration f d = f\<lparr>ef_duration := Some d\<rparr>"

record provider_error =
  pe_provider :: string
  pe_code :: "string option"
  pe_message :: string
  pe_retryable :: bool
  pe_detail :: "json_value option"
  pe_source :: cause_chain

definition provider_error_new :: "string \<Rightarrow> string \<Rightarrow> provider_error" where
  "provider_error_new provider message =
     \<lparr>pe_provider = provider, pe_code = None, pe_message = message, pe_retryable = False,
      pe_detail = None, pe_source = []\<rparr>"

definition provider_error_with_source :: "string \<Rightarrow> string \<Rightarrow> cause_chain \<Rightarrow> provider_error" where
  "provider_error_with_source provider message source =
     (provider_error_new provider message)\<lparr>pe_source := source\<rparr>"

record transport_error =
  te_context :: string
  te_source :: cause_chain

record io_error =
  io_kind :: string
  io_chain :: cause_chain

subsection \<open>Git failures\<close>

datatype git_failure_kind =
    AuthRejected | RemoteUnavailable | RefNotFound | AccessDenied | TargetExists
  | GitUnavailable | Unclassified

definition remote_unavailable_hints :: "string list" where
  "remote_unavailable_hints =
    [''could not resolve host'',
     ''temporary failure in name resolution'',
     ''connection refused'',
     ''connection reset'',
     ''connection timed out'',
     ''timed out'',
     ''network is unreachable'',
     ''no route to host'',
     ''tls handshake'',
     ''early eof'',
     ''rpc failed'',
     ''unexpected disconnect'',
     ''the remote end hung up unexpectedly'',
     ''index-pack failed'',
     ''service unavailable'',
     ''gateway timeout'',
     ''too many requests'',
     ''rate limit'']"

definition auth_rejected_hints :: "string list" where
  "auth_rejected_hints =
    [''repository not found'',
     ''authentication failed'',
     ''invalid username or password'',
     ''bad credentials'',
     ''the requested url returned error: 401'',
     ''the requested url returned error: 403'',
     ''the requested url returned error: 404'',
     ''unexpected http status code: 401'',
     ''unexpected http status code: 403'',
     ''unexpected http status code: 404'']"

definition ref_not_found_hints :: "string list" where
  "ref_not_found_hints =
    [''couldn'' @ CHR 0x27 # ''t find remote ref'',
     ''could not find remote branch'',
     ''not our ref'',
     ''unadvertised object'',
     ''reference is not a tree'',
     ''did not match any file(s) known to git'',
     ''unknown revision or path not in the working tree'']"

definition from_message :: "string \<Rightarrow> git_failure_kind" where
  "from_message message =
     (let lower = to_ascii_lowercase message in
      if list_ex (\<lambda>hint. contains hint lower) remote_unavailable_hints then RemoteUnavailable
      else if list_ex (\<lambda>hint. contains hint lower) auth_rejected_hints then AuthRejected
      else if contains ''could not read username'' lower
           \<or> contains ''terminal prompts disabled'' lower
           \<or> contains ''permission denied'' lower
           \<or> contains ''permission to'' lower \<and> contains ''denied'' lower then AccessDenied
      else if contains ''destination path'' lower \<and> contains ''already exists'' lower
           then TargetExists
      else if list_ex (\<lambda>hint. contains hint lower) ref_not_found_hints
           \<or> contains ''remote branch'' lower \<and> contains ''not found'' lower then RefNotFound
      else Unclassified)"

definition from_output :: "bytes \<Rightarrow> bytes \<Rightarrow> git_failure_kind" where
  "from_output stderr stdout =
     (let by_stderr = from_message (from_utf8_lossy stderr) in
      if by_stderr = Unclassified then from_message (from_utf8_lossy stdout) else by_stderr)"

definition is_transient :: "git_failure_kind \<Rightarrow> bool" where
  "is_transient k \<longleftrightarrow> k = RemoteUnavailable"

record git_failure =
  gf_operation :: string
  gf_kind :: git_failure_kind
  gf_output :: "exec_failure option"
  gf_provider :: "provider_error option"

definition from_command :: "string \<Rightarrow> exec_failure \<Rightarrow> git_failure" where
  "from_command operation output =
     \<lparr>gf_operation = operation,
      gf_kind = (if ef_exit_code output = Some 126 \<or> ef_exit_code output = Some 127
                 then GitUnavailable
                 else from_output (ef_stderr output) (ef_stdout output)),
      gf_output = Some output, gf_provider = None\<rparr>"

definition from_provider :: "string \<Rightarrow> provider_error \<Rightarrow> git_failure" where
  "from_provider operation provider =
     (let kind = from_message (pe_message provider) in
      \<lparr>gf_operation = operation,
       gf_kind = (if kind = Unclassified \<and> pe_retryable provider then RemoteUnavailable
                  else kind),
       gf_output = None, gf_provider = Some provider\<rparr>)"

definition classified ::
  "string \<Rightarrow> git_failure_kind \<Rightarrow> provider_error option \<Rightarrow> git_failure" where
  "classified operation kind provider =
     \<lparr>gf_operation = operation, gf_kind = kind, gf_output = None, gf_provider = provider\<rparr>"

definition with_output :: "git_failure \<Rightarrow> exec_failure \<Rightarrow> git_failure" where
  "with_output f output = f\<lparr>gf_output := Some output\<rparr>"

subsection \<open>The error type\<close>

datatype error =
    NotFound resource_kind string
  | NotOwned resource_kind string
  | ReadOnly resource_kind string action
  | Unsupported capability
  | InvalidState sandbox_state action
  | InvalidSpec string string
  | Timeout string duration
  | Auth auth_error
  | RateLimited "duration option"
  | Overloaded string
  | LimitExceeded string nat
  | Exec exec_failure
  | Git git_failure
  | Provider provider_error
  | Transport transport_error
  | Incomplete incomplete_operation
  | Io string io_error

text \<open>\<open>TransportError::new\<close> wrapped as an error, which many components return.\<close>

definition transport :: "string \<Rightarrow> error" where
  "transport context = Transport \<lparr>te_context = context, te_source = []\<rparr>"

text \<open>A failure of an underlying read or write, with its kind, text and no sources.\<close>

definition io_failure :: "string \<Rightarrow> string \<Rightarrow> string \<Rightarrow> error" where
  "io_failure context kind message = Io context \<lparr>io_kind = kind, io_chain = [message]\<rparr>"

subsection \<open>Error reports\<close>

definition provider_display :: "provider_error \<Rightarrow> string" where
  "provider_display p =
     pe_provider p @ '' error'' @
     (case pe_code p of None \<Rightarrow> [] | Some code \<Rightarrow> '' ['' @ code @ '']'') @
     '': '' @ pe_message p"

text \<open>The chain that repeated calls of \<open>source()\<close> walk, starting at the error's source.\<close>

fun source_chain :: "error \<Rightarrow> cause_chain" where
  "source_chain (Auth a) = auth_source a"
| "source_chain (Git f) =
     (case gf_provider f of None \<Rightarrow> [] | Some p \<Rightarrow> provider_display p # pe_source p)"
| "source_chain (Provider p) = pe_source p"
| "source_chain (Transport t) = te_source t"
| "source_chain (Io _ e) = io_chain e"
| "source_chain _ = []"

definition max_causes :: nat where
  "max_causes = 8"

definition max_cause_chars :: nat where
  "max_cause_chars = 500"

definition is_char_boundary :: "string \<Rightarrow> nat \<Rightarrow> bool" where
  "is_char_boundary s i \<longleftrightarrow> i = 0 \<or> i = length s \<or> i < length s \<and> \<not> is_cont (s ! i)"

fun boundary_below :: "string \<Rightarrow> nat \<Rightarrow> nat" where
  "boundary_below s 0 = 0"
| "boundary_below s (Suc i) =
     (if is_char_boundary s (Suc i) then Suc i else boundary_below s i)"

definition ellipsis :: string where
  "ellipsis = [CHR 0xE2, CHR 0x80, CHR 0xA6]"

definition truncate_cause :: "string \<Rightarrow> string" where
  "truncate_cause text =
     (if length text > max_cause_chars
      then take (boundary_below text max_cause_chars) text @ ellipsis
      else text)"

record error_report =
  er_kind :: string
  er_message :: string
  er_retryable :: bool
  er_causes :: "string list"

fun report_kind :: "error \<Rightarrow> string" where
  "report_kind (NotFound _ _) = ''not_found''"
| "report_kind (NotOwned _ _) = ''not_owned''"
| "report_kind (ReadOnly _ _ _) = ''read_only''"
| "report_kind (Unsupported _) = ''unsupported''"
| "report_kind (InvalidState _ _) = ''invalid_state''"
| "report_kind (InvalidSpec _ _) = ''invalid_spec''"
| "report_kind (Timeout _ _) = ''timeout''"
| "report_kind (Auth _) = ''auth''"
| "report_kind (RateLimited _) = ''rate_limited''"
| "report_kind (Overloaded _) = ''overloaded''"
| "report_kind (LimitExceeded _ _) = ''limit_exceeded''"
| "report_kind (Exec _) = ''exec''"
| "report_kind (Git _) = ''git''"
| "report_kind (Provider _) = ''provider''"
| "report_kind (Transport _) = ''transport''"
| "report_kind (Incomplete _) = ''incomplete''"
| "report_kind (Io _ _) = ''io''"

fun report_retryable :: "error \<Rightarrow> bool" where
  "report_retryable (Timeout _ _) = True"
| "report_retryable (RateLimited _) = True"
| "report_retryable (Transport _) = True"
| "report_retryable (Provider p) = pe_retryable p"
| "report_retryable (Git f) = is_transient (gf_kind f)"
| "report_retryable _ = False"

definition error_report :: "(error \<Rightarrow> string) \<Rightarrow> error \<Rightarrow> error_report" where
  "error_report display e =
     \<lparr>er_kind = report_kind e, er_message = display e, er_retryable = report_retryable e,
      er_causes = map truncate_cause (take max_causes (source_chain e))\<rparr>"

subsection \<open>Classification\<close>

text \<open>
  The class does not depend on the letter case of the message, and the classes are tested
  in a fixed order of precedence: anything that says the remote was unavailable wins over
  what it says about credentials, which wins over the permanent classes.
\<close>

lemma from_message_case_insensitive:
  "to_ascii_lowercase a = to_ascii_lowercase b \<Longrightarrow> from_message a = from_message b"
  by (simp add: from_message_def)

lemma from_message_remote:
  "from_message m = RemoteUnavailable \<longleftrightarrow>
     (\<exists>h\<in>set remote_unavailable_hints. contains h (to_ascii_lowercase m))"
  by (auto simp: from_message_def Let_def list_ex_iff)

lemma to_ascii_lowercase_append [simp]:
  "to_ascii_lowercase (a @ b) = to_ascii_lowercase a @ to_ascii_lowercase b"
  by (simp add: to_ascii_lowercase_def)

lemma from_message_remote_mono:
  assumes "from_message m = RemoteUnavailable"
  shows "from_message (a @ m @ b) = RemoteUnavailable"
  using assms contains_mono unfolding from_message_remote to_ascii_lowercase_append by blast

text \<open>
  A message is classified as a rejected credential exactly when it carries one of the
  rejection fragments and none of the infrastructure fragments.
\<close>

lemma from_message_auth:
  "from_message m = AuthRejected \<longleftrightarrow>
     (\<exists>h\<in>set auth_rejected_hints. contains h (to_ascii_lowercase m)) \<and>
     (\<forall>h\<in>set remote_unavailable_hints. \<not> contains h (to_ascii_lowercase m))"
  by (auto simp: from_message_def Let_def list_ex_iff)

subsection \<open>Bounds of a report\<close>

lemma boundary_below_le: "boundary_below s i \<le> i"
  by (induction i) auto

lemma boundary_below_boundary: "is_char_boundary s (boundary_below s i)"
  by (induction i) (auto simp: is_char_boundary_def)

lemma boundary_below_max:
  "j \<le> i \<Longrightarrow> is_char_boundary s j \<Longrightarrow> j \<le> boundary_below s i"
  by (induction i) (auto simp: le_Suc_eq)

lemma boundary_below_unique:
  "j \<le> i \<Longrightarrow> is_char_boundary s j \<Longrightarrow> (\<forall>k. j < k \<and> k \<le> i \<longrightarrow> \<not> is_char_boundary s k) \<Longrightarrow>
   boundary_below s i = j"
  by (meson boundary_below_boundary boundary_below_le boundary_below_max leI le_antisym)

lemma truncate_cause_length: "length (truncate_cause t) \<le> max_cause_chars + 3"
  using boundary_below_le [of t max_cause_chars]
  by (auto simp: truncate_cause_def ellipsis_def)

text \<open>Cutting an already cut text changes nothing: the ellipsis is cut off and restored.\<close>

lemma truncate_cause_idem [simp]: "truncate_cause (truncate_cause t) = truncate_cause t"
proof (cases "length t > max_cause_chars")
  case False
  then show ?thesis by (simp add: truncate_cause_def)
next
  case True
  define e where "e = boundary_below t max_cause_chars"
  let ?u = "take e t @ ellipsis"
  have e: "e \<le> max_cause_chars" "e \<le> length t"
    using boundary_below_le [of t max_cause_chars] True by (auto simp: e_def)
  have u: "truncate_cause t = ?u"
    using True by (simp add: truncate_cause_def e_def)
  have "truncate_cause ?u = ?u"
  proof (cases "length ?u > max_cause_chars")
    case False
    then show ?thesis by (simp add: truncate_cause_def)
  next
    case long: True
    have len: "length ?u = e + 3" using e by (simp add: ellipsis_def)
    have nth: "?u ! (e + k) = ellipsis ! k" for k
      using e by (simp add: nth_append)
    have at: "is_char_boundary ?u e"
      using nth [of 0] len
      by (simp add: is_char_boundary_def ellipsis_def is_cont_def byte_in_def byte_val_def)
    have "\<not> is_char_boundary ?u k" if lt: "e < k" and le: "k \<le> max_cause_chars" for k
    proof -
      obtain d where k: "k = e + Suc d" using less_imp_Suc_add [OF lt] by auto
      have "e + Suc d < e + 3" using le long unfolding len k by (rule order_le_less_trans)
      then have "d = 0 \<or> d = 1" by arith
      then show ?thesis
        using nth [of "Suc d"] len k
        by (auto simp: is_char_boundary_def ellipsis_def is_cont_def byte_in_def byte_val_def)
    qed
    with at e(1) have "boundary_below ?u max_cause_chars = e"
      by (intro boundary_below_unique) auto
    then show ?thesis using long e by (simp add: truncate_cause_def)
  qed
  with u show ?thesis by simp
qed

end
