(* ===== verification/Wire_Errors.thy ===== *)
theory Wire_Errors
  imports Errors
begin

section \<open>The JSON-RPC envelope and the error mapping (wire.rs)\<close>

text \<open>
  An error crosses the plugin wire as a report and a kind-specific detail object, and is
  rebuilt from both on the other side. The JSON codec (\<open>serde_json\<close>) and the base64 codec
  are parameters, gathered in the record \<open>codec\<close>: \<open>to_value\<close> writes one of the detail
  structs, \<open>from_value\<close> reads a value as the struct a shape names. What the code relies on
  is \<open>codec_ok\<close>: reading back what was written gives the same struct, for every struct
  without an in-process source (the field serde skips), and base64 decodes what it encoded.
  \<open>wire_image\<close> is the specification: what an error becomes when it crosses once.
\<close>

subsection \<open>Detail objects\<close>

record exec_detail =
  ed_label :: string
  ed_termination :: termination_kind
  ed_exit_code :: "int option"
  stdout_b64 :: string
  stderr_b64 :: string
  duration_ms :: "u64 option"

record git_detail =
  gd_operation :: string
  gd_kind :: git_failure_kind
  gd_exec :: "exec_detail option"
  gd_provider :: "provider_error option"

datatype detail =
    IncompleteDetail incomplete_operation
  | OverloadedDetail string bool
  | LimitDetail string nat
  | UnsupportedDetail capability
  | ResourceDetail resource_kind string
  | ReadOnlyDetail resource_kind string action
  | InvalidSpecDetail string string
  | InvalidStateDetail sandbox_state action
  | TimeoutDetail string duration
  | AuthEnvelope string string
  | RateLimitedDetail "duration option"
  | ProviderEnvelope provider_error
  | ExecEnvelope exec_detail
  | GitEnvelope git_detail
  | IoDetail string
  | TransportDetail string

datatype detail_shape =
    ShIncomplete | ShOverloaded | ShLimit | ShUnsupported | ShResource | ShReadOnly
  | ShInvalidSpec | ShInvalidState | ShTimeout | ShAuth | ShRateLimited | ShProvider
  | ShExec | ShGit | ShIo | ShTransport

fun shape_of :: "detail \<Rightarrow> detail_shape" where
  "shape_of (IncompleteDetail _) = ShIncomplete"
| "shape_of (OverloadedDetail _ _) = ShOverloaded"
| "shape_of (LimitDetail _ _) = ShLimit"
| "shape_of (UnsupportedDetail _) = ShUnsupported"
| "shape_of (ResourceDetail _ _) = ShResource"
| "shape_of (ReadOnlyDetail _ _ _) = ShReadOnly"
| "shape_of (InvalidSpecDetail _ _) = ShInvalidSpec"
| "shape_of (InvalidStateDetail _ _) = ShInvalidState"
| "shape_of (TimeoutDetail _ _) = ShTimeout"
| "shape_of (AuthEnvelope _ _) = ShAuth"
| "shape_of (RateLimitedDetail _) = ShRateLimited"
| "shape_of (ProviderEnvelope _) = ShProvider"
| "shape_of (ExecEnvelope _) = ShExec"
| "shape_of (GitEnvelope _) = ShGit"
| "shape_of (IoDetail _) = ShIo"
| "shape_of (TransportDetail _) = ShTransport"

record 'w codec =
  to_value :: "detail \<Rightarrow> 'w"
  from_value :: "detail_shape \<Rightarrow> 'w \<Rightarrow> detail option"
  b64_encode :: "bytes \<Rightarrow> string"
  b64_decode :: "string \<Rightarrow> (string, bytes) result"

text \<open>The details serde reads back unchanged: no in-process source inside.\<close>

fun plain_detail :: "detail \<Rightarrow> bool" where
  "plain_detail (ProviderEnvelope p) \<longleftrightarrow> pe_source p = []"
| "plain_detail (GitEnvelope g) \<longleftrightarrow>
     (case gd_provider g of None \<Rightarrow> True | Some p \<Rightarrow> pe_source p = [])"
| "plain_detail _ \<longleftrightarrow> True"

definition codec_ok :: "'w codec \<Rightarrow> bool" where
  "codec_ok cdc \<longleftrightarrow>
     (\<forall>d. plain_detail d \<longrightarrow> from_value cdc (shape_of d) (to_value cdc d) = Some d) \<and>
     (\<forall>bs. b64_decode cdc (b64_encode cdc bs) = Ok bs)"

subsection \<open>Exec and provider evidence\<close>

definition millis_u64 :: "duration \<Rightarrow> u64" where
  "millis_u64 d =
     (let ms = d div 1000000 in if ms < 2 ^ 64 then word_of_nat ms else - 1)"

definition from_millis :: "u64 \<Rightarrow> duration" where
  "from_millis ms = unat ms * 1000000"

definition decode_bytes :: "'w codec \<Rightarrow> string \<Rightarrow> (error, bytes) result" where
  "decode_bytes cdc text =
     (case b64_decode cdc text of Err e \<Rightarrow> Err (InvalidSpec ''base64'' e) | Ok bs \<Rightarrow> Ok bs)"

definition exec_detail :: "'w codec \<Rightarrow> exec_failure \<Rightarrow> exec_detail" where
  "exec_detail cdc f =
     \<lparr>ed_label = ef_label f, ed_termination = ef_termination f, ed_exit_code = ef_exit_code f,
      stdout_b64 = b64_encode cdc (ef_stdout f), stderr_b64 = b64_encode cdc (ef_stderr f),
      duration_ms = map_option millis_u64 (ef_duration f)\<rparr>"

definition exec_failure :: "'w codec \<Rightarrow> exec_detail \<Rightarrow> exec_failure option" where
  "exec_failure cdc d =
     (case (decode_bytes cdc (stdout_b64 d), decode_bytes cdc (stderr_b64 d)) of
        (Ok stdout, Ok stderr) \<Rightarrow>
          (let f = exec_failure_new (ed_label d) (ed_termination d) (ed_exit_code d) stdout stderr
           in Some (case duration_ms d of None \<Rightarrow> f
                    | Some ms \<Rightarrow> with_duration f (from_millis ms)))
      | _ \<Rightarrow> None)"

definition provider_copy :: "provider_error \<Rightarrow> provider_error" where
  "provider_copy p =
     (provider_error_new (pe_provider p) (pe_message p))
       \<lparr>pe_code := pe_code p, pe_retryable := pe_retryable p, pe_detail := pe_detail p\<rparr>"

datatype remote_cause = RemoteCause string "remote_cause option"

definition remote_cause_of :: "string list \<Rightarrow> remote_cause option" where
  "remote_cause_of messages =
     fold (\<lambda>message source. Some (RemoteCause message source)) (rev messages) None"

fun cause_texts :: "remote_cause \<Rightarrow> cause_chain" where
  "cause_texts (RemoteCause m None) = [m]"
| "cause_texts (RemoteCause m (Some s)) = m # cause_texts s"

text \<open>The chain of an optional remote cause, as the error types store it.\<close>

definition chain_of :: "remote_cause option \<Rightarrow> cause_chain" where
  "chain_of c = (case c of None \<Rightarrow> [] | Some r \<Rightarrow> cause_texts r)"

subsection \<open>Projection\<close>

fun detail_struct :: "'w codec \<Rightarrow> error \<Rightarrow> detail" where
  "detail_struct cdc (Incomplete outcome) = IncompleteDetail outcome"
| "detail_struct cdc (Overloaded limit) = OverloadedDetail limit True"
| "detail_struct cdc (LimitExceeded limit max_bytes) = LimitDetail limit max_bytes"
| "detail_struct cdc (Unsupported c) = UnsupportedDetail c"
| "detail_struct cdc (NotFound r i) = ResourceDetail r i"
| "detail_struct cdc (NotOwned r i) = ResourceDetail r i"
| "detail_struct cdc (ReadOnly r i a) = ReadOnlyDetail r i a"
| "detail_struct cdc (InvalidSpec field reason) = InvalidSpecDetail field reason"
| "detail_struct cdc (InvalidState current a) = InvalidStateDetail current a"
| "detail_struct cdc (Timeout operation elapsed) = TimeoutDetail operation elapsed"
| "detail_struct cdc (Auth a) = AuthEnvelope (auth_provider a) (auth_reason a)"
| "detail_struct cdc (RateLimited retry_after) = RateLimitedDetail retry_after"
| "detail_struct cdc (Provider p) = ProviderEnvelope (provider_copy p)"
| "detail_struct cdc (Exec f) = ExecEnvelope (exec_detail cdc f)"
| "detail_struct cdc (Git f) = GitEnvelope
     \<lparr>gd_operation = gf_operation f, gd_kind = gf_kind f,
      gd_exec = map_option (exec_detail cdc) (gf_output f),
      gd_provider = map_option provider_copy (gf_provider f)\<rparr>"
| "detail_struct cdc (Io context _) = IoDetail context"
| "detail_struct cdc (Transport t) = TransportDetail (te_context t)"

definition detail_of :: "'w codec \<Rightarrow> error \<Rightarrow> 'w" where
  "detail_of cdc e = to_value cdc (detail_struct cdc e)"

record 'w wire_error =
  wire_code :: int
  wire_message :: string
  wire_data :: "(error_report \<times> 'w) option"

definition code_application :: int where
  "code_application = -32000"

definition code_method_not_found :: int where
  "code_method_not_found = -32601"

definition from_error :: "'w codec \<Rightarrow> (error \<Rightarrow> string) \<Rightarrow> error \<Rightarrow> 'w wire_error" where
  "from_error cdc display e =
     (let report = error_report display e in
      \<lparr>wire_code = code_application, wire_message = er_message report,
       wire_data = Some (report, detail_of cdc e)\<rparr>)"

subsection \<open>Reconstruction\<close>

definition unknown_kind :: string where
  "unknown_kind = ''plugin''"

definition read_rate_limited :: "'w codec \<Rightarrow> 'w \<Rightarrow> duration option" where
  "read_rate_limited cdc v =
     (case from_value cdc ShRateLimited v of Some (RateLimitedDetail r) \<Rightarrow> r | _ \<Rightarrow> None)"

definition typed_error :: "'w codec \<Rightarrow> string \<Rightarrow> 'w \<Rightarrow> string list \<Rightarrow> error option" where
  "typed_error cdc kind v causes =
     (if kind = ''incomplete'' then
        (case from_value cdc ShIncomplete v of Some (IncompleteDetail i) \<Rightarrow> Some (Incomplete i)
         | _ \<Rightarrow> None)
      else if kind = ''overloaded'' then
        (case from_value cdc ShOverloaded v of
           Some (OverloadedDetail limit not_started) \<Rightarrow>
             if not_started then Some (Overloaded limit) else None
         | _ \<Rightarrow> None)
      else if kind = ''limit_exceeded'' then
        (case from_value cdc ShLimit v of Some (LimitDetail l m) \<Rightarrow> Some (LimitExceeded l m)
         | _ \<Rightarrow> None)
      else if kind = ''unsupported'' then
        (case from_value cdc ShUnsupported v of Some (UnsupportedDetail c) \<Rightarrow> Some (Unsupported c)
         | _ \<Rightarrow> None)
      else if kind = ''not_found'' then
        (case from_value cdc ShResource v of Some (ResourceDetail r i) \<Rightarrow> Some (NotFound r i)
         | _ \<Rightarrow> None)
      else if kind = ''not_owned'' then
        (case from_value cdc ShResource v of Some (ResourceDetail r i) \<Rightarrow> Some (NotOwned r i)
         | _ \<Rightarrow> None)
      else if kind = ''read_only'' then
        (case from_value cdc ShReadOnly v of Some (ReadOnlyDetail r i a) \<Rightarrow> Some (ReadOnly r i a)
         | _ \<Rightarrow> None)
      else if kind = ''invalid_spec'' then
        (case from_value cdc ShInvalidSpec v of
           Some (InvalidSpecDetail f r) \<Rightarrow> Some (InvalidSpec f r)
         | _ \<Rightarrow> None)
      else if kind = ''invalid_state'' then
        (case from_value cdc ShInvalidState v of
           Some (InvalidStateDetail s a) \<Rightarrow> Some (InvalidState s a)
         | _ \<Rightarrow> None)
      else if kind = ''timeout'' then
        (case from_value cdc ShTimeout v of Some (TimeoutDetail p d) \<Rightarrow> Some (Timeout p d)
         | _ \<Rightarrow> None)
      else if kind = ''auth'' then
        (case from_value cdc ShAuth v of
           Some (AuthEnvelope p r) \<Rightarrow>
             Some (Auth \<lparr>auth_provider = p, auth_reason = r,
                         auth_source = chain_of (remote_cause_of causes)\<rparr>)
         | _ \<Rightarrow> None)
      else if kind = ''rate_limited'' then Some (RateLimited (read_rate_limited cdc v))
      else if kind = ''provider'' then
        (case from_value cdc ShProvider v of
           Some (ProviderEnvelope p) \<Rightarrow>
             (let copy = (case remote_cause_of causes of
                 Some source \<Rightarrow>
                   provider_error_with_source (pe_provider p) (pe_message p) (cause_texts source)
               | None \<Rightarrow> provider_error_new (pe_provider p) (pe_message p))
              in Some (Provider (copy\<lparr>pe_code := pe_code p, pe_retryable := pe_retryable p,
                                      pe_detail := pe_detail p\<rparr>)))
         | _ \<Rightarrow> None)
      else if kind = ''exec'' then
        (case from_value cdc ShExec v of
           Some (ExecEnvelope d) \<Rightarrow> map_option Exec (exec_failure cdc d)
         | _ \<Rightarrow> None)
      else if kind = ''git'' then
        (case from_value cdc ShGit v of
           Some (GitEnvelope g) \<Rightarrow>
             (let failure = classified (gd_operation g) (gd_kind g) (gd_provider g) in
              Some (Git (case Option.bind (gd_exec g) (exec_failure cdc) of
                           None \<Rightarrow> failure | Some output \<Rightarrow> with_output failure output)))
         | _ \<Rightarrow> None)
      else if kind = ''io'' then
        (case from_value cdc ShIo v of
           Some (IoDetail context) \<Rightarrow>
             (let source = (case remote_cause_of causes of
                 Some c \<Rightarrow> c | None \<Rightarrow> RemoteCause ''remote I/O failure'' None)
              in Some (Io context \<lparr>io_kind = ''Other'', io_chain = cause_texts source\<rparr>))
         | _ \<Rightarrow> None)
      else if kind = ''transport'' then
        (case from_value cdc ShTransport v of
           Some (TransportDetail context) \<Rightarrow>
             Some (Transport \<lparr>te_context = context,
                              te_source = chain_of (remote_cause_of causes)\<rparr>)
         | _ \<Rightarrow> None)
      else None)"

definition show_int :: "int \<Rightarrow> string" where
  "show_int i = (if i < 0 then CHR ''-'' # show_nat (nat (- i)) else show_nat (nat i))"

definition into_error :: "'w codec \<Rightarrow> 'w wire_error \<Rightarrow> error" where
  "into_error cdc w =
     (case wire_data w of
        None \<Rightarrow> Provider ((provider_error_new unknown_kind (wire_message w))
                            \<lparr>pe_code := Some (show_int (wire_code w))\<rparr>)
      | Some (report, detail) \<Rightarrow>
          (case typed_error cdc (er_kind report) detail (er_causes report) of
             Some e \<Rightarrow> e
           | None \<Rightarrow> Provider ((provider_error_new unknown_kind (er_message report))
                        \<lparr>pe_retryable := er_retryable report,
                         pe_code := Some (er_kind report)\<rparr>)))"

text \<open>\<open>str::parse::<i64>\<close>: an optional sign, digits, and a value in range.\<close>

definition parse_i64 :: "string \<Rightarrow> int option" where
  "parse_i64 s =
     (let (neg, ds) = (case s of x # xs \<Rightarrow> if x = CHR ''-'' then (True, xs)
                         else if x = CHR ''+'' then (False, xs) else (False, s) | [] \<Rightarrow> (False, s))
      in if ds = [] \<or> \<not> list_all is_ascii_digit ds then None
         else (let v = (if neg then - int (digits_val 0 ds) else int (digits_val 0 ds))
               in if - (2 ^ 63) \<le> v \<and> v < 2 ^ 63 then Some v else None))"

fun is_method_not_found :: "error \<Rightarrow> bool" where
  "is_method_not_found (Provider p) \<longleftrightarrow>
     Option.bind (pe_code p) parse_i64 = Some code_method_not_found"
| "is_method_not_found _ \<longleftrightarrow> False"

subsection \<open>What crosses\<close>

definition carried :: "cause_chain \<Rightarrow> cause_chain" where
  "carried chain = map truncate_cause (take max_causes chain)"

definition round_duration :: "exec_failure \<Rightarrow> exec_failure" where
  "round_duration f = f\<lparr>ef_duration := map_option (\<lambda>d. from_millis (millis_u64 d)) (ef_duration f)\<rparr>"

fun wire_image :: "error \<Rightarrow> error" where
  "wire_image (Auth a) = Auth (a\<lparr>auth_source := carried (auth_source a)\<rparr>)"
| "wire_image (Provider p) = Provider (p\<lparr>pe_source := carried (pe_source p)\<rparr>)"
| "wire_image (Transport t) = Transport (t\<lparr>te_source := carried (te_source t)\<rparr>)"
| "wire_image (Io context e) = Io context \<lparr>io_kind = ''Other'',
     io_chain = (if io_chain e = [] then [''remote I/O failure''] else carried (io_chain e))\<rparr>"
| "wire_image (Exec f) = Exec (round_duration f)"
| "wire_image (Git f) = Git (f\<lparr>gf_output := map_option round_duration (gf_output f),
     gf_provider := map_option (pe_source_update (\<lambda>_. [])) (gf_provider f)\<rparr>)"
| "wire_image e = e"

lemma remote_cause_of_simps [simp]:
  "remote_cause_of [] = None"
  "remote_cause_of (m # ms) = Some (RemoteCause m (remote_cause_of ms))"
  by (simp_all add: remote_cause_of_def)

lemma cause_texts_Cons [simp]: "cause_texts (RemoteCause m s) = m # chain_of s"
  by (cases s) (simp_all add: chain_of_def)

lemma chain_of_simps [simp]: "chain_of None = []" "chain_of (Some r) = cause_texts r"
  by (simp_all add: chain_of_def)

lemma chain_of_remote [simp]: "chain_of (remote_cause_of ms) = ms"
  by (induction ms) simp_all

lemma remote_cause_texts:
  "remote_cause_of ms = Some r \<Longrightarrow> cause_texts r = ms"
  "remote_cause_of ms = None \<longleftrightarrow> ms = []"
  by (metis chain_of_remote chain_of_simps(2), cases ms) simp_all

lemma from_value_detail:
  "codec_ok cdc \<Longrightarrow> plain_detail d \<Longrightarrow> shape_of d = sh \<Longrightarrow> from_value cdc sh (to_value cdc d) = Some d"
  by (auto simp: codec_ok_def)

lemma plain_detail_struct [simp]: "plain_detail (detail_struct cdc e)"
  by (cases e) (auto simp: provider_copy_def provider_error_new_def split: option.splits)

lemma exec_detail_back [simp]:
  "codec_ok cdc \<Longrightarrow> exec_failure cdc (exec_detail cdc f) = Some (round_duration f)"
  by (cases f)
    (auto simp: codec_ok_def exec_failure_def exec_detail_def decode_bytes_def
      exec_failure_new_def with_duration_def round_duration_def Let_def split: option.splits)

lemma exec_output_back:
  "codec_ok cdc \<Longrightarrow>
   Option.bind (map_option (exec_detail cdc) f) (exec_failure cdc) = map_option round_duration f"
  by (cases f) simp_all

lemma provider_copy_eq: "provider_copy = pe_source_update (\<lambda>_. [])"
  by (rule ext, rule provider_error.equality)
    (simp_all add: provider_copy_def provider_error_new_def)

lemmas wire_defs = from_error_def into_error_def error_report_def detail_of_def typed_error_def
  carried_def provider_error_with_source_def provider_error_new_def provider_copy_eq

lemma read_rate_limited_back:
  "codec_ok cdc \<Longrightarrow> read_rate_limited cdc (to_value cdc (RateLimitedDetail r)) = r"
  by (simp add: read_rate_limited_def from_value_detail)

lemma wire_git_back:
  "codec_ok cdc \<Longrightarrow> into_error cdc (from_error cdc display (Git f)) = wire_image (Git f)"
  by (cases f)
    (auto simp: wire_defs from_value_detail classified_def with_output_def Let_def
      exec_output_back option.map_comp comp_def split: option.splits)

lemma wire_sourced_back:
  assumes "codec_ok cdc"
  shows "into_error cdc (from_error cdc display (Auth a)) = wire_image (Auth a)"
    and "into_error cdc (from_error cdc display (Provider p)) = wire_image (Provider p)"
    and "into_error cdc (from_error cdc display (Transport t)) = wire_image (Transport t)"
    and "into_error cdc (from_error cdc display (Io c e)) = wire_image (Io c e)"
  using assms
  by (auto simp: wire_defs from_value_detail Let_def max_causes_def remote_cause_texts
      split: option.splits)


text \<open>A codec that meets the hypothesis: JSON values are the detail structs themselves.\<close>

definition identity_codec :: "detail codec" where
  "identity_codec =
     \<lparr>to_value = (\<lambda>d. d), from_value = (\<lambda>sh d. if shape_of d = sh then Some d else None),
      b64_encode = (\<lambda>bs. bs), b64_decode = Ok\<rparr>"

lemma identity_codec_ok: "codec_ok identity_codec"
  by (simp add: codec_ok_def identity_codec_def)


lemma carried_idem [simp]: "carried (carried c) = carried c"
  by (simp add: carried_def take_map comp_def)

lemma from_millis_idem [simp]:
  "from_millis (millis_u64 (from_millis (millis_u64 d))) = from_millis (millis_u64 d)"
proof -
  have "millis_u64 (from_millis w) = w" for w
    using unsigned_less [of w, where ?'a = nat] by (simp add: millis_u64_def from_millis_def Let_def)
  then show ?thesis by simp
qed

lemma round_duration_idem [simp]: "round_duration (round_duration f) = round_duration f"
  by (cases f) (simp add: round_duration_def option.map_comp comp_def)

lemma carried_eq_Nil [simp]: "carried c = [] \<longleftrightarrow> c = []"
  by (simp add: carried_def max_causes_def)

lemma carried_placeholder [simp]: "carried [''remote I/O failure''] = [''remote I/O failure'']"
  by (simp add: carried_def max_causes_def truncate_cause_def max_cause_chars_def)

text \<open>
  Crossing a second wire (a provider served through a relay) changes nothing more, and
  the decisions a caller makes on a report, its kind and whether a retry can help, are the
  same before and after the wire.
\<close>

lemma wire_image_stable:
  "wire_image (wire_image e) = wire_image e \<and>
   report_kind (wire_image e) = report_kind e \<and>
   report_retryable (wire_image e) = report_retryable e"
  by (cases e) (auto simp: option.map_comp comp_def)

lemma show_nat_first:
  obtains x xs where "show_nat n = x # xs" "x \<noteq> CHR ''+''" "x \<noteq> CHR ''-''"
proof -
  obtain x xs where s: "show_nat n = x # xs"
    by (cases "show_nat n") auto
  moreover have "x \<noteq> CHR ''+'' \<and> x \<noteq> CHR ''-''"
    using show_nat_hd [of n] s by (auto simp: ascii_defs byte_val_def)
  ultimately show thesis using that by blast
qed

lemma parse_show_int:
  assumes "- (2 ^ 63) \<le> i" and "i < 2 ^ 63"
  shows "parse_i64 (show_int i) = Some i"
proof (cases "i < 0")
  case True
  with assms show ?thesis
    using show_nat_digits [of "nat (- i)"] by (simp add: parse_i64_def show_int_def Let_def)
next
  case False
  obtain x xs where s: "show_nat (nat i) = x # xs" "x \<noteq> CHR ''+''" "x \<noteq> CHR ''-''"
    by (rule show_nat_first)
  from False assms show ?thesis
    using show_nat_digits [of "nat i"] digits_val_show [of "nat i"]
    by (simp add: parse_i64_def show_int_def Let_def s)
qed

text \<open>
  A plugin's answer that carries no data is read as a method the plugin does not offer
  exactly when its code is \<open>-32601\<close>, whatever its message; the code is an \<open>i64\<close>.
\<close>

lemma method_not_found_recognised:
  assumes "- (2 ^ 63) \<le> code" and "code < 2 ^ 63"
  shows "is_method_not_found
     (into_error cdc \<lparr>wire_code = code, wire_message = m, wire_data = None\<rparr>) \<longleftrightarrow>
   code = code_method_not_found"
  using parse_show_int [OF assms] by (simp add: into_error_def)

lemma method_not_found_recognised_witness:
  "is_method_not_found (into_error identity_codec
     \<lparr>wire_code = -32601, wire_message = ''unknown method'', wire_data = None\<rparr>)"
  using method_not_found_recognised [of "-32601" identity_codec "''unknown method''"]
  by (simp add: code_method_not_found_def)

end
