(* ===== verification/Exec_Types.thy ===== *)
theory Exec_Types
  imports Errors
begin

section \<open>Execution requests and results (exec.rs)\<close>

text \<open>
  The serializable execution request with its builder methods and the environment a Bash
  helper launches with, the two stop levels, and the results with their retention
  accounting. A \<open>BTreeMap\<close> of environment variables is a finite map.
\<close>

subsection \<open>Requests\<close>

datatype output_sanitization = Raw | StripAnsi | StripAll

datatype output_stream = Stdout | Stderr

record exec_spec =
  program :: string
  args :: "string list"
  timeout :: "duration option"
  stop_grace :: "duration option"
  working_dir :: "string option"
  env :: "string \<rightharpoonup> string"
  spec_stdin :: "bytes option"
  output_sanitization :: output_sanitization

definition default_timeout :: duration where
  "default_timeout = from_secs 3600"

definition spec_new :: "string \<Rightarrow> exec_spec" where
  "spec_new p =
     \<lparr>program = p, args = [], timeout = Some default_timeout, stop_grace = None,
      working_dir = None, env = Map.empty, spec_stdin = None, output_sanitization = Raw\<rparr>"

definition bash_env_var :: string where
  "bash_env_var = ''BASH_ENV''"

definition spec_args :: "exec_spec \<Rightarrow> string list \<Rightarrow> exec_spec" where
  "spec_args s xs = s\<lparr>args := args s @ xs\<rparr>"

definition env_var :: "exec_spec \<Rightarrow> string \<Rightarrow> string \<Rightarrow> exec_spec" where
  "env_var s k v = s\<lparr>env := (env s)(k \<mapsto> v)\<rparr>"

definition spec_bash :: "string \<Rightarrow> exec_spec" where
  "spec_bash script = env_var (spec_args (spec_new ''bash'') [''-c'', script]) bash_env_var []"

definition is_bash_helper :: "exec_spec \<Rightarrow> bool" where
  "is_bash_helper s \<longleftrightarrow>
     program s = ''bash'' \<and> (case args s of [] \<Rightarrow> False | flag # _ \<Rightarrow> flag = ''-c'')"

definition launch_env_of :: "bool \<Rightarrow> (string \<rightharpoonup> string) \<Rightarrow> (string \<rightharpoonup> string)" where
  "launch_env_of bash_helper e =
     (if bash_helper \<and> (case e bash_env_var of None \<Rightarrow> True | Some v \<Rightarrow> v \<noteq> [])
      then e(bash_env_var \<mapsto> []) else e)"

definition launch_env :: "exec_spec \<Rightarrow> (string \<rightharpoonup> string)" where
  "launch_env s = launch_env_of (is_bash_helper s) (env s)"

subsection \<open>Stops\<close>

datatype stop_level = Term | Kill

fun stop_termination :: "stop_level \<Rightarrow> termination_kind" where
  "stop_termination Term = Cancelled"
| "stop_termination Kill = Killed"

subsection \<open>Results\<close>

record exec_result =
  res_stdout :: bytes
  res_stderr :: bytes
  exit_code :: "int option"
  signal :: "int option"
  result_termination :: termination_kind
  res_duration :: duration

definition result_new :: "termination_kind \<Rightarrow> int option \<Rightarrow> duration \<Rightarrow> exec_result" where
  "result_new t c d =
     \<lparr>res_stdout = [], res_stderr = [], exit_code = c, signal = None, result_termination = t,
      res_duration = d\<rparr>"

definition from_shell_status :: "termination_kind \<Rightarrow> int option \<Rightarrow> duration \<Rightarrow> exec_result" where
  "from_shell_status t status d =
     (let result = result_new t status d in
      case status of
        Some code \<Rightarrow> if 129 \<le> code \<and> code \<le> 192 then result\<lparr>signal := Some (code - 128)\<rparr> else result
      | None \<Rightarrow> result)"

definition success :: "exec_result \<Rightarrow> bool" where
  "success r \<longleftrightarrow> result_termination r = Exited \<and> exit_code r = Some 0"

record capture_stats =
  observed_bytes :: nat
  retained_bytes :: nat
  omitted_bytes :: nat
  truncated :: bool

definition stats_complete :: "nat \<Rightarrow> capture_stats" where
  "stats_complete n =
     \<lparr>observed_bytes = n, retained_bytes = n, omitted_bytes = 0, truncated = False\<rparr>"

record output_loss =
  dropped_frames :: u64
  dropped_bytes :: u64

definition no_loss :: output_loss where
  "no_loss = \<lparr>dropped_frames = 0, dropped_bytes = 0\<rparr>"

definition is_lossy :: "output_loss \<Rightarrow> bool" where
  "is_lossy l \<longleftrightarrow> dropped_frames l \<noteq> 0 \<or> dropped_bytes l \<noteq> 0"

record streaming_result =
  str_result :: exec_result
  str_streams_separated :: bool
  str_live_streaming :: bool
  stdout_capture :: capture_stats
  stderr_capture :: capture_stats
  str_output_loss :: output_loss

definition streaming_new :: "exec_result \<Rightarrow> streaming_result" where
  "streaming_new r =
     \<lparr>str_result = r, str_streams_separated = False, str_live_streaming = False,
      stdout_capture = stats_complete (length (res_stdout r)),
      stderr_capture = stats_complete (length (res_stderr r)), str_output_loss = no_loss\<rparr>"

definition into_complete :: "streaming_result \<Rightarrow> (error, exec_result) result" where
  "into_complete s =
     (if truncated (stdout_capture s) \<or> truncated (stderr_capture s) \<or> is_lossy (str_output_loss s)
      then Err (transport ''command output delivery was incomplete'')
      else if omitted_bytes (stdout_capture s) \<noteq> 0 \<or> omitted_bytes (stderr_capture s) \<noteq> 0
      then Err (LimitExceeded ''retained_output_bytes''
                  (max (retained_bytes (stdout_capture s)) (retained_bytes (stderr_capture s))))
      else Ok (str_result s))"

subsection \<open>Properties\<close>

text \<open>
  No environment a caller sets can make a Bash helper source a startup file: whatever
  is put in \<open>BASH_ENV\<close> after the helper was built, the command launches with it blank, and
  every other variable reaches the command as given.
\<close>

lemma bash_helper_blank_env:
  "let s = fold (\<lambda>(k, v) s. env_var s k v) settings (spec_bash script) in
   launch_env s bash_env_var = Some [] \<and>
   (\<forall>k. k \<noteq> bash_env_var \<longrightarrow> launch_env s k = env s k)"
proof -
  have keep: "program s = program s0 \<and> args s = args s0"
    if "s = fold (\<lambda>(k, v) s. env_var s k v) xs s0" for s s0 :: exec_spec and xs
    using that by (induction xs arbitrary: s0) (auto simp: env_var_def split: prod.splits)
  let ?s = "fold (\<lambda>(k, v) s. env_var s k v) settings (spec_bash script)"
  have "is_bash_helper ?s"
    using keep [OF refl, of settings "spec_bash script"]
    by (simp add: is_bash_helper_def spec_bash_def spec_args_def env_var_def spec_new_def)
  then show ?thesis
    by (simp add: Let_def launch_env_def launch_env_of_def split: option.splits)
qed

lemma bash_helper_blank_env_witness:
  "let s = fold (\<lambda>(k, v) s. env_var s k v) [(bash_env_var, ''/rc''), (''A'', ''b'')] (spec_bash ''ls'') in
   launch_env s bash_env_var = Some [] \<and> launch_env s ''A'' = Some ''b''"
proof -
  let ?s = "fold (\<lambda>(k, v) s. env_var s k v) [(bash_env_var, ''/rc''), (''A'', ''b'')] (spec_bash ''ls'')"
  have "env ?s ''A'' = Some ''b''" by (simp add: env_var_def)
  moreover have "''A'' \<noteq> bash_env_var" by (simp add: bash_env_var_def)
  ultimately show ?thesis
    using bash_helper_blank_env [of "[(bash_env_var, ''/rc''), (''A'', ''b'')]" "''ls''"]
    unfolding Let_def by simp
qed

text \<open>
  A run counts as successful only when the command ended on its own with code 0, so a
  code the provider happened to see on a stopped command is never success; and a decoded
  signal is exactly what a shell reports as \<open>128 + N\<close>.
\<close>

lemma success_only_exited: "success r \<Longrightarrow> result_termination r = Exited"
  by (simp add: success_def)

lemma from_shell_status_signal:
  "signal (from_shell_status t status d) = Some n \<longleftrightarrow>
     1 \<le> n \<and> n \<le> 64 \<and> status = Some (128 + n)"
  by (auto simp: from_shell_status_def result_new_def Let_def split: option.splits)

lemma from_shell_status_fields [simp]:
  "exit_code (from_shell_status t status d) = status"
  "result_termination (from_shell_status t status d) = t"
  "res_stdout (from_shell_status t status d) = []"
  "res_stderr (from_shell_status t status d) = []"
  by (auto simp: from_shell_status_def result_new_def Let_def split: option.splits)

lemma into_complete_Ok:
  "into_complete s = Ok r \<longleftrightarrow>
     r = str_result s \<and> \<not> truncated (stdout_capture s) \<and> \<not> truncated (stderr_capture s) \<and>
     \<not> is_lossy (str_output_loss s) \<and>
     omitted_bytes (stdout_capture s) = 0 \<and> omitted_bytes (stderr_capture s) = 0"
  by (auto simp: into_complete_def)

end
