(* ===== verification/Capture.thy ===== *)
theory Capture
  imports Exec_Types
begin

section \<open>Bounded retention (capture.rs, buffer.rs)\<close>

text \<open>
  \<open>OutputCaptureBuffer\<close> keeps a stable head and a rolling tail of a stream and counts what
  it drops; \<open>BoundedBuffer\<close> refuses a chunk that would exceed its cap. The buffer is shown
  to be a \<open>chunk_sink\<close>, so that its content depends only on the bytes pushed, and to
  refine the specification \<open>retained\<close>: the first half of the cap and the newest bytes of
  the rest.
\<close>

subsection \<open>OutputCaptureBuffer\<close>

record capture_buffer =
  cap :: "nat option"
  head_cap :: nat
  head :: bytes
  tail :: bytes
  observed :: nat
  omitted :: nat

definition capture_new :: "nat option \<Rightarrow> capture_buffer" where
  "capture_new c =
     \<lparr>cap = Some (case c of None \<Rightarrow> 0 | Some n \<Rightarrow> n),
      head_cap = (case c of None \<Rightarrow> 0 | Some n \<Rightarrow> n div 2),
      head = [], tail = [], observed = 0, omitted = 0\<rparr>"

text \<open>
  The loop over the rest of a chunk, on the tail and the count of omitted bytes: a full
  tail gives up its oldest byte.
\<close>

primrec roll :: "nat \<Rightarrow> bytes \<Rightarrow> bytes \<times> nat \<Rightarrow> bytes \<times> nat" where
  "roll tail_cap [] r = r"
| "roll tail_cap (x # xs) r =
     roll tail_cap xs
       (if length (fst r) = tail_cap then (tl (fst r) @ [x], snd r + 1) else (fst r @ [x], snd r))"

definition capture_push :: "capture_buffer \<Rightarrow> bytes \<Rightarrow> capture_buffer" where
  "capture_push b0 chunk =
     (let b = b0\<lparr>observed := observed b0 + length chunk\<rparr> in
      case cap b of
        None \<Rightarrow> b\<lparr>head := head b @ chunk\<rparr>
      | Some c \<Rightarrow>
          (let take_n = (if length (head b) < head_cap b
                         then min (head_cap b - length (head b)) (length chunk) else 0);
               b1 = b\<lparr>head := head b @ take take_n chunk\<rparr>;
               rest = drop take_n chunk;
               tail_cap = c - head_cap b
           in if tail_cap = 0 then b1\<lparr>omitted := omitted b1 + length rest\<rparr>
              else (let r = roll tail_cap rest (tail b1, omitted b1)
                    in b1\<lparr>tail := fst r, omitted := snd r\<rparr>)))"

definition capture_stats :: "capture_buffer \<Rightarrow> capture_stats" where
  "capture_stats b =
     \<lparr>observed_bytes = observed b, retained_bytes = length (head b) + length (tail b),
      omitted_bytes = omitted b, truncated = False\<rparr>"

definition to_bytes :: "capture_buffer \<Rightarrow> bytes" where
  "to_bytes b = head b @ tail b"

definition into_parts :: "capture_buffer \<Rightarrow> bytes \<times> capture_stats" where
  "into_parts b =
     (let bytes = head b @ tail b in
      (bytes, \<lparr>observed_bytes = observed b, retained_bytes = length bytes,
               omitted_bytes = omitted b, truncated = False\<rparr>))"

subsection \<open>Specification\<close>

definition retained :: "nat \<Rightarrow> bytes \<Rightarrow> bytes" where
  "retained c w = take (c div 2) w @ lastn (c - c div 2) (drop (c div 2) w)"

text \<open>The buffer that has consumed exactly the stream \<open>w\<close>.\<close>

definition holds_stream :: "nat \<Rightarrow> bytes \<Rightarrow> capture_buffer \<Rightarrow> bool" where
  "holds_stream c w b \<longleftrightarrow>
     cap b = Some c \<and> head_cap b = c div 2 \<and>
     head b = take (c div 2) w \<and> tail b = lastn (c - c div 2) (drop (c div 2) w) \<and>
     observed b = length w \<and>
     omitted b + length (head b) + length (tail b) = length w"

lemma holds_stream_unique:
  "holds_stream c w a \<Longrightarrow> holds_stream c w b \<Longrightarrow> a = b"
  by (cases a; cases b) (auto simp: holds_stream_def)

lemma holds_stream_new: "holds_stream (case c of None \<Rightarrow> 0 | Some n \<Rightarrow> n) [] (capture_new c)"
  by (simp add: holds_stream_def capture_new_def split: option.splits)

lemma roll_append: "roll t (xs @ ys) r = roll t ys (roll t xs r)"
  by (induction xs arbitrary: r) simp_all

lemma roll_tail:
  assumes "0 < t"
  shows "fst (roll t xs (lastn t w, k)) = lastn t (w @ xs)"
proof (induction xs arbitrary: w k)
  case (Cons x xs)
  have "lastn t (w @ [x]) =
     (if length (lastn t w) = t then tl (lastn t w) @ [x] else lastn t w @ [x])"
    using assms
    by (cases "t \<le> length w") (auto simp: lastn_snoc_full lastn_snoc_room lastn_all min_def)
  then have "roll t (x # xs) (lastn t w, k) =
     roll t xs (lastn t (w @ [x]), if length (lastn t w) = t then k + 1 else k)"
    by (simp del: length_lastn)
  then show ?case
    using Cons.IH [of "w @ [x]"] by simp
qed simp

lemma roll_omitted:
  "length (fst r) \<le> t \<Longrightarrow> 0 < t \<Longrightarrow>
   snd (roll t xs r) + length (fst (roll t xs r)) = snd r + length (fst r) + length xs"
  by (induction xs arbitrary: r) auto

text \<open>The push with the room left in the head made explicit.\<close>

lemma capture_push_Some:
  assumes "cap b = Some c"
  shows "capture_push b xs =
    (let n = head_cap b - length (head b); t = c - head_cap b;
         r = (if t = 0 then (tail b, omitted b + (length xs - n))
              else roll t (drop n xs) (tail b, omitted b))
     in \<lparr>cap = Some c, head_cap = head_cap b, head = head b @ take n xs, tail = fst r,
         observed = observed b + length xs, omitted = snd r\<rparr>)"
  using assms by (cases b) (auto simp: capture_push_def Let_def min_def)

lemma holds_stream_push:
  assumes "holds_stream c w b"
  shows "holds_stream c (w @ xs) (capture_push b xs)"
proof -
  let ?h = "c div 2" and ?t = "c - c div 2"
  let ?n = "?h - length w"
  let ?r = "if ?t = 0 then (tail b, omitted b + (length xs - ?n))
            else roll ?t (drop ?n xs) (tail b, omitted b)"
  have inv: "cap b = Some c" "head_cap b = ?h" "head b = take ?h w"
    "tail b = lastn ?t (drop ?h w)" "observed b = length w"
    "omitted b + length (head b) + length (tail b) = length w"
    using assms unfolding holds_stream_def by blast+
  have half: "c \<le> c div 2 \<longleftrightarrow> c = 0" by presburger
  have push: "capture_push b xs =
      \<lparr>cap = Some c, head_cap = ?h, head = take ?h (w @ xs), tail = fst ?r,
       observed = length (w @ xs), omitted = snd ?r\<rparr>"
    unfolding capture_push_Some [OF inv(1)] Let_def inv(2,3,5) using half
    by (cases "c = 0") (auto simp: min_def)
  have tail: "fst ?r = lastn ?t (drop ?h (w @ xs))"
  proof (cases "?t = 0")
    case True
    with half have "c = 0" by simp
    then show ?thesis by (simp add: inv(4))
  next
    case False
    then have "fst (roll ?t (drop ?n xs) (lastn ?t (drop ?h w), omitted b)) =
        lastn ?t (drop ?h w @ drop ?n xs)"
      by (intro roll_tail) simp
    with False show ?thesis by (simp add: inv(4))
  qed
  have count: "snd ?r + length (fst ?r) = omitted b + length (tail b) + length (drop ?n xs)"
    using roll_omitted [of "(tail b, omitted b)" ?t "drop ?n xs"] inv(4) by simp
  have "length (take ?h (w @ xs)) + length (drop ?n xs) = length (head b) + length xs"
    using inv(3) by (auto simp: min_def)
  with count inv(6) have "snd ?r + length (take ?h (w @ xs)) + length (fst ?r) = length (w @ xs)"
    by simp
  then show ?thesis
    unfolding holds_stream_def push using tail by simp
qed

subsection \<open>The buffer is a chunk sink\<close>

lemma capture_push_Nil: "capture_push b [] = b"
  by (simp add: capture_push_def Let_def split: option.splits)

lemma capture_push_append_fits:
  assumes c: "cap b = Some c" and fits: "length xs \<le> head_cap b - length (head b)"
  shows "capture_push b (xs @ ys) = capture_push (capture_push b xs) ys"
proof -
  have "capture_push b xs =
      \<lparr>cap = Some c, head_cap = head_cap b, head = head b @ xs, tail = tail b,
       observed = observed b + length xs, omitted = omitted b\<rparr>"
    using c fits by (simp add: capture_push_Some Let_def)
  then show ?thesis
    using c fits by (auto simp: capture_push_Some Let_def)
qed

lemma capture_push_append_full:
  assumes c: "cap b = Some c" and full: "head_cap b \<le> length (head b)"
  shows "capture_push b (xs @ ys) = capture_push (capture_push b xs) ys"
  using c full by (simp add: capture_push_Some Let_def roll_append)

lemma capture_push_append: "capture_push b (xs @ ys) = capture_push (capture_push b xs) ys"
proof (cases "cap b")
  case None
  then show ?thesis by (simp add: capture_push_def Let_def)
next
  case (Some c)
  let ?n = "head_cap b - length (head b)"
  let ?b = "capture_push b (take ?n xs)"
  have fits: "length (take ?n xs) \<le> ?n" by simp
  show ?thesis
  proof (cases "length xs \<le> ?n")
    case True
    with Some show ?thesis by (rule capture_push_append_fits)
  next
    case False
    then have full: "cap ?b = Some c" "head_cap ?b \<le> length (head ?b)"
      using Some by (simp_all add: capture_push_Some Let_def min_def)
    have "capture_push b (take ?n xs @ drop ?n xs @ ys) = capture_push ?b (drop ?n xs @ ys)"
      by (rule capture_push_append_fits [OF Some fits])
    also have "\<dots> = capture_push (capture_push ?b (drop ?n xs)) ys"
      by (rule capture_push_append_full [OF full])
    also have "capture_push ?b (drop ?n xs) = capture_push b (take ?n xs @ drop ?n xs)"
      by (rule capture_push_append_fits [OF Some fits, symmetric])
    finally show ?thesis by (simp only: append_take_drop_id flip: append_assoc)
  qed
qed

interpretation capture_sink: chunk_sink capture_push
  by unfold_locales (simp_all add: capture_push_Nil capture_push_append)

lemma holds_stream_parts:
  assumes "holds_stream n w b"
  shows "into_parts b =
    (retained n w, \<lparr>observed_bytes = length w, retained_bytes = length (retained n w),
       omitted_bytes = length w - length (retained n w), truncated = False\<rparr>)"
proof -
  have kept: "head b @ tail b = retained n w" and "observed b = length w"
    using assms by (simp_all add: holds_stream_def retained_def)
  moreover have "omitted b = length w - length (retained n w)"
    using assms kept unfolding holds_stream_def by (metis add_diff_cancel_right' add.assoc length_append)
  ultimately show ?thesis by (simp add: into_parts_def Let_def)
qed

lemma holds_stream_all:
  "holds_stream (case c of None \<Rightarrow> 0 | Some n \<Rightarrow> n) (concat chunks)
     (absorb_all capture_push (capture_new c) chunks)"
  using holds_stream_push [OF holds_stream_new, of c "concat chunks"]
  by (simp add: capture_sink.absorb_all_concat)

text \<open>
  However a stream is cut into chunks, the buffer hands back the first half of its cap
  and the newest bytes of the remaining budget, and its accounting is exact: every byte is
  observed, and is either retained or counted as omitted. Without a cap nothing is kept.
\<close>

lemma capture_refines_retained:
  "into_parts (absorb_all capture_push (capture_new c) chunks) =
     (let w = concat chunks; kept = retained (case c of None \<Rightarrow> 0 | Some n \<Rightarrow> n) w in
      (kept, \<lparr>observed_bytes = length w, retained_bytes = length kept,
              omitted_bytes = length w - length kept, truncated = False\<rparr>))"
  using holds_stream_parts [OF holds_stream_all [of c chunks]] by (simp add: Let_def)

text \<open>
  The retained copy never exceeds the cap, and a stream that fits the cap is returned
  whole, with nothing omitted.
\<close>

lemma capture_bounds:
  "length (to_bytes (absorb_all capture_push (capture_new (Some n)) chunks)) \<le> n \<and>
   (length (concat chunks) \<le> n \<longrightarrow>
      to_bytes (absorb_all capture_push (capture_new (Some n)) chunks) = concat chunks \<and>
      omitted (absorb_all capture_push (capture_new (Some n)) chunks) = 0)"
proof -
  have inv: "holds_stream n (concat chunks) (absorb_all capture_push (capture_new (Some n)) chunks)"
    using holds_stream_all [of "Some n" chunks] by simp
  have len: "length (retained n w) \<le> n" for w
    by (simp add: retained_def)
  have whole: "retained n w = w" if "length w \<le> n" for w
    using that by (simp add: retained_def lastn_all)
  show ?thesis
    using inv len [of "concat chunks"] whole [of "concat chunks"]
    unfolding holds_stream_def to_bytes_def retained_def by auto
qed

lemma capture_bounds_witness:
  "to_bytes (absorb_all capture_push (capture_new (Some 8)) [''sho'', ''rt'']) = ''short'' \<and>
   omitted (absorb_all capture_push (capture_new (Some 8)) [''sho'', ''rt'']) = 0"
  using capture_bounds [of 8 "[''sho'', ''rt'']"] by simp

subsection \<open>BoundedBuffer\<close>

record bounded_buffer =
  bb_bytes :: bytes
  bb_max :: nat
  exceeded :: bool

definition bounded_new :: "nat \<Rightarrow> bounded_buffer" where
  "bounded_new m = \<lparr>bb_bytes = [], bb_max = m, exceeded = False\<rparr>"

text \<open>\<open>poll_write\<close>: the result is the I/O error's text or the number of bytes taken.\<close>

definition poll_write :: "bounded_buffer \<Rightarrow> bytes \<Rightarrow> bounded_buffer \<times> (string, nat) result" where
  "poll_write b bytes =
     (if length bytes > bb_max b - length (bb_bytes b)
      then (b\<lparr>exceeded := True\<rparr>, Err ''buffered value limit exceeded'')
      else (b\<lparr>bb_bytes := bb_bytes b @ bytes\<rparr>, Ok (length bytes)))"

definition bounded_finish :: "bounded_buffer \<Rightarrow> (error, unit) result \<Rightarrow> (error, bytes) result" where
  "bounded_finish b outcome =
     (if exceeded b then Err (LimitExceeded ''buffered_value_bytes'' (bb_max b))
      else bind_result outcome (\<lambda>_. Ok (bb_bytes b)))"

text \<open>A producer that writes its chunks in order and stops at the first refusal.\<close>

fun write_chunks :: "bounded_buffer \<Rightarrow> bytes list \<Rightarrow> bounded_buffer \<times> (string, unit) result" where
  "write_chunks b [] = (b, Ok ())"
| "write_chunks b (c # cs) =
     (case poll_write b c of
        (b', Err e) \<Rightarrow> (b', Err e)
      | (b', Ok _) \<Rightarrow> write_chunks b' cs)"

lemma write_chunks_spec:
  "length (bb_bytes b) \<le> bb_max b \<Longrightarrow> \<not> exceeded b \<Longrightarrow> write_chunks b cs = (b', r) \<Longrightarrow>
   bb_max b' = bb_max b \<and> length (bb_bytes b') \<le> bb_max b \<and>
   (if length (bb_bytes b) + length (concat cs) \<le> bb_max b
    then r = Ok () \<and> \<not> exceeded b' \<and> bb_bytes b' = bb_bytes b @ concat cs
    else exceeded b')"
proof (induction cs arbitrary: b)
  case (Cons c cs)
  show ?case
  proof (cases "length c > bb_max b - length (bb_bytes b)")
    case True
    with Cons.prems show ?thesis by (auto simp: poll_write_def)
  next
    case False
    with Cons.prems Cons.IH [of "b\<lparr>bb_bytes := bb_bytes b @ c\<rparr>"]
    show ?thesis by (auto simp: poll_write_def split: if_splits)
  qed
qed simp

text \<open>
  A value collected through a bounded buffer is whole or the typed limit error, never a
  silently shortened value: \<open>finish\<close> returns all the bytes written when they fit the cap,
  and \<open>LimitExceeded\<close> with the cap when they do not, even if the producer reported success
  or wrapped the write error into one of its own.
\<close>

lemma bounded_buffer_whole_or_limit:
  "bounded_finish (fst (write_chunks (bounded_new m) cs)) outcome =
     (if length (concat cs) \<le> m then bind_result outcome (\<lambda>_. Ok (concat cs))
      else Err (LimitExceeded ''buffered_value_bytes'' m))"
proof -
  obtain b' r where w: "write_chunks (bounded_new m) cs = (b', r)"
    by (cases "write_chunks (bounded_new m) cs") auto
  have "bb_bytes (bounded_new m) = []" "bb_max (bounded_new m) = m" "\<not> exceeded (bounded_new m)"
    by (simp_all add: bounded_new_def)
  with write_chunks_spec [OF _ _ w] show ?thesis
    by (auto simp: w bounded_finish_def split: if_splits)
qed

end
