(* ===== verification/Sanitize.thy ===== *)
theory Sanitize
  imports Exec_Types
begin

section \<open>Output sanitization (sanitize.rs)\<close>

text \<open>
  The stateful filter that removes terminal escape sequences from a byte stream. One
  function per method of \<open>OutputSanitizer\<close>; a method that takes the output buffer returns
  the bytes it appends. The filter is a \<open>chunk_machine\<close>; the theorems say that its output
  never carries an escape byte, that ordinary UTF-8 text passes unchanged, and that a
  second application removes nothing more.
\<close>

datatype san_state =
    Ground | Escape | EscapeIntermediate | Csi | Osc | OscEscape | OscC2
  | ControlString | ControlStringEscape | ControlStringC2

record sanitizer =
  policy :: output_sanitization
  san_state :: san_state
  pending_c2 :: bool
  utf8_remaining :: nat

definition sanitizer_new :: "output_sanitization \<Rightarrow> sanitizer" where
  "sanitizer_new p =
     \<lparr>policy = p, san_state = Ground, pending_c2 = False, utf8_remaining = 0\<rparr>"

definition process_c1 :: "sanitizer \<Rightarrow> byte \<Rightarrow> bool \<Rightarrow> sanitizer \<times> bytes" where
  "process_c1 s b utf8_encoded =
     (let n = byte_val b in
      if n = 0x90 \<or> n = 0x98 \<or> n = 0x9e \<or> n = 0x9f then (s\<lparr>san_state := ControlString\<rparr>, [])
      else if n = 0x9b then (s\<lparr>san_state := Csi\<rparr>, [])
      else if n = 0x9d then (s\<lparr>san_state := Osc\<rparr>, [])
      else if n = 0x9c then (s, [])
      else if policy s = StripAnsi then (s, (if utf8_encoded then [CHR 0xC2] else []) @ [b])
      else (s, []))"

text \<open>The match at the end of \<open>process_ground\<close>.\<close>

definition ground_byte :: "sanitizer \<Rightarrow> byte \<Rightarrow> sanitizer \<times> bytes" where
  "ground_byte s b =
     (let n = byte_val b in
      if n = 0x1b then (s\<lparr>san_state := Escape\<rparr>, [])
      else if 0x80 \<le> n \<and> n \<le> 0x9f then process_c1 s b False
      else if n = 0xc2 then (s\<lparr>pending_c2 := True\<rparr>, [])
      else if 0xc3 \<le> n \<and> n \<le> 0xdf then (s\<lparr>utf8_remaining := 1\<rparr>, [b])
      else if 0xe0 \<le> n \<and> n \<le> 0xef then (s\<lparr>utf8_remaining := 2\<rparr>, [b])
      else if 0xf0 \<le> n \<and> n \<le> 0xf4 then (s\<lparr>utf8_remaining := 3\<rparr>, [b])
      else if (n \<le> 0x1f \<or> n = 0x7f) \<and> policy s = StripAll
      then (s, if n = 0x09 \<or> n = 0x0a \<or> n = 0x0d then [b] else [])
      else (s, [b]))"

text \<open>\<open>process_ground\<close> after the pending lead byte has been dealt with.\<close>

definition ground_utf8 :: "sanitizer \<Rightarrow> byte \<Rightarrow> sanitizer \<times> bytes" where
  "ground_utf8 s b =
     (if 0 < utf8_remaining s
      then (if 0x80 \<le> byte_val b \<and> byte_val b \<le> 0xbf
            then (s\<lparr>utf8_remaining := utf8_remaining s - 1\<rparr>, [b])
            else ground_byte (s\<lparr>utf8_remaining := 0\<rparr>) b)
      else ground_byte s b)"

definition process_ground :: "sanitizer \<Rightarrow> byte \<Rightarrow> sanitizer \<times> bytes" where
  "process_ground s b =
     (if pending_c2 s
      then (let s1 = s\<lparr>pending_c2 := False\<rparr>; n = byte_val b in
            if 0x80 \<le> n \<and> n \<le> 0x9f then process_c1 s1 b True
            else if 0xa0 \<le> n \<and> n \<le> 0xbf then (s1, [CHR 0xC2, b])
            else (let (s2, out) = ground_utf8 s1 b in (s2, CHR 0xC2 # out)))
      else ground_utf8 s b)"

definition process_escape :: "sanitizer \<Rightarrow> byte \<Rightarrow> sanitizer \<times> bytes" where
  "process_escape s b =
     (let n = byte_val b in
      if b = CHR ''['' then (s\<lparr>san_state := Csi\<rparr>, [])
      else if b = CHR '']'' then (s\<lparr>san_state := Osc\<rparr>, [])
      else if b = CHR ''P'' \<or> b = CHR ''X'' \<or> b = CHR ''^'' \<or> b = CHR ''_''
      then (s\<lparr>san_state := ControlString\<rparr>, [])
      else if 0x20 \<le> n \<and> n \<le> 0x2f then (s\<lparr>san_state := EscapeIntermediate\<rparr>, [])
      else if 0x30 \<le> n \<and> n \<le> 0x7e then (s\<lparr>san_state := Ground\<rparr>, [])
      else if n = 0x1b then (s, [])
      else process_ground (s\<lparr>san_state := Ground\<rparr>) b)"

text \<open>The states inside a sequence release nothing; only the next state matters.\<close>

fun inside_next :: "san_state \<Rightarrow> byte \<Rightarrow> san_state" where
  "inside_next EscapeIntermediate b =
     (if 0x30 \<le> byte_val b \<and> byte_val b \<le> 0x7e then Ground
      else if byte_val b = 0x1b then Escape else EscapeIntermediate)"
| "inside_next Csi b =
     (if 0x40 \<le> byte_val b \<and> byte_val b \<le> 0x7e then Ground
      else if byte_val b = 0x1b then Escape else Csi)"
| "inside_next Osc b =
     (if byte_val b = 0x07 \<or> byte_val b = 0x9c then Ground
      else if byte_val b = 0x1b then OscEscape
      else if byte_val b = 0xc2 then OscC2 else Osc)"
| "inside_next OscEscape b =
     (if b = CHR 0x5C then Ground
      else if byte_val b = 0x1b then OscEscape
      else if byte_val b = 0xc2 then OscC2 else Osc)"
| "inside_next OscC2 b =
     (if byte_val b = 0x07 \<or> byte_val b = 0x9c then Ground
      else if byte_val b = 0x1b then OscEscape
      else if byte_val b = 0xc2 then OscC2 else Osc)"
| "inside_next ControlString b =
     (if byte_val b = 0x9c then Ground
      else if byte_val b = 0x1b then ControlStringEscape
      else if byte_val b = 0xc2 then ControlStringC2 else ControlString)"
| "inside_next ControlStringEscape b =
     (if b = CHR 0x5C then Ground
      else if byte_val b = 0x1b then ControlStringEscape
      else if byte_val b = 0xc2 then ControlStringC2 else ControlString)"
| "inside_next ControlStringC2 b =
     (if byte_val b = 0x9c then Ground
      else if byte_val b = 0x1b then ControlStringEscape
      else if byte_val b = 0xc2 then ControlStringC2 else ControlString)"
| "inside_next st b = st"

definition process :: "sanitizer \<Rightarrow> byte \<Rightarrow> sanitizer \<times> bytes" where
  "process s b =
     (case san_state s of
        Ground \<Rightarrow> process_ground s b
      | Escape \<Rightarrow> process_escape s b
      | st \<Rightarrow> (s\<lparr>san_state := inside_next st b\<rparr>, []))"

definition san_push :: "sanitizer \<Rightarrow> bytes \<Rightarrow> sanitizer \<times> bytes" where
  "san_push s chunk = (if policy s = Raw then (s, chunk) else run_steps process s chunk)"

definition san_finish :: "sanitizer \<Rightarrow> sanitizer \<times> bytes" where
  "san_finish s =
     (if policy s = Raw then (s, [])
      else (s\<lparr>san_state := Ground, pending_c2 := False, utf8_remaining := 0\<rparr>,
            if san_state s = Ground \<and> pending_c2 s then [CHR 0xC2] else []))"

definition sanitize :: "output_sanitization \<Rightarrow> bytes \<Rightarrow> bytes" where
  "sanitize p bytes =
     (let (s, output) = san_push (sanitizer_new p) bytes in output @ snd (san_finish s))"

subsection \<open>Chunking\<close>

lemma process_c1_policy [simp]: "policy (fst (process_c1 s b e)) = policy s"
  by (simp add: process_c1_def Let_def)

lemma ground_byte_policy [simp]: "policy (fst (ground_byte s b)) = policy s"
  by (simp add: ground_byte_def Let_def)

lemma ground_utf8_policy [simp]: "policy (fst (ground_utf8 s b)) = policy s"
  by (simp add: ground_utf8_def)

lemma process_ground_policy [simp]: "policy (fst (process_ground s b)) = policy s"
  by (simp add: process_ground_def Let_def split_beta)

lemma process_policy [simp]: "policy (fst (process s b)) = policy s"
  by (simp add: process_def process_escape_def Let_def split: san_state.splits)

lemma run_process_policy [simp]: "policy (fst (run_steps process s bs)) = policy s"
  by (rule run_steps_invariant [where I = "\<lambda>t. policy t = policy s"]) simp_all

interpretation sanitizer_machine: chunk_machine san_push
proof unfold_locales
  show "san_push s [] = (s, [])" for s
    by (simp add: san_push_def)
  show "san_push s (xs @ ys) =
      (let (s1, out1) = san_push s xs; (s2, out2) = san_push s1 ys in (s2, out1 @ out2))" for s xs ys
  proof (cases "policy s = Raw")
    case True
    then show ?thesis by (simp add: san_push_def)
  next
    case False
    moreover have "policy (fst (run_steps process s xs)) \<noteq> Raw"
      using False by simp
    ultimately show ?thesis
      by (simp add: san_push_def run_steps_append Let_def split_beta)
  qed
qed

text \<open>
  C2. Sanitizing a stream chunk by chunk and finishing it gives exactly what sanitizing the
  whole buffer at once gives, wherever the chunk boundaries fall, inside an escape sequence
  or inside a multi-byte character included; the raw policy passes every byte.
\<close>

theorem streaming_matches_one_shot:
  "(let (s, out) = feed_all san_push (sanitizer_new p) chunks in out @ snd (san_finish s)) =
     sanitize p (concat chunks) \<and>
   sanitize Raw bytes = bytes"
  by (simp add: sanitizer_machine.feed_all_concat sanitize_def san_push_def san_finish_def
      sanitizer_new_def Let_def)

subsection \<open>What never comes out\<close>

text \<open>The bytes a policy may release: no escape byte, and under \<open>StripAll\<close> no control byte
  but tab, line feed and carriage return.\<close>

definition clean :: "output_sanitization \<Rightarrow> byte \<Rightarrow> bool" where
  "clean p b \<longleftrightarrow>
     byte_val b \<noteq> 0x1b \<and>
     (p = StripAll \<longrightarrow> 0x20 \<le> byte_val b \<and> byte_val b \<noteq> 0x7f \<or> byte_val b \<in> {0x09, 0x0a, 0x0d})"

lemma clean_c2 [simp]: "clean p (CHR 0xC2)"
  by (simp add: clean_def byte_val_def)

lemma process_c1_clean: "0x80 \<le> byte_val b \<Longrightarrow> list_all (clean (policy s)) (snd (process_c1 s b e))"
  by (auto simp: process_c1_def Let_def clean_def byte_val_def)

lemma ground_byte_clean: "list_all (clean (policy s)) (snd (ground_byte s b))"
  using process_c1_clean [of b s False] by (auto simp: ground_byte_def Let_def clean_def)

lemma ground_utf8_clean: "list_all (clean (policy s)) (snd (ground_utf8 s b))"
  using ground_byte_clean [of "s\<lparr>utf8_remaining := 0\<rparr>" b]
  by (auto simp: ground_utf8_def ground_byte_clean clean_def)

lemma process_ground_clean: "list_all (clean (policy s)) (snd (process_ground s b))"
  using process_c1_clean [of b "s\<lparr>pending_c2 := False\<rparr>" True]
    ground_utf8_clean [of "s\<lparr>pending_c2 := False\<rparr>" b] ground_utf8_clean [of s b]
  by (auto simp: process_ground_def Let_def split_beta clean_def byte_val_def)

lemma process_clean: "list_all (clean (policy s)) (snd (process s b))"
  using process_ground_clean [of s b] process_ground_clean [of "s\<lparr>san_state := Ground\<rparr>" b]
  by (auto simp: process_def process_escape_def Let_def split: san_state.splits)

lemma run_process_clean: "list_all (clean (policy s)) (snd (run_steps process s bs))"
proof (induction bs arbitrary: s)
  case (Cons b bs)
  then show ?case
    using process_clean [of s b] Cons.IH [of "fst (process s b)"] by (simp add: Let_def split_beta)
qed simp



subsection \<open>What passes unchanged\<close>

text \<open>The characters a policy keeps, each as its UTF-8 bytes.\<close>

fun keeps :: "output_sanitization \<Rightarrow> bytes \<Rightarrow> bool" where
  "keeps Raw u \<longleftrightarrow> True"
| "keeps StripAnsi u \<longleftrightarrow>
     u \<noteq> [CHR 0x1B] \<and>
     u \<notin> {[CHR 0xC2, CHR 0x90], [CHR 0xC2, CHR 0x98], [CHR 0xC2, CHR 0x9B], [CHR 0xC2, CHR 0x9C],
          [CHR 0xC2, CHR 0x9D], [CHR 0xC2, CHR 0x9E], [CHR 0xC2, CHR 0x9F]}"
| "keeps StripAll u \<longleftrightarrow>
     \<not> char_is_control u \<or> u \<in> {[CHR 0x09], [CHR 0x0A], [CHR 0x0D]}"

lemma utf8_tail_conts: "utf8_tail n s = (True, t, r) \<Longrightarrow> length t = n \<and> list_all is_cont t"
  by (induction n s arbitrary: t rule: utf8_tail.induct) (auto split: if_splits prod.splits)

lemma utf8_second_cont: "utf8_second b c \<Longrightarrow> is_cont c"
  by (auto simp: utf8_second_def is_cont_def byte_in_def split: if_splits)

lemma utf8_head_char:
  assumes "utf8_head s = Some (True, u, r)"
  obtains b t where "u = b # t" "utf8_width b = Suc (length t)" "list_all is_cont t"
proof (cases s)
  case Nil
  with assms show thesis by simp
next
  case (Cons b s')
  with assms show thesis
    by (auto split: nat.splits list.splits if_splits prod.splits intro!: that
        dest!: utf8_tail_conts utf8_second_cont)
qed

abbreviation at_rest :: "output_sanitization \<Rightarrow> nat \<Rightarrow> sanitizer" where
  "at_rest p k \<equiv> \<lparr>policy = p, san_state = Ground, pending_c2 = False, utf8_remaining = k\<rparr>"

lemma run_continuation:
  "list_all is_cont t \<Longrightarrow> length t = k \<Longrightarrow> run_steps process (at_rest p k) t = (at_rest p 0, t)"
proof (induction t arbitrary: k)
  case (Cons c t)
  then have "process (at_rest p k) c = (at_rest p (k - 1), [c])"
    by (simp add: process_def process_ground_def ground_utf8_def is_cont_def byte_in_def)
  with Cons show ?case by auto
qed simp

lemma run_kept_ascii:
  assumes "byte_val b < 128" and "keeps p [b]" and "p \<noteq> Raw"
  shows "run_steps process (at_rest p 0) [b] = (at_rest p 0, [b])"
proof -
  have "byte_val b \<noteq> 27"
    using assms by (cases p) (auto simp: char_is_control_def byte_in_def byte_eq_iff)
  moreover have "p = StripAll \<Longrightarrow> byte_val b \<le> 31 \<or> byte_val b = 127 \<Longrightarrow> byte_val b \<in> {9, 10, 13}"
    using assms by (auto simp: char_is_control_def byte_in_def byte_eq_iff)
  ultimately show ?thesis
    using assms(1)
    by (auto simp: process_def process_ground_def ground_utf8_def ground_byte_def Let_def)
qed

lemma run_kept_c2:
  assumes "is_cont c" and "keeps p [CHR 0xC2, c]" and "p \<noteq> Raw"
  shows "run_steps process (at_rest p 0) [CHR 0xC2, c] = (at_rest p 0, [CHR 0xC2, c])"
proof -
  have first: "process (at_rest p 0) (CHR 0xC2) = (at_rest p 0\<lparr>pending_c2 := True\<rparr>, [])"
    by (simp add: process_def process_ground_def ground_utf8_def ground_byte_def Let_def byte_val_def)
  have "process (at_rest p 0\<lparr>pending_c2 := True\<rparr>) c = (at_rest p 0, [CHR 0xC2, c])"
  proof (cases "byte_val c \<le> 0x9f")
    case True
    with assms have "p = StripAnsi"
      by (cases p) (auto simp: char_is_control_def is_cont_def byte_in_def byte_val_def)
    moreover from this assms(2)
    have "byte_val c \<notin> {0x90, 0x98, 0x9b, 0x9c, 0x9d, 0x9e, 0x9f}"
      by (auto simp: byte_eq_iff)
    ultimately show ?thesis
      using True assms(1)
      by (simp add: process_def process_ground_def process_c1_def Let_def is_cont_def byte_in_def)
  next
    case False
    with assms(1) show ?thesis
      by (simp add: process_def process_ground_def Let_def is_cont_def byte_in_def)
  qed
  with first show ?thesis by simp
qed

lemma run_kept_char:
  assumes "utf8_head s = Some (True, u, r)" and "keeps p u" and "p \<noteq> Raw"
  shows "run_steps process (at_rest p 0) u = (at_rest p 0, u)"
proof -
  from assms(1) obtain b t where u: "u = b # t" "utf8_width b = Suc (length t)" "list_all is_cont t"
    by (rule utf8_head_char)
  consider "byte_val b < 128" | "byte_val b = 194" | "195 \<le> byte_val b" "byte_val b \<le> 244"
    using u(2) by (fastforce simp: utf8_width_def byte_in_def split: if_splits)
  then show ?thesis
  proof cases
    case 1
    with u have "t = []" by (simp add: utf8_width_def byte_in_def)
    with assms(2) u(1) show ?thesis
      using run_kept_ascii [OF 1 _ assms(3)] by (simp only: )
  next
    case 2
    then have b: "b = CHR 0xC2" by (simp add: byte_eq_iff)
    from 2 u have "length t = 1" by (simp add: utf8_width_def byte_in_def)
    then obtain c where t: "t = [c]" by (auto simp: length_Suc_conv)
    with assms(2) u b have "is_cont c" "keeps p [CHR 0xC2, c]" by simp_all
    from run_kept_c2 [OF this assms(3)] show ?thesis by (simp only: u(1) b t)
  next
    case 3
    with u(2) have "process (at_rest p 0) b = (at_rest p (length t), [b])"
      by (auto simp: process_def process_ground_def ground_utf8_def ground_byte_def Let_def
          utf8_width_def byte_in_def split: if_splits)
    then show ?thesis
      using run_continuation [OF u(3) refl, of p] u(1) by simp
  qed
qed

lemma run_kept_text:
  assumes "utf8_valid s" and "list_all (keeps p) (chars s)" and "p \<noteq> Raw"
  shows "run_steps process (at_rest p 0) s = (at_rest p 0, s)"
  using assms(1,2)
proof (induction s rule: utf8_units.induct)
  case (1 s)
  show ?case
  proof (cases "utf8_head s")
    case None
    then show ?thesis by (cases s) auto
  next
    case (Some q)
    then obtain ok u r where q: "utf8_head s = Some (ok, u, r)"
      by (cases q) auto
    have units: "utf8_units s = (ok, u) # utf8_units r"
      by (subst utf8_units.simps) (simp add: q)
    with "1.prems" have ok: "ok" "keeps p u" "utf8_valid r" "list_all (keeps p) (chars r)"
      by (simp_all add: utf8_valid_def chars_def)
    with "1.IH" q have "run_steps process (at_rest p 0) r = (at_rest p 0, r)" by auto
    moreover have "run_steps process (at_rest p 0) u = (at_rest p 0, u)"
      using run_kept_char q ok(1,2) assms(3) by auto
    moreover have "s = u @ r" using utf8_head_split [OF q] by simp
    ultimately show ?thesis by (simp add: run_steps_append)
  qed
qed

text \<open>
  Text is never damaged: valid UTF-8 whose characters the policy keeps passes byte for
  byte. \<open>StripAll\<close> keeps every character but the C0 and C1 controls (tab, line feed and
  carriage return pass), \<open>StripAnsi\<close> every character but the ones that introduce or end a
  terminal sequence, multi-byte characters with bytes in the C1 range included.
\<close>

lemma sanitize_keeps_text:
  assumes "utf8_valid s" and "list_all (keeps p) (chars s)"
  shows "sanitize p s = s"
proof (cases "p = Raw")
  case True
  then show ?thesis by (simp add: sanitize_def san_push_def san_finish_def sanitizer_new_def)
next
  case False
  with run_kept_text [OF assms] show ?thesis
    by (simp add: sanitize_def san_push_def san_finish_def sanitizer_new_def)
qed

lemma sanitize_keeps_text_witness:
  "sanitize StripAll [CHR ''a'', CHR 0x0A, CHR 0xD8, CHR 0x9B] =
     [CHR ''a'', CHR 0x0A, CHR 0xD8, CHR 0x9B]"
  by (rule sanitize_keeps_text)
    (simp_all add: utf8_valid_def chars_def utf8_units.simps utf8_width_def utf8_second_def
      is_cont_def byte_in_def byte_val_def char_is_control_def)

subsection \<open>A second application changes nothing\<close>

text \<open>
  The second pass reads what the first released. \<open>held\<close> is the lead byte it has read and not
  yet released; \<open>passable\<close> are the bytes it lets through in its current state.
\<close>

definition held :: "sanitizer \<Rightarrow> bytes" where
  "held s = (if pending_c2 s then [CHR 0xC2] else [])"

definition in_char :: "sanitizer \<Rightarrow> bool" where
  "in_char s \<longleftrightarrow> 0 < utf8_remaining s \<and> \<not> pending_c2 s"

definition passable :: "sanitizer \<Rightarrow> byte \<Rightarrow> bool" where
  "passable s x \<longleftrightarrow>
     clean (policy s) x \<and>
     (0x80 \<le> byte_val x \<and> byte_val x \<le> 0x9f \<longrightarrow>
        in_char s \<or>
        policy s = StripAnsi \<and> byte_val x \<notin> {0x90, 0x98, 0x9b, 0x9c, 0x9d, 0x9e, 0x9f})"

definition after_byte :: "sanitizer \<Rightarrow> byte \<Rightarrow> nat option" where
  "after_byte s x =
     (if 0xc3 \<le> byte_val x \<and> byte_val x \<le> 0xdf then Some 1
      else if 0xe0 \<le> byte_val x \<and> byte_val x \<le> 0xef then Some 2
      else if 0xf0 \<le> byte_val x \<and> byte_val x \<le> 0xf4 then Some 3
      else if in_char s \<and> 0x80 \<le> byte_val x \<and> byte_val x \<le> 0xbf then Some (utf8_remaining s - 1)
      else None)"

lemma passable_ground_byte:
  assumes "san_state s = Ground" "\<not> pending_c2 s" "passable s x" "\<not> in_char s"
    and "ground_byte s x = (s', out)"
  shows "san_state s' = Ground \<and> policy s' = policy s \<and> [x] = out @ held s' \<and>
     (\<forall>k. after_byte s x = Some k \<longrightarrow> utf8_remaining s' = k \<and> \<not> pending_c2 s')"
  using assms
  by (auto simp: ground_byte_def process_c1_def passable_def clean_def held_def after_byte_def
      Let_def byte_eq_iff split: if_splits)

lemma passable_ground_utf8:
  assumes "san_state s = Ground" "\<not> pending_c2 s" "passable s x"
    and "ground_utf8 s x = (s', out)"
  shows "san_state s' = Ground \<and> policy s' = policy s \<and> [x] = out @ held s' \<and>
     (\<forall>k. after_byte s x = Some k \<longrightarrow> utf8_remaining s' = k \<and> \<not> pending_c2 s')"
proof (cases "0 < utf8_remaining s")
  case False
  with assms show ?thesis
    using passable_ground_byte [of s x s' out] by (simp add: ground_utf8_def in_char_def)
next
  case True
  show ?thesis
  proof (cases "0x80 \<le> byte_val x \<and> byte_val x \<le> 0xbf")
    case cont: True
    with assms True show ?thesis
      by (auto simp: ground_utf8_def held_def after_byte_def in_char_def)
  next
    case False
    let ?s = "s\<lparr>utf8_remaining := 0\<rparr>"
    have "ground_byte ?s x = (s', out)" "passable ?s x" "\<not> in_char ?s" "\<not> pending_c2 ?s"
      "san_state ?s = Ground"
      using assms True False by (auto simp: ground_utf8_def passable_def in_char_def)
    then have *: "san_state s' = Ground \<and> policy s' = policy s \<and> [x] = out @ held s' \<and>
       (\<forall>k. after_byte ?s x = Some k \<longrightarrow> utf8_remaining s' = k \<and> \<not> pending_c2 s')"
      using passable_ground_byte [of ?s x s' out] by simp
    moreover have "after_byte ?s x = after_byte s x"
      using False by (simp add: after_byte_def in_char_def)
    ultimately show ?thesis by simp
  qed
qed

lemma passable_process:
  assumes "san_state s = Ground" "passable s x" and "process s x = (s', out)"
  shows "san_state s' = Ground \<and> policy s' = policy s \<and> held s @ [x] = out @ held s' \<and>
     (\<forall>k. after_byte s x = Some k \<longrightarrow> utf8_remaining s' = k \<and> \<not> pending_c2 s')"
proof (cases "pending_c2 s")
  case False
  with assms passable_ground_utf8 [of s x s' out] show ?thesis
    by (simp add: process_def process_ground_def held_def)
next
  case True
  let ?s = "s\<lparr>pending_c2 := False\<rparr>"
  have g: "process_ground s x = (s', out)"
    using assms by (simp add: process_def)
  consider "0x80 \<le> byte_val x \<and> byte_val x \<le> 0x9f" | "0xa0 \<le> byte_val x \<and> byte_val x \<le> 0xbf"
    | "\<not> (0x80 \<le> byte_val x \<and> byte_val x \<le> 0xbf)"
    by linarith
  then show ?thesis
  proof cases
    case 1
    with True assms g show ?thesis
      by (auto simp: process_ground_def process_c1_def Let_def passable_def in_char_def held_def
          after_byte_def split: if_splits)
  next
    case 2
    with True assms g show ?thesis
      by (auto simp: process_ground_def Let_def held_def after_byte_def in_char_def)
  next
    case 3
    then obtain o2 where o2: "ground_utf8 ?s x = (s', o2)" "out = CHR 0xC2 # o2"
      using g True by (auto simp: process_ground_def Let_def split: prod.splits if_splits)
    moreover have "passable ?s x"
      using assms(2) 3 by (auto simp: passable_def)
    moreover have "after_byte ?s x = after_byte s x"
      using 3 by (auto simp: after_byte_def)
    ultimately show ?thesis
      using passable_ground_utf8 [of ?s x s' o2] assms(1) True by (simp add: held_def)
  qed
qed

text \<open>
  The first pass in state \<open>s\<close> and the second in state \<open>t\<close>, which has read everything the
  first released: inside a character both expect the same number of continuation bytes.
\<close>

definition tracks :: "sanitizer \<Rightarrow> sanitizer \<Rightarrow> bool" where
  "tracks s t \<longleftrightarrow>
     policy t = policy s \<and> san_state t = Ground \<and>
     (0 < utf8_remaining s \<longrightarrow>
        san_state s = Ground \<and> \<not> pending_c2 s \<and> \<not> pending_c2 t \<and>
        utf8_remaining t = utf8_remaining s)"

text \<open>One step of the first pass, read by the second.\<close>

definition echoes :: "sanitizer \<Rightarrow> sanitizer \<times> bytes \<Rightarrow> bool" where
  "echoes t r \<longleftrightarrow>
     (case r of (s', out) \<Rightarrow> case run_steps process t out of (t', out') \<Rightarrow>
        tracks s' t' \<and> held t @ out = out' @ held t')"

lemma echoes_silent: "tracks s' t \<Longrightarrow> echoes t (s', [])"
  by (simp add: echoes_def)

lemma echoes_one:
  assumes "san_state t = Ground" "policy t = policy s'" "passable t x"
    and "0 < utf8_remaining s' \<longrightarrow>
      san_state s' = Ground \<and> \<not> pending_c2 s' \<and> after_byte t x = Some (utf8_remaining s')"
  shows "echoes t (s', [x])"
proof -
  obtain t' out' where p: "process t x = (t', out')" by (cases "process t x") auto
  from passable_process [OF assms(1,3) p] assms(2,4) p show ?thesis
    by (auto simp: echoes_def tracks_def)
qed

lemma passable_c2: "passable t (CHR 0xC2)"
  by (simp add: passable_def)

lemma echoes_c2:
  assumes "san_state t = Ground" "policy t = policy s'"
    and "\<And>t'. san_state t' = Ground \<Longrightarrow> policy t' = policy t \<Longrightarrow> echoes t' (s', out)"
  shows "echoes t (s', CHR 0xC2 # out)"
proof -
  obtain t' out' where p: "process t (CHR 0xC2) = (t', out')"
    by (cases "process t (CHR 0xC2)") auto
  have t': "san_state t' = Ground" "policy t' = policy t" "held t @ [CHR 0xC2] = out' @ held t'"
    using passable_process [OF assms(1) passable_c2 p] by auto
  obtain t2 o2 where r: "run_steps process t' out = (t2, o2)"
    by (cases "run_steps process t' out") auto
  have "tracks s' t2" and "held t' @ out = o2 @ held t2"
    using assms(3) [OF t'(1,2)] r by (simp_all add: echoes_def)
  moreover have "held t @ CHR 0xC2 # out = (out' @ o2) @ held t2"
    using t'(3) calculation(2) by (metis append.assoc append_Cons append_Nil)
  ultimately show ?thesis
    using p r by (simp add: echoes_def)
qed

lemma echoes_ground_byte:
  assumes "tracks s t" "san_state s = Ground" "utf8_remaining s = 0" "\<not> pending_c2 s"
  shows "echoes t (ground_byte s b)"
proof -
  obtain s' out where g: "ground_byte s b = (s', out)" by (cases "ground_byte s b") auto
  have t: "san_state t = Ground" "policy t = policy s" using assms by (auto simp: tracks_def)
  have pol: "policy s' = policy s"
    using ground_byte_policy [of s b] g by simp
  have "out = [] \<or> out = [b]"
    using g by (auto simp: ground_byte_def process_c1_def Let_def split: if_splits)
  then show ?thesis
  proof
    assume "out = []"
    moreover from this have "utf8_remaining s' = 0"
      using g assms(3) by (auto simp: ground_byte_def process_c1_def Let_def split: if_splits)
    ultimately show ?thesis
      using t pol by (simp add: g echoes_silent tracks_def)
  next
    assume out: "out = [b]"
    have "passable t b"
      using g out t(2) by (auto simp: ground_byte_def process_c1_def Let_def passable_def clean_def
          split: if_splits)
    moreover have "0 < utf8_remaining s' \<longrightarrow>
        san_state s' = Ground \<and> \<not> pending_c2 s' \<and> after_byte t b = Some (utf8_remaining s')"
      using g out assms by (auto simp: ground_byte_def process_c1_def Let_def after_byte_def
          tracks_def split: if_splits)
    ultimately show ?thesis
      using t pol by (simp add: g out echoes_one)
  qed
qed

lemma echoes_ground_utf8:
  assumes "tracks s t" "san_state s = Ground" "\<not> pending_c2 s"
  shows "echoes t (ground_utf8 s b)"
proof (cases "0 < utf8_remaining s \<and> 0x80 \<le> byte_val b \<and> byte_val b \<le> 0xbf")
  case True
  with assms have "passable t b" and "after_byte t b = Some (utf8_remaining s - 1)"
    by (auto simp: tracks_def passable_def clean_def in_char_def after_byte_def)
  with True assms show ?thesis
    by (auto simp: ground_utf8_def tracks_def intro!: echoes_one)
next
  case False
  have "echoes t (ground_byte (s\<lparr>utf8_remaining := 0\<rparr>) b)"
    using assms by (intro echoes_ground_byte) (auto simp: tracks_def)
  moreover have "utf8_remaining s = 0 \<Longrightarrow> echoes t (ground_byte s b)"
    using assms by (intro echoes_ground_byte) auto
  ultimately show ?thesis
    using False by (auto simp: ground_utf8_def)
qed

lemma echoes_process_c1_encoded:
  assumes "san_state t = Ground" "policy t = policy s" "utf8_remaining s = 0"
    and "0x80 \<le> byte_val b" "byte_val b \<le> 0x9f"
  shows "echoes t (process_c1 s b True)"
proof -
  have silent: "echoes t (s\<lparr>san_state := q\<rparr>, [])" "echoes t (s, [])" for q
    using assms by (auto simp: tracks_def intro!: echoes_silent)
  have "echoes t (s, [CHR 0xC2, b])"
    if "policy s = StripAnsi" "byte_val b \<notin> {0x90, 0x98, 0x9b, 0x9c, 0x9d, 0x9e, 0x9f}"
    using assms that
    by (auto intro!: echoes_c2 echoes_one simp: passable_def clean_def)
  with silent show ?thesis
    by (simp add: process_c1_def Let_def)
qed

lemma echoes_process_ground:
  assumes "tracks s t" "san_state s = Ground"
  shows "echoes t (process_ground s b)"
proof (cases "pending_c2 s")
  case False
  with assms show ?thesis by (simp add: process_ground_def echoes_ground_utf8)
next
  case True
  let ?s = "s\<lparr>pending_c2 := False\<rparr>"
  have rem: "utf8_remaining s = 0" "san_state t = Ground" "policy t = policy s"
    using assms True by (auto simp: tracks_def)
  consider "0x80 \<le> byte_val b \<and> byte_val b \<le> 0x9f" | "0xa0 \<le> byte_val b \<and> byte_val b \<le> 0xbf"
    | "\<not> (0x80 \<le> byte_val b \<and> byte_val b \<le> 0xbf)"
    by linarith
  then show ?thesis
  proof cases
    case 1
    with True rem show ?thesis
      by (simp add: process_ground_def echoes_process_c1_encoded)
  next
    case 2
    have "echoes t (?s, [CHR 0xC2, b])"
      using 2 rem by (auto intro!: echoes_c2 echoes_one simp: passable_def clean_def)
    with 2 True show ?thesis by (simp add: process_ground_def)
  next
    case 3
    obtain s' out where g: "ground_utf8 ?s b = (s', out)" by (cases "ground_utf8 ?s b") auto
    have "echoes t' (s', out)" if "san_state t' = Ground" "policy t' = policy t" for t'
      using echoes_ground_utf8 [of ?s t' b] that rem assms(2) g by (simp add: tracks_def)
    moreover have "policy s' = policy s"
      using ground_utf8_policy [of ?s b] g by simp
    ultimately have "echoes t (s', CHR 0xC2 # out)"
      using rem by (intro echoes_c2) auto
    with 3 True g show ?thesis by (auto simp: process_ground_def Let_def)
  qed
qed

lemma echoes_process:
  assumes "tracks s t"
  shows "echoes t (process s b)"
proof (cases "san_state s = Ground")
  case True
  with assms show ?thesis by (simp add: process_def echoes_process_ground)
next
  case False
  with assms have silent: "echoes t (s\<lparr>san_state := q\<rparr>, [])" "echoes t (s, [])" for q
    by (auto simp: tracks_def intro!: echoes_silent)
  have "echoes t (process_ground (s\<lparr>san_state := Ground\<rparr>) b)"
    using assms False by (intro echoes_process_ground) (auto simp: tracks_def)
  with False silent show ?thesis
    by (simp add: process_def process_escape_def Let_def split: san_state.split)
qed

lemma echoes_run: "tracks s t \<Longrightarrow> echoes t (run_steps process s bs)"
proof (induction bs arbitrary: s t)
  case Nil
  then show ?case by (simp add: echoes_silent)
next
  case (Cons b bs)
  obtain s1 o1 where p: "process s b = (s1, o1)" by (cases "process s b") auto
  obtain t1 q1 where q: "run_steps process t o1 = (t1, q1)" by (cases "run_steps process t o1") auto
  obtain s2 o2 where p2: "run_steps process s1 bs = (s2, o2)"
    by (cases "run_steps process s1 bs") auto
  obtain t2 q2 where q2: "run_steps process t1 o2 = (t2, q2)"
    by (cases "run_steps process t1 o2") auto
  have "tracks s1 t1" "held t @ o1 = q1 @ held t1"
    using echoes_process [of s t b] Cons.prems p q by (simp_all add: echoes_def)
  moreover from this(1) have "tracks s2 t2" "held t1 @ o2 = q2 @ held t2"
    using Cons.IH [of s1 t1] p2 q2 by (simp_all add: echoes_def)
  moreover have "held t @ o1 @ o2 = (q1 @ q2) @ held t2"
    using calculation by (metis append.assoc)
  ultimately show ?case
    using p p2 q q2 by (simp add: echoes_def run_steps_append)
qed

text \<open>What \<open>sanitize\<close> returns, in terms of the machine: its output and the lead byte it holds.\<close>

lemma sanitize_run:
  assumes "p \<noteq> Raw" and "run_steps process (sanitizer_new p) bs = (s, out)"
  shows "sanitize p bs = out @ (if san_state s = Ground then held s else [])"
proof -
  have "policy s = policy (sanitizer_new p)"
    using run_process_policy [of "sanitizer_new p" bs] by (simp only: assms(2) fst_conv)
  then have "policy s = p" by (simp add: sanitizer_new_def)
  with assms show ?thesis
    by (simp add: sanitize_def san_push_def san_finish_def sanitizer_new_def held_def)
qed

text \<open>
  Sanitizing is idempotent: what one pass releases, a second pass with the same policy
  leaves alone, so output that crosses two sanitizing layers is the same as output that
  crosses one, for arbitrary bytes, invalid UTF-8 and cut sequences included.
\<close>

lemma sanitize_idempotent: "sanitize p (sanitize p bs) = sanitize p bs"
proof (cases "p = Raw")
  case True
  then show ?thesis by (simp add: sanitize_def san_push_def san_finish_def sanitizer_new_def)
next
  case False
  obtain s out where s: "run_steps process (sanitizer_new p) bs = (s, out)"
    by (cases "run_steps process (sanitizer_new p) bs") auto
  obtain t out' where t: "run_steps process (sanitizer_new p) out = (t, out')"
    by (cases "run_steps process (sanitizer_new p) out") auto
  have "echoes (sanitizer_new p) (run_steps process (sanitizer_new p) bs)"
    by (rule echoes_run) (simp add: tracks_def sanitizer_new_def)
  then have tr: "san_state t = Ground" and out: "out = out' @ held t"
    using s t by (simp_all add: echoes_def tracks_def sanitizer_new_def held_def)
  show ?thesis
  proof (cases "san_state s = Ground \<and> pending_c2 s")
    case False
    then have "sanitize p bs = out"
      using sanitize_run [OF \<open>p \<noteq> Raw\<close> s] by (auto simp: held_def)
    then show ?thesis
      using sanitize_run [OF \<open>p \<noteq> Raw\<close> t] tr out by simp
  next
    case True
    then have res: "sanitize p bs = out @ [CHR 0xC2]"
      using sanitize_run [OF \<open>p \<noteq> Raw\<close> s] by (simp add: held_def)
    obtain t' o' where p: "process t (CHR 0xC2) = (t', o')" by (cases "process t (CHR 0xC2)") auto
    have t': "san_state t' = Ground" "held t @ [CHR 0xC2] = o' @ held t'"
      using passable_process [OF tr passable_c2 p] by auto
    have "run_steps process (sanitizer_new p) (out @ [CHR 0xC2]) = (t', out' @ o')"
      using t p by (simp add: run_steps_append)
    then have "sanitize p (out @ [CHR 0xC2]) = (out' @ o') @ held t'"
      using sanitize_run [OF \<open>p \<noteq> Raw\<close>, of "out @ [CHR 0xC2]" t' "out' @ o'"] t'(1) by simp
    then show ?thesis
      using t'(2) by (simp add: res out)
  qed
qed

end
