(* ===== verification/Drain.thy ===== *)
theory Drain
  imports Exec_Types
begin

section \<open>The stop race under a command's output (drain.rs)\<close>

text \<open>
  \<open>drain_with_stops\<close> polls six futures in one \<open>select!\<close>. A run of it is described by a
  \<open>world\<close>: when each future becomes ready, how long a stop takes to deliver and whether it
  fails. \<open>armed\<close> gives, for the phase the loop is in, when a branch becomes ready (its
  guard included); \<open>fire\<close> is the body of the branch; \<open>drain_step\<close> is one turn of the loop,
  taken no earlier than the branch is ready and no later than \<open>lag\<close> after the first ready
  branch. When several branches are ready the choice is free, as it is in \<open>select!\<close>.
\<close>

datatype stop_phase = PhaseRunning | TermSent | KillSent instant

fun kill_sent :: "stop_phase \<Rightarrow> bool" where
  "kill_sent (KillSent _) = True"
| "kill_sent _ = False"

definition after_kill :: "instant \<Rightarrow> duration \<Rightarrow> stop_phase" where
  "after_kill now grace = KillSent (now + grace)"

fun phase_stop_sent :: "stop_phase \<Rightarrow> stop_level option" where
  "phase_stop_sent PhaseRunning = None"
| "phase_stop_sent TermSent = Some Term"
| "phase_stop_sent (KillSent _) = Some Kill"

record 'a drain_outcome =
  outcome_termination :: termination_kind
  drained :: "'a option"
  stop_sent :: "stop_level option"

text \<open>What happens around the race: the drain's value and when it is ready, when each
  token fires, the timeout left, the grace, and the delivery of a stop.\<close>

record 'a world =
  drain_ready :: "(instant \<times> 'a) option"
  sink_fails :: "instant option"
  term_fires :: "instant option"
  kill_fires :: "instant option"
  deadline :: "instant option"
  drain_grace :: duration
  stop_takes :: "stop_level \<Rightarrow> duration"
  stop_result :: "stop_level \<Rightarrow> (error, unit) result"
  lag :: duration

text \<open>The local variables of the loop, the stops already delivered (each with the instant it
  was sent), and how the loop was left.\<close>

record 'a race =
  now :: instant
  race_termination :: termination_kind
  phase :: stop_phase
  sent :: "(stop_level \<times> instant) list"
  left :: "(error, 'a option) result option"

definition race_start :: "'a race" where
  "race_start =
     \<lparr>now = 0, race_termination = Exited, phase = PhaseRunning, sent = [], left = None\<rparr>"

datatype branch = Drained | SinkFailed | Termed | KillFired | Deadline | DrainTimeout

definition branches :: "branch list" where
  "branches = [Drained, SinkFailed, Termed, KillFired, Deadline, DrainTimeout]"

definition armed :: "'a world \<Rightarrow> stop_phase \<Rightarrow> branch \<Rightarrow> instant option" where
  "armed w ph b =
     (case b of
        Drained \<Rightarrow> map_option fst (drain_ready w)
      | SinkFailed \<Rightarrow> if kill_sent ph then None else sink_fails w
      | Termed \<Rightarrow> if ph = PhaseRunning then term_fires w else None
      | KillFired \<Rightarrow> if kill_sent ph then None else kill_fires w
      | Deadline \<Rightarrow> if kill_sent ph then None else deadline w
      | DrainTimeout \<Rightarrow> (case ph of KillSent until \<Rightarrow> Some until | _ \<Rightarrow> None))"

text \<open>\<open>stop(level).await?\<close>: the stop is sent now, takes its time, and its error leaves the race.\<close>

definition send_stop :: "'a world \<Rightarrow> stop_level \<Rightarrow> 'a race \<Rightarrow> 'a race" where
  "send_stop w level r =
     r\<lparr>now := now r + stop_takes w level, sent := sent r @ [(level, now r)],
       left := (case stop_result w level of Err e \<Rightarrow> Some (Err e) | Ok _ \<Rightarrow> left r)\<rparr>"

definition send_kill :: "'a world \<Rightarrow> termination_kind \<Rightarrow> 'a race \<Rightarrow> 'a race" where
  "send_kill w t r =
     send_stop w Kill (r\<lparr>race_termination := t, phase := after_kill (now r) (drain_grace w)\<rparr>)"

fun fire :: "'a world \<Rightarrow> branch \<Rightarrow> 'a race \<Rightarrow> 'a race" where
  "fire w Drained r = r\<lparr>left := Some (Ok (map_option snd (drain_ready w)))\<rparr>"
| "fire w SinkFailed r = send_kill w Cancelled r"
| "fire w Termed r =
     send_stop w Term (r\<lparr>race_termination := Cancelled, phase := TermSent\<rparr>)"
| "fire w KillFired r = send_kill w Killed r"
| "fire w Deadline r = send_kill w TimedOut r"
| "fire w DrainTimeout r = r\<lparr>left := Some (Ok None)\<rparr>"

definition prompt :: "'a world \<Rightarrow> 'a race \<Rightarrow> instant \<Rightarrow> bool" where
  "prompt w r t \<longleftrightarrow>
     list_all (\<lambda>b. case armed w (phase r) b of
       None \<Rightarrow> True | Some t' \<Rightarrow> t \<le> max (now r) t' + lag w) branches"

inductive drain_step :: "'a world \<Rightarrow> 'a race \<Rightarrow> 'a race \<Rightarrow> bool" for w where
  select: "left r = None \<Longrightarrow> armed w (phase r) b = Some ready \<Longrightarrow> max (now r) ready \<le> t \<Longrightarrow>
    prompt w r t \<Longrightarrow> drain_step w r (fire w b (r\<lparr>now := t\<rparr>))"

inductive_cases drain_stepE: "drain_step w r r'"

text \<open>What follows the loop: a sink that failed as the drain ended still gets its kill.\<close>

definition by_now :: "instant option \<Rightarrow> instant \<Rightarrow> bool" where
  "by_now at t \<longleftrightarrow> (case at of None \<Rightarrow> False | Some f \<Rightarrow> f \<le> t)"

definition sink_is_cancelled :: "'a world \<Rightarrow> instant \<Rightarrow> bool" where
  "sink_is_cancelled w t \<longleftrightarrow> by_now (sink_fails w) t"

definition drain_finish ::
    "'a world \<Rightarrow> 'a race \<Rightarrow> 'a race \<times> (error, 'a drain_outcome) result option" where
  "drain_finish w r =
     (case left r of
        None \<Rightarrow> (r, None)
      | Some (Err e) \<Rightarrow> (r, Some (Err e))
      | Some (Ok d) \<Rightarrow>
          if sink_is_cancelled w (now r) \<and> \<not> kill_sent (phase r)
          then (send_stop w Kill (r\<lparr>race_termination := Cancelled\<rparr>),
                Some (case stop_result w Kill of
                        Err e \<Rightarrow> Err e
                      | Ok _ \<Rightarrow> Ok \<lparr>outcome_termination = Cancelled, drained = d,
                                    stop_sent = Some Kill\<rparr>))
          else (r, Some (Ok \<lparr>outcome_termination = race_termination r, drained = d,
                             stop_sent = phase_stop_sent (phase r)\<rparr>)))"

text \<open>The whole call: some run of the loop from its start, then the code after it.\<close>

inductive drain_with_stops ::
    "'a world \<Rightarrow> 'a race \<Rightarrow> (error, 'a drain_outcome) result \<Rightarrow> bool" for w where
  returns: "(drain_step w)\<^sup>*\<^sup>* race_start r \<Longrightarrow> drain_finish w r = (r', Some res) \<Longrightarrow>
    drain_with_stops w r' res"

inductive_cases drain_with_stopsE: "drain_with_stops w r res"

subsection \<open>The stops a race sends\<close>

text \<open>
  The invariant ties the phase, the termination and the stops together, and a kill to its
  drain deadline.
\<close>

fun sent_ok :: "duration \<Rightarrow> stop_phase \<Rightarrow> termination_kind \<Rightarrow> (stop_level \<times> instant) list \<Rightarrow> bool" where
  "sent_ok g PhaseRunning t s \<longleftrightarrow> t = Exited \<and> s = []"
| "sent_ok g TermSent t s \<longleftrightarrow> t = Cancelled \<and> map fst s = [Term]"
| "sent_ok g (KillSent u) t s \<longleftrightarrow>
     t \<in> {Cancelled, Killed, TimedOut} \<and> map fst s \<in> {[Kill], [Term, Kill]} \<and>
     snd (last s) + g = u"

fun caused :: "'a world \<Rightarrow> termination_kind \<Rightarrow> instant \<Rightarrow> bool" where
  "caused w Exited t \<longleftrightarrow> True"
| "caused w TimedOut t \<longleftrightarrow> by_now (deadline w) t"
| "caused w Killed t \<longleftrightarrow> by_now (kill_fires w) t"
| "caused w Cancelled t \<longleftrightarrow> by_now (term_fires w) t \<or> by_now (sink_fails w) t"
| "caused w TerminationUnknown t \<longleftrightarrow> False"

definition race_inv :: "'a world \<Rightarrow> 'a race \<Rightarrow> bool" where
  "race_inv w r \<longleftrightarrow>
     sent_ok (drain_grace w) (phase r) (race_termination r) (sent r) \<and>
     caused w (race_termination r) (now r) \<and>
     list_all (\<lambda>(l, t). t \<le> now r) (sent r) \<and>
     (left r = Some (Ok None) \<longrightarrow> (\<exists>u. phase r = KillSent u \<and> u \<le> now r)) \<and>
     (\<forall>v. left r = Some (Ok (Some v)) \<longrightarrow> (\<exists>t \<le> now r. drain_ready w = Some (t, v)))"

lemma by_now_mono: "by_now at t \<Longrightarrow> t \<le> u \<Longrightarrow> by_now at u"
  by (auto simp: by_now_def split: option.splits)

lemma caused_mono: "caused w k t \<Longrightarrow> t \<le> u \<Longrightarrow> caused w k u"
  by (cases k) (auto intro: by_now_mono)

lemma race_inv_start: "race_inv w race_start"
  by (simp add: race_inv_def race_start_def)

lemmas race_defs = send_kill_def send_stop_def after_kill_def

lemma sent_ok_not_killed:
  "sent_ok g ph t s \<Longrightarrow> \<not> kill_sent ph \<Longrightarrow> map fst s = [] \<or> map fst s = [Term]"
  by (cases ph) auto

lemma race_inv_step:
  assumes "drain_step w r r'" and inv: "race_inv w r"
  shows "race_inv w r'"
  using assms(1)
proof (rule drain_stepE)
  fix b ready t
  assume r': "r' = fire w b (r\<lparr>now := t\<rparr>)" and l: "left r = None"
    and b: "armed w (phase r) b = Some ready" "now r \<le> t" "ready \<le> t"
  have old: "list_all (\<lambda>(l, u). u \<le> t + d) (sent r)" for d
    using inv b(2) by (fastforce simp: race_inv_def list_all_iff)
  have cause: "caused w (race_termination r) t"
    using inv b(2) by (auto simp: race_inv_def intro: caused_mono)
  have kill: "race_inv w (send_kill w k (r\<lparr>now := t\<rparr>))"
    if "\<not> kill_sent (phase r)" "k \<in> {Cancelled, Killed, TimedOut}" "caused w k t" for k
    using sent_ok_not_killed [OF _ that(1)] inv that(2) l old caused_mono [OF that(3)]
    by (auto simp: race_inv_def race_defs split: sum.splits)
  show ?thesis
  proof (cases b)
    case Drained
    with r' inv l b old [of 0] cause show ?thesis
      by (auto simp: race_inv_def armed_def)
  next
    case Termed
    with b have "caused w Cancelled (t + stop_takes w Term)"
      by (auto simp: armed_def by_now_def split: if_splits)
    with Termed r' inv l b old show ?thesis
      by (auto simp: race_inv_def armed_def race_defs split: if_splits sum.splits)
  next
    case DrainTimeout
    with r' inv l b old [of 0] cause show ?thesis
      by (auto simp: race_inv_def armed_def split: stop_phase.splits)
  qed (use r' b kill in \<open>auto simp: armed_def by_now_def split: if_splits\<close>)
qed

lemma race_inv_reachable: "(drain_step w)\<^sup>*\<^sup>* race_start r \<Longrightarrow> race_inv w r"
  by (induction rule: rtranclp_induct) (auto intro: race_inv_start race_inv_step)

lemma race_termination_stopped:
  "sent_ok g ph t s \<Longrightarrow> t = Exited \<longleftrightarrow> s = []"
  by (cases ph) auto

lemma race_stop_sent:
  "sent_ok g ph t s \<Longrightarrow> phase_stop_sent ph = (if s = [] then None else Some (fst (last s)))"
  by (cases ph) (auto simp: map_eq_Cons_conv)

lemma sent_ok_levels: "sent_ok g ph t s \<Longrightarrow> map fst s \<in> {[], [Term], [Kill], [Term, Kill]}"
  by (cases ph) auto

lemma sent_ok_kill: "sent_ok g ph t s \<Longrightarrow> kill_sent ph \<Longrightarrow> Kill \<in> fst ` set s"
  by (cases ph) (auto simp: map_eq_Cons_conv)

text \<open>A race that returns an outcome left the loop normally, and then either sent nothing
  more or sent the kill a failed sink was still owed.\<close>

lemma drain_outcome_cases:
  assumes "drain_with_stops w r (Ok out)"
  shows "race_inv w r \<and> \<not> (sink_is_cancelled w (now r) \<and> \<not> kill_sent (phase r)) \<and>
      outcome_termination out = race_termination r \<and> stop_sent out = phase_stop_sent (phase r) \<and>
      left r = Some (Ok (drained out)) \<or>
    (\<exists>r0. race_inv w r0 \<and> sink_is_cancelled w (now r0) \<and> \<not> kill_sent (phase r0) \<and>
      sent r = sent r0 @ [(Kill, now r0)] \<and> now r0 \<le> now r \<and>
      outcome_termination out = Cancelled \<and> stop_sent out = Some Kill \<and>
      left r0 = Some (Ok (drained out)))"
  using assms
proof (rule drain_with_stopsE)
  fix r0
  assume "(drain_step w)\<^sup>*\<^sup>* race_start r0" and f: "drain_finish w r0 = (r, Some (Ok out))"
  from race_inv_reachable [OF this(1)] have inv: "race_inv w r0" .
  show ?thesis
  proof (cases "sink_is_cancelled w (now r0) \<and> \<not> kill_sent (phase r0)")
    case False
    with f inv show ?thesis
      by (auto simp: drain_finish_def split: option.splits sum.splits)
  next
    case True
    with f inv show ?thesis
      by (auto simp: drain_finish_def send_stop_def split: option.splits sum.splits
          intro!: exI [of _ r0])
  qed
qed

text \<open>
  C10. However the futures of the race become ready and whichever ready branch the loop
  takes, the command receives at most one TERM and at most one KILL, never a TERM after a
  KILL; the outcome reports the strongest stop sent and says \<open>Exited\<close> exactly when no stop
  was sent; a sink that failed before the race ended has had its KILL.
\<close>

theorem drain_stops_sent:
  assumes "drain_with_stops w r (Ok out)"
  shows "map fst (sent r) \<in> {[], [Term], [Kill], [Term, Kill]} \<and>
    stop_sent out = (if sent r = [] then None else Some (fst (last (sent r)))) \<and>
    (outcome_termination out = Exited \<longleftrightarrow> sent r = []) \<and>
    (sink_is_cancelled w (now r) \<longrightarrow> Kill \<in> fst ` set (sent r))"
  using drain_outcome_cases [OF assms]
proof
  assume *: "race_inv w r \<and> \<not> (sink_is_cancelled w (now r) \<and> \<not> kill_sent (phase r)) \<and>
    outcome_termination out = race_termination r \<and> stop_sent out = phase_stop_sent (phase r) \<and>
    left r = Some (Ok (drained out))"
  then have ok: "sent_ok (drain_grace w) (phase r) (race_termination r) (sent r)"
    by (simp add: race_inv_def)
  show ?thesis
    using * race_termination_stopped [OF ok] race_stop_sent [OF ok] sent_ok_levels [OF ok]
      sent_ok_kill [OF ok] by auto
next
  assume "\<exists>r0. race_inv w r0 \<and> sink_is_cancelled w (now r0) \<and> \<not> kill_sent (phase r0) \<and>
    sent r = sent r0 @ [(Kill, now r0)] \<and> now r0 \<le> now r \<and>
    outcome_termination out = Cancelled \<and> stop_sent out = Some Kill \<and>
    left r0 = Some (Ok (drained out))"
  then obtain r0 where "race_inv w r0" "\<not> kill_sent (phase r0)"
    and r: "sent r = sent r0 @ [(Kill, now r0)]" "outcome_termination out = Cancelled"
      "stop_sent out = Some Kill"
    by blast
  then show ?thesis
    using sent_ok_not_killed [of "drain_grace w" "phase r0" "race_termination r0" "sent r0"]
    by (auto simp: race_inv_def)
qed

text \<open>A concrete run: the sink fails at 3, the kill ends the drain at 5.\<close>

definition sample_world :: "nat world" where
  "sample_world =
     \<lparr>drain_ready = Some (5, 42), sink_fails = Some 3, term_fires = None, kill_fires = None,
      deadline = Some 10, drain_grace = 4, stop_takes = (\<lambda>_. 1), stop_result = (\<lambda>_. Ok ()), lag = 0\<rparr>"

definition sample_race :: "nat race" where
  "sample_race =
     \<lparr>now = 5, race_termination = Cancelled, phase = KillSent 7, sent = [(Kill, 3)],
      left = Some (Ok (Some 42))\<rparr>"

definition sample_outcome :: "nat drain_outcome" where
  "sample_outcome = \<lparr>outcome_termination = Cancelled, drained = Some 42, stop_sent = Some Kill\<rparr>"

lemma sample_run: "drain_with_stops sample_world sample_race (Ok sample_outcome)"
proof (rule returns)
  let ?r1 = "fire sample_world SinkFailed (race_start\<lparr>now := 3\<rparr>)"
  have "drain_step sample_world race_start ?r1"
    by (rule select [where ready = 3])
      (simp_all add: race_start_def sample_world_def armed_def prompt_def branches_def)
  moreover have "drain_step sample_world ?r1 (fire sample_world Drained (?r1\<lparr>now := 5\<rparr>))"
    by (rule select [where ready = 5])
      (simp_all add: race_start_def sample_world_def armed_def prompt_def branches_def race_defs)
  moreover have "fire sample_world Drained (?r1\<lparr>now := 5\<rparr>) = sample_race"
    by (simp add: race_start_def sample_world_def sample_race_def race_defs)
  ultimately show "(drain_step sample_world)\<^sup>*\<^sup>* race_start sample_race"
    by (metis converse_rtranclp_into_rtranclp rtranclp.rtrancl_refl)
  show "drain_finish sample_world sample_race = (sample_race, Some (Ok sample_outcome))"
    by (simp add: drain_finish_def sample_race_def sample_outcome_def)
qed

theorem drain_stops_sent_witness:
  "stop_sent sample_outcome = Some Kill \<and> Kill \<in> fst ` set (sent sample_race)"
  using drain_stops_sent [OF sample_run]
  by (simp add: sample_race_def sample_world_def sink_is_cancelled_def by_now_def)

subsection \<open>What the outcome says\<close>

text \<open>
  C11. The outcome is honest: a timeout is reported only when the deadline had passed, a
  kill only when the caller's kill had fired, a cancellation only after the caller's term
  or a sink failure; a drain value is the one the drain produced; and the drain is
  abandoned only after a kill was sent and its whole grace had passed.
\<close>

theorem drain_outcome_honest:
  assumes "drain_with_stops w r (Ok out)"
  shows "caused w (outcome_termination out) (now r) \<and>
    (\<forall>v. drained out = Some v \<longrightarrow> (\<exists>t \<le> now r. drain_ready w = Some (t, v))) \<and>
    (drained out = None \<longrightarrow>
       (\<exists>k. (Kill, k) \<in> set (sent r) \<and> k + drain_grace w \<le> now r))"
  using drain_outcome_cases [OF assms]
proof
  assume *: "race_inv w r \<and> \<not> (sink_is_cancelled w (now r) \<and> \<not> kill_sent (phase r)) \<and>
    outcome_termination out = race_termination r \<and> stop_sent out = phase_stop_sent (phase r) \<and>
    left r = Some (Ok (drained out))"
  then have "(Kill, k) \<in> set (sent r)" if "phase r = KillSent (k + drain_grace w)" for k
    using that by (auto simp: race_inv_def map_eq_Cons_conv)
  moreover have "\<exists>k. u = k + drain_grace w" if "phase r = KillSent u" for u
    using * that by (auto simp: race_inv_def)
  ultimately show ?thesis
    using * by (fastforce simp: race_inv_def)
next
  assume "\<exists>r0. race_inv w r0 \<and> sink_is_cancelled w (now r0) \<and> \<not> kill_sent (phase r0) \<and>
    sent r = sent r0 @ [(Kill, now r0)] \<and> now r0 \<le> now r \<and>
    outcome_termination out = Cancelled \<and> stop_sent out = Some Kill \<and>
    left r0 = Some (Ok (drained out))"
  then obtain r0 where r0: "race_inv w r0" "sink_is_cancelled w (now r0)"
      "\<not> kill_sent (phase r0)" "now r0 \<le> now r" "left r0 = Some (Ok (drained out))"
      "outcome_termination out = Cancelled"
    by blast
  then have "drained out \<noteq> None" by (auto simp: race_inv_def)
  moreover have "caused w Cancelled (now r)"
    using r0 by (auto simp: sink_is_cancelled_def intro: by_now_mono)
  ultimately show ?thesis
    using r0 by (fastforce simp: race_inv_def)
qed

theorem drain_outcome_honest_witness:
  "caused sample_world (outcome_termination sample_outcome) (now sample_race) \<and>
   (\<exists>t \<le> now sample_race. drain_ready sample_world = Some (t, 42))"
  using drain_outcome_honest [OF sample_run] by (simp add: sample_outcome_def)

subsection \<open>The race ends\<close>

text \<open>Each turn of the loop leaves it or moves the ladder up one rung.\<close>

fun rung :: "stop_phase \<Rightarrow> nat" where
  "rung PhaseRunning = 2"
| "rung TermSent = 1"
| "rung (KillSent _) = 0"

definition race_rank :: "'a race \<Rightarrow> nat" where
  "race_rank r = (if left r = None then Suc (rung (phase r)) else 0)"

lemma race_rank_step: "drain_step w r r' \<Longrightarrow> race_rank r' < race_rank r"
proof (erule drain_stepE)
  fix b ready t
  assume "r' = fire w b (r\<lparr>now := t\<rparr>)" "left r = None" "armed w (phase r) b = Some ready"
  then show ?thesis
    by (cases b; cases "phase r")
      (auto simp: armed_def race_rank_def race_defs split: if_splits sum.splits)
qed

lemma race_steps_bound: "(drain_step w ^^ n) r r' \<Longrightarrow> race_rank r' + n \<le> race_rank r"
  by (induction n arbitrary: r') (fastforce dest: race_rank_step)+

lemma race_progress:
  assumes "left r = None" and "armed w (phase r) b = Some t"
  shows "\<exists>r'. drain_step w r r'"
proof -
  let ?ts = "{t. \<exists>b. armed w (phase r) b = Some t}"
  obtain b' where b': "armed w (phase r) b' = Some (LEAST t. t \<in> ?ts)"
    using LeastI [of "\<lambda>t. t \<in> ?ts" t] assms(2) by blast
  have least: "(LEAST t. t \<in> ?ts) \<le> u" if "armed w (phase r) c = Some u" for c u
    using that by (blast intro: Least_le)
  have "prompt w r (max (now r) (LEAST t. t \<in> ?ts))"
    by (auto simp: prompt_def list_all_iff max_def split: option.split
        dest!: least intro: trans_le_add1)
  with assms(1) b' show ?thesis by (blast intro: select)
qed

text \<open>Under a deadline the loop is never idle: the deadline is armed until a kill is sent, the
  drain timeout after.\<close>

definition timely :: "'a world \<Rightarrow> instant \<Rightarrow> 'a race \<Rightarrow> bool" where
  "timely w d r \<longleftrightarrow>
     (case phase r of
        PhaseRunning \<Rightarrow> now r \<le> (if left r = None then 0 else d + lag w)
      | TermSent \<Rightarrow>
          now r \<le> d + lag w + stop_takes w Term + (if left r = None then 0 else lag w)
      | KillSent u \<Rightarrow>
          u \<le> d + 2 * lag w + stop_takes w Term + drain_grace w \<and>
          now r \<le> max u (d + 2 * lag w + stop_takes w Term + stop_takes w Kill) + lag w \<and>
          (left r = None \<longrightarrow>
             now r \<le> d + 2 * lag w + stop_takes w Term + stop_takes w Kill))"

lemma prompt_armed:
  "prompt w r t \<Longrightarrow> armed w (phase r) b = Some t' \<Longrightarrow> t \<le> max (now r) t' + lag w"
  by (cases b) (auto simp: prompt_def branches_def)

lemma timely_step:
  assumes d: "deadline w = Some d" and "drain_step w r r'" and inv: "timely w d r"
  shows "timely w d r'"
  using assms(2)
proof (rule drain_stepE)
  fix b ready t
  assume r': "r' = fire w b (r\<lparr>now := t\<rparr>)" and l: "left r = None"
    and b: "armed w (phase r) b = Some ready" and pr: "prompt w r t"
  show ?thesis
  proof (cases "phase r")
    case (KillSent u)
    then have "t \<le> max (now r) u + lag w"
      using prompt_armed [OF pr, of DrainTimeout] by (simp add: armed_def)
    with KillSent r' l b inv show ?thesis
      by (cases b) (auto simp: armed_def timely_def split: if_splits)
  next
    case PhaseRunning
    then have "t \<le> d + lag w"
      using prompt_armed [OF pr, of Deadline] d l inv by (simp add: armed_def timely_def)
    with PhaseRunning r' l b inv show ?thesis
      by (cases b) (auto simp: armed_def timely_def race_defs split: if_splits sum.splits)
  next
    case TermSent
    then have "t \<le> d + lag w + stop_takes w Term + lag w"
      using prompt_armed [OF pr, of Deadline] d l inv by (auto simp: armed_def timely_def)
    with TermSent r' l b inv show ?thesis
      by (cases b) (auto simp: armed_def timely_def race_defs split: if_splits sum.splits)
  qed
qed

lemma timely_start: "timely w d race_start"
  by (simp add: timely_def race_start_def)

lemma timely_reachable:
  "deadline w = Some d \<Longrightarrow> (drain_step w)\<^sup>*\<^sup>* race_start r \<Longrightarrow> timely w d r"
  by (erule rtranclp_induct) (auto intro: timely_start timely_step)

lemma race_never_idle:
  assumes "deadline w = Some d" and "left r = None"
  shows "\<exists>r'. drain_step w r r'"
proof (cases "phase r")
  case (KillSent u)
  then show ?thesis
    using race_progress [OF assms(2), of w DrainTimeout u] by (simp add: armed_def)
qed (use race_progress [OF assms(2), of w Deadline d] assms(1) in \<open>simp_all add: armed_def\<close>)

lemma race_completes:
  assumes "deadline w = Some d"
  shows "\<exists>r'. (drain_step w)\<^sup>*\<^sup>* r r' \<and> left r' \<noteq> None"
proof (induction r rule: measure_induct_rule [of race_rank])
  case (less r)
  show ?case
  proof (cases "left r = None")
    case True
    then obtain r1 where "drain_step w r r1" using race_never_idle [OF assms] by blast
    with less [OF race_rank_step [OF this]] show ?thesis
      by (meson converse_rtranclp_into_rtranclp)
  qed auto
qed

lemma drain_finish_returns: "left r \<noteq> None \<Longrightarrow> \<exists>r' res. drain_finish w r = (r', Some res)"
  by (auto simp: drain_finish_def split: sum.split)

text \<open>
  C12. A command with a timeout cannot hang its caller. The race takes at most three turns,
  it can always take the next one, it returns, and it returns within the timeout, one
  delivery of each stop, the drain grace and three wake-ups, even when the drain never ends.
\<close>

theorem drain_returns_in_time:
  assumes "deadline w = Some d"
  shows "(\<exists>r res. drain_with_stops w r res) \<and>
    (\<forall>n r. (drain_step w ^^ n) race_start r \<longrightarrow>
       n \<le> 3 \<and> (left r = None \<longrightarrow> (\<exists>r'. drain_step w r r'))) \<and>
    (\<forall>r res. drain_with_stops w r res \<longrightarrow>
       now r \<le> d + stop_takes w Term + stop_takes w Kill + drain_grace w + 3 * lag w)"
proof (intro conjI allI impI)
  obtain r where "(drain_step w)\<^sup>*\<^sup>* race_start r" "left r \<noteq> None"
    using race_completes [OF assms] by blast
  then show "\<exists>r res. drain_with_stops w r res"
    by (metis drain_finish_returns returns)
next
  fix n r assume "(drain_step w ^^ n) race_start r"
  from race_steps_bound [OF this] show "n \<le> 3" by (simp add: race_rank_def race_start_def)
next
  fix n and r :: "'a race" assume "left r = None"
  then show "\<exists>r'. drain_step w r r'" using race_never_idle [OF assms] by blast
next
  fix r res assume "drain_with_stops w r res"
  then obtain r0 where "(drain_step w)\<^sup>*\<^sup>* race_start r0" and f: "drain_finish w r0 = (r, Some res)"
    by (rule drain_with_stopsE)
  from timely_reachable [OF assms this(1)] have "timely w d r0" .
  with f show "now r \<le> d + stop_takes w Term + stop_takes w Kill + drain_grace w + 3 * lag w"
    by (auto simp: drain_finish_def timely_def send_stop_def
        split: option.splits sum.splits stop_phase.splits if_splits)
qed

theorem drain_returns_in_time_witness:
  "deadline sample_world = Some 10 \<and> now sample_race \<le> 10 + 1 + 1 + 4 + 3 * 0"
  using drain_returns_in_time [of sample_world 10] sample_run by (auto simp: sample_world_def)

end
