(* ===== verification/Grace.thy ===== *)
theory Grace
  imports Drain
begin

section \<open>The TERM, grace, KILL ladder (grace.rs)\<close>

text \<open>
  A token is the instant at which it is cancelled, if it ever is. \<open>drive\<close> relates the
  caller's tokens, the timeout and the grace to the instants at which the ladder fires the
  provider's tokens and the cause it records; a \<open>select!\<close> wakes up to \<open>lag\<close> late and picks
  any branch that is ready then. \<open>run_with_stop_grace\<close> wraps a provider's run, given as the
  relation between a spec, its controls and the results it may return, with the instant.
\<close>

record ('i, 's) exec_controls =
  ctl_term :: "instant option"
  ctl_kill :: "instant option"
  ctl_stdin :: "'i option"
  ctl_sink :: "'s option"
  retained_output_limit :: "nat option"

datatype cause = CauseTimedOut | CauseStopped

record ladder =
  inner_term :: "instant option"
  inner_kill :: "instant option"
  fired :: "(instant \<times> cause) option"

definition wakes :: "duration \<Rightarrow> instant option list \<Rightarrow> instant \<Rightarrow> bool" where
  "wakes lg arms t \<longleftrightarrow>
     list_all (\<lambda>a. case a of None \<Rightarrow> True | Some u \<Rightarrow> t \<le> u + lg) arms"

text \<open>The wait between TERM, fired at \<open>t\<close>, and KILL: the grace or the caller's kill.\<close>

definition grace_wait ::
    "duration \<Rightarrow> duration \<Rightarrow> instant option \<Rightarrow> instant \<Rightarrow> instant \<Rightarrow> bool" where
  "grace_wait lg grace kl t u \<longleftrightarrow>
     t \<le> u \<and> (t + grace \<le> u \<or> by_now kl u) \<and> wakes lg [Some (t + grace), map_option (max t) kl] u"

inductive drive ::
    "duration \<Rightarrow> duration option \<Rightarrow> duration \<Rightarrow> instant option \<Rightarrow> instant option \<Rightarrow> ladder \<Rightarrow> bool"
  for lg tmo grace tm kl where
  idle: "tmo = None \<Longrightarrow> tm = None \<Longrightarrow> kl = None \<Longrightarrow>
    drive lg tmo grace tm kl \<lparr>inner_term = None, inner_kill = None, fired = None\<rparr>"
| timed_out: "by_now tmo t \<Longrightarrow> wakes lg [tmo, tm, kl] t \<Longrightarrow> grace_wait lg grace kl t u \<Longrightarrow>
    drive lg tmo grace tm kl
      \<lparr>inner_term = Some t, inner_kill = Some u, fired = Some (t, CauseTimedOut)\<rparr>"
| stopped: "by_now tm t \<Longrightarrow> wakes lg [tmo, tm, kl] t \<Longrightarrow> grace_wait lg grace kl t u \<Longrightarrow>
    drive lg tmo grace tm kl
      \<lparr>inner_term = Some t, inner_kill = Some u, fired = Some (t, CauseStopped)\<rparr>"
| killed: "by_now kl t \<Longrightarrow> wakes lg [tmo, tm, kl] t \<Longrightarrow>
    drive lg tmo grace tm kl
      \<lparr>inner_term = None, inner_kill = Some t, fired = Some (t, CauseStopped)\<rparr>"

inductive_cases driveE: "drive lg tmo grace tm kl l"

definition inner_spec :: "exec_spec \<Rightarrow> exec_spec" where
  "inner_spec spec = spec\<lparr>timeout := None, stop_grace := None\<rparr>"

definition inner_controls ::
    "('i, 's) exec_controls \<Rightarrow> ladder \<Rightarrow> ('i, 's) exec_controls" where
  "inner_controls c l =
     \<lparr>ctl_term = inner_term l, ctl_kill = inner_kill l, ctl_stdin = ctl_stdin c, ctl_sink = ctl_sink c,
      retained_output_limit = retained_output_limit c\<rparr>"

text \<open>The cause as read when the command ended at \<open>t\<close>: the ladder records it before it fires
  a token, so a command that saw the token ends with the cause recorded.\<close>

definition cause_read :: "ladder \<Rightarrow> instant \<Rightarrow> cause option" where
  "cause_read l t =
     (case fired l of None \<Rightarrow> None | Some (f, k) \<Rightarrow> if f \<le> t then Some k else None)"

definition apply_cause :: "cause option \<Rightarrow> streaming_result \<Rightarrow> streaming_result" where
  "apply_cause c s =
     (if c = Some CauseTimedOut \<and> result_termination (str_result s) \<in> {Cancelled, Killed}
      then s\<lparr>str_result := (str_result s)\<lparr>result_termination := TimedOut\<rparr>\<rparr> else s)"

type_synonym ('i, 's) provider_run =
  "exec_spec \<Rightarrow> ('i, 's) exec_controls \<Rightarrow> instant \<Rightarrow> (error, streaming_result) result \<Rightarrow> bool"

inductive run_with_stop_grace ::
    "duration \<Rightarrow> ('i, 's) provider_run \<Rightarrow> ('i, 's) provider_run" for lg run where
  raw: "stop_grace spec = None \<Longrightarrow> run spec c t res \<Longrightarrow> run_with_stop_grace lg run spec c t res"
| graceful: "stop_grace spec = Some g \<Longrightarrow> drive lg (timeout spec) g (ctl_term c) (ctl_kill c) l \<Longrightarrow>
    run (inner_spec spec) (inner_controls c l) t res \<Longrightarrow>
    run_with_stop_grace lg run spec c t (map_sum id (apply_cause (cause_read l t)) res)"

inductive_cases run_with_stop_graceE: "run_with_stop_grace lg run spec c t res"

subsection \<open>A provider that runs the race\<close>

text \<open>
  The Docker provider's \<open>run_signals\<close>: the race gets the spec's timeout and the controls'
  tokens, and what it ends with becomes the result (\<open>finish\<close>).
\<close>

definition signal_world ::
    "'a world \<Rightarrow> exec_spec \<Rightarrow> ('i, 's) exec_controls \<Rightarrow> 'a world" where
  "signal_world base spec c =
     base\<lparr>term_fires := ctl_term c, kill_fires := ctl_kill c, deadline := timeout spec\<rparr>"

inductive run_signals ::
    "'a world \<Rightarrow> ('a drain_outcome \<Rightarrow> (error, streaming_result) result) \<Rightarrow> ('i, 's) provider_run"
  for base finish where
  ends: "drain_with_stops (signal_world base spec c) r (Ok out) \<Longrightarrow>
    run_signals base finish spec c (now r) (finish out)"
| fails: "drain_with_stops (signal_world base spec c) r (Err e) \<Longrightarrow>
    run_signals base finish spec c (now r) (Err e)"

inductive_cases run_signalsE: "run_signals base finish spec c t res"

subsection \<open>The ladder\<close>

lemma by_now_None [simp]: "\<not> by_now None t"
  by (simp add: by_now_def)

lemma by_now_Some [simp]: "by_now (Some u) t \<longleftrightarrow> u \<le> t"
  by (simp add: by_now_def)

lemma ladder_rungs:
  "drive lg tmo g tm kl l \<Longrightarrow> inner_term l = Some t0 \<Longrightarrow>
     \<exists>k0. inner_kill l = Some k0 \<and> t0 \<le> k0 \<and> (kl = None \<longrightarrow> t0 + g \<le> k0)"
  by (auto elim!: driveE simp: grace_wait_def)

lemma ladder_untriggered:
  "drive lg tmo g tm None l \<Longrightarrow> inner_term l = None \<Longrightarrow> inner_kill l = None"
  by (auto elim!: driveE)

text \<open>The race under a ladder that nobody cuts short, with a sink that accepts everything.\<close>

definition ladder_world :: "'a world \<Rightarrow> instant \<Rightarrow> duration \<Rightarrow> bool" where
  "ladder_world w t0 g \<longleftrightarrow>
     term_fires w = Some t0 \<and> (\<exists>k0. kill_fires w = Some k0 \<and> t0 + g \<le> k0) \<and>
     sink_fails w = None \<and> deadline w = None \<and> lag w < g"

definition ladder_inv :: "'a world \<Rightarrow> instant \<Rightarrow> duration \<Rightarrow> 'a race \<Rightarrow> bool" where
  "ladder_inv w t0 g r \<longleftrightarrow>
     (case phase r of
        PhaseRunning \<Rightarrow> sent r = [] \<and> (left r = None \<longrightarrow> now r = 0)
      | TermSent \<Rightarrow> (\<exists>t. sent r = [(Term, t)] \<and> t0 \<le> t \<and> t \<le> t0 + lag w)
      | KillSent _ \<Rightarrow> (\<exists>t k. sent r = [(Term, t), (Kill, k)] \<and> t0 \<le> t \<and> t \<le> t0 + lag w \<and>
                         t0 + g \<le> k))"

lemma ladder_inv_step:
  assumes w: "ladder_world w t0 g" and "drain_step w r r'" and inv: "ladder_inv w t0 g r"
  shows "ladder_inv w t0 g r'"
  using assms(2)
proof (rule drain_stepE)
  fix b ready t
  assume r': "r' = fire w b (r\<lparr>now := t\<rparr>)" and l: "left r = None"
    and b: "armed w (phase r) b = Some ready" "now r \<le> t" "ready \<le> t" and pr: "prompt w r t"
  show ?thesis
  proof (cases "phase r")
    case PhaseRunning
    then have "t \<le> t0 + lag w"
      using prompt_armed [OF pr, of Termed] w l inv
      by (simp add: armed_def ladder_world_def ladder_inv_def)
    with PhaseRunning r' l b inv w show ?thesis
      by (cases b) (auto simp: armed_def ladder_inv_def ladder_world_def race_defs)
  next
    case TermSent
    with r' l b inv w show ?thesis
      by (cases b) (auto simp: armed_def ladder_inv_def ladder_world_def race_defs)
  next
    case (KillSent u)
    with r' l b inv show ?thesis
      by (cases b) (auto simp: armed_def ladder_inv_def)
  qed
qed

lemma ladder_inv_reachable:
  assumes "ladder_world w t0 g" and "(drain_step w)\<^sup>*\<^sup>* race_start r"
  shows "ladder_inv w t0 g r"
  using assms(2)
proof (induction rule: rtranclp_induct)
  case base
  show ?case by (simp add: ladder_inv_def race_start_def)
qed (use ladder_inv_step assms(1) in blast)

lemma no_term_reachable:
  assumes "term_fires w = None" and "(drain_step w)\<^sup>*\<^sup>* race_start r"
  shows "Term \<notin> fst ` set (sent r)"
  using assms(2)
proof (induction rule: rtranclp_induct)
  case (step r r')
  from step(2) show ?case
  proof (rule drain_stepE)
    fix b ready t
    assume "r' = fire w b (r\<lparr>now := t\<rparr>)" "armed w (phase r) b = Some ready"
    with step(3) assms(1) show ?thesis
      by (cases b) (auto simp: armed_def race_defs split: if_splits)
  qed
qed (simp add: race_start_def)

lemma no_stops_silent:
  assumes "term_fires w = None" "kill_fires w = None" "sink_fails w = None" "deadline w = None"
    and "(drain_step w)\<^sup>*\<^sup>* race_start r"
  shows "phase r = PhaseRunning \<and> sent r = []"
  using assms(5)
proof (induction rule: rtranclp_induct)
  case (step r r')
  from step(2) show ?case
  proof (rule drain_stepE)
    fix b ready t
    assume "r' = fire w b (r\<lparr>now := t\<rparr>)" "armed w (phase r) b = Some ready"
    with step(3) assms(1-4) show ?thesis
      by (cases b) (auto simp: armed_def)
  qed
qed (simp add: race_start_def)

lemma finish_quiet_sink:
  "sink_fails w = None \<Longrightarrow> drain_finish w r = (r', Some res) \<Longrightarrow> r' = r"
  by (auto simp: drain_finish_def sink_is_cancelled_def split: option.splits sum.splits)


lemma no_term_result:
  assumes "drain_with_stops w r res" and "term_fires w = None"
  shows "Term \<notin> fst ` set (sent r)"
  using assms(1)
proof (rule drain_with_stopsE)
  fix r0
  assume "(drain_step w)\<^sup>*\<^sup>* race_start r0" and "drain_finish w r0 = (r, Some res)"
  with no_term_reachable [OF assms(2), of r0] show ?thesis
    by (auto simp: drain_finish_def send_stop_def split: option.splits sum.splits if_splits)
qed


text \<open>
  The caused termination of a race, for the clients of the race.
\<close>

lemma outcome_caused:
  "drain_with_stops w r (Ok out) \<Longrightarrow> caused w (outcome_termination out) (now r)"
  by (drule drain_outcome_cases)
    (auto simp: race_inv_def sink_is_cancelled_def intro: by_now_mono)

definition reports_outcome ::
    "('a drain_outcome \<Rightarrow> (error, streaming_result) result) \<Rightarrow> bool" where
  "reports_outcome finish \<longleftrightarrow>
     (\<forall>out s. finish out = Ok s \<longrightarrow>
        result_termination (str_result s) = outcome_termination out)"

lemma run_signals_caused:
  assumes "run_signals base finish spec c t (Ok s)" and "reports_outcome finish"
  shows "caused (signal_world base spec c) (result_termination (str_result s)) t"
  using assms(1)
proof (cases rule: run_signals.cases)
  case (ends r out)
  with assms(2) outcome_caused [OF ends(3)] show ?thesis
    by (metis reports_outcome_def)
qed

lemma ladder_caused:
  assumes "drive lg tmo g tm kl l"
  shows "by_now (inner_term l) t \<Longrightarrow>
      cause_read l t = Some CauseTimedOut \<and> by_now tmo t \<or>
      cause_read l t = Some CauseStopped \<and> by_now tm t"
    and "by_now (inner_kill l) t \<Longrightarrow>
      cause_read l t = Some CauseTimedOut \<and> by_now tmo t \<or>
      cause_read l t = Some CauseStopped \<and> (by_now tm t \<or> by_now kl t)"
    and "cause_read l t = Some CauseTimedOut \<Longrightarrow> by_now tmo t"
  using assms
  by (auto elim!: driveE simp: cause_read_def grace_wait_def by_now_def
      split: if_splits option.splits)

text \<open>
  The reported termination is true under every stop grace: a command reported as timed
  out ran past its timeout, whichever signal finally ended it; one reported as cancelled
  or killed was stopped by the caller, or by its failing sink. A command the ladder ended
  because of the timeout is never reported as cancelled or killed.
\<close>

lemma graceful_termination_honest:
  assumes "run_with_stop_grace lg (run_signals base finish) spec c t (Ok s)"
    and "reports_outcome finish"
  shows "let reported = result_termination (str_result s) in
    (reported = TimedOut \<longrightarrow> by_now (timeout spec) t) \<and>
    (reported = Killed \<longrightarrow> by_now (ctl_kill c) t \<or> by_now (ctl_term c) t) \<and>
    (reported = Cancelled \<longrightarrow> by_now (ctl_term c) t \<or> by_now (sink_fails base) t)"
  using assms(1)
proof (cases rule: run_with_stop_grace.cases)
  case raw
  from run_signals_caused [OF raw(2) assms(2)] show ?thesis
    by (cases "result_termination (str_result s)") (auto simp: signal_world_def Let_def)
next
  case (graceful g l res)
  then obtain s0 where s0: "res = Ok s0" "s = apply_cause (cause_read l t) s0"
    by (cases res) auto
  let ?w = "signal_world base (inner_spec spec) (inner_controls c l)"
  have "caused ?w (result_termination (str_result s0)) t"
    using run_signals_caused graceful(4) s0(1) assms(2) by blast
  moreover have "term_fires ?w = inner_term l" "kill_fires ?w = inner_kill l" "deadline ?w = None"
    "sink_fails ?w = sink_fails base"
    by (simp_all add: signal_world_def inner_spec_def inner_controls_def)
  ultimately show ?thesis
    using ladder_caused [OF graceful(3), of t] s0(2)
    by (cases "result_termination (str_result s0)") (auto simp: apply_cause_def Let_def)
qed

subsection \<open>Concrete runs\<close>

text \<open>A command whose output never closes, with a timeout of 2, a stop grace of 5 and a drain
  grace of 3: TERM at 2, KILL at 7, abandoned at 10 and reported as timed out.\<close>

definition stuck_world :: "nat world" where
  "stuck_world =
     \<lparr>drain_ready = None, sink_fails = None, term_fires = None, kill_fires = None,
      deadline = None, drain_grace = 3, stop_takes = (\<lambda>_. 0), stop_result = (\<lambda>_. Ok ()), lag = 0\<rparr>"

definition grace_spec :: exec_spec where
  "grace_spec = (spec_new ''sleep'')\<lparr>timeout := Some 2, stop_grace := Some 5\<rparr>"

definition no_controls :: "(unit, unit) exec_controls" where
  "no_controls = \<lparr>ctl_term = None, ctl_kill = None, ctl_stdin = None, ctl_sink = None,
     retained_output_limit = None\<rparr>"

definition timeout_ladder :: ladder where
  "timeout_ladder = \<lparr>inner_term = Some 2, inner_kill = Some 7, fired = Some (2, CauseTimedOut)\<rparr>"

definition stuck_race :: "nat race" where
  "stuck_race = \<lparr>now = 10, race_termination = Killed, phase = KillSent 10,
     sent = [(Term, 2), (Kill, 7)], left = Some (Ok None)\<rparr>"

definition plain_result :: "nat drain_outcome \<Rightarrow> (error, streaming_result) result" where
  "plain_result out = Ok (streaming_new (result_new (outcome_termination out) None 0))"

lemmas grace_samples =
  stuck_world_def grace_spec_def no_controls_def timeout_ladder_def stuck_race_def
  signal_world_def inner_spec_def inner_controls_def race_start_def

lemma timeout_ladder_drives:
  "drive 0 (timeout grace_spec) 5 (ctl_term no_controls) (ctl_kill no_controls) timeout_ladder"
  unfolding timeout_ladder_def
  by (rule timed_out) (simp_all add: grace_samples wakes_def grace_wait_def)

abbreviation graceful_world :: "nat world" where
  "graceful_world \<equiv>
     signal_world stuck_world (inner_spec grace_spec) (inner_controls no_controls timeout_ladder)"

lemma stuck_run:
  "drain_with_stops graceful_world stuck_race
     (Ok \<lparr>outcome_termination = Killed, drained = None, stop_sent = Some Kill\<rparr>)"
proof (rule returns)
  let ?r1 = "fire graceful_world Termed (race_start\<lparr>now := 2\<rparr>)"
  let ?r2 = "fire graceful_world KillFired (?r1\<lparr>now := 7\<rparr>)"
  have "drain_step graceful_world race_start ?r1"
    by (rule select [where ready = 2])
      (simp_all add: grace_samples armed_def prompt_def branches_def)
  moreover have "drain_step graceful_world ?r1 ?r2"
    by (rule select [where ready = 7])
      (simp_all add: grace_samples armed_def prompt_def branches_def race_defs)
  moreover have "drain_step graceful_world ?r2 (fire graceful_world DrainTimeout (?r2\<lparr>now := 10\<rparr>))"
    by (rule select [where ready = 10])
      (simp_all add: grace_samples armed_def prompt_def branches_def race_defs)
  moreover have "fire graceful_world DrainTimeout (?r2\<lparr>now := 10\<rparr>) = stuck_race"
    by (simp add: grace_samples race_defs)
  ultimately show "(drain_step graceful_world)\<^sup>*\<^sup>* race_start stuck_race"
    by (metis converse_rtranclp_into_rtranclp rtranclp.rtrancl_refl)
  show "drain_finish graceful_world stuck_race =
    (stuck_race, Some (Ok \<lparr>outcome_termination = Killed, drained = None, stop_sent = Some Kill\<rparr>))"
    by (simp add: drain_finish_def grace_samples)
qed


lemma graceful_termination_honest_witness:
  "\<exists>s. run_with_stop_grace 0 (run_signals stuck_world plain_result) grace_spec no_controls 10 (Ok s) \<and>
     result_termination (str_result s) = TimedOut \<and> by_now (timeout grace_spec) 10"
proof -
  let ?out = "\<lparr>outcome_termination = Killed, drained = None, stop_sent = Some Kill\<rparr> :: nat drain_outcome"
  let ?s = "apply_cause (cause_read timeout_ladder 10)
    (streaming_new (result_new Killed None 0))"
  have reports: "reports_outcome plain_result"
    by (auto simp: reports_outcome_def plain_result_def streaming_new_def result_new_def)
  have "run_signals stuck_world plain_result (inner_spec grace_spec)
      (inner_controls no_controls timeout_ladder) (now stuck_race) (plain_result ?out)"
    using stuck_run by (rule run_signals.ends)
  moreover have "stop_grace grace_spec = Some 5" "now stuck_race = 10"
    by (simp_all add: grace_samples)
  ultimately have run: "run_with_stop_grace 0 (run_signals stuck_world plain_result) grace_spec
      no_controls 10 (Ok ?s)"
    using graceful [OF _ timeout_ladder_drives, of "run_signals stuck_world plain_result" 10
        "plain_result ?out"]
    by (simp add: plain_result_def)
  moreover have "result_termination (str_result ?s) = TimedOut"
    by (simp add: apply_cause_def cause_read_def timeout_ladder_def streaming_new_def result_new_def)
  ultimately show ?thesis
    using graceful_termination_honest [OF run reports] by (auto simp: Let_def)
qed

text \<open>The failing sink of the sample race, under a grace nobody's ladder uses.\<close>

definition patient_spec :: exec_spec where
  "patient_spec = (spec_new ''yes'')\<lparr>timeout := None, stop_grace := Some 5\<rparr>"

definition idle_ladder :: ladder where
  "idle_ladder = \<lparr>inner_term = None, inner_kill = None, fired = None\<rparr>"

lemma idle_ladder_drives:
  "drive 0 (timeout patient_spec) 5 (ctl_term no_controls) (ctl_kill no_controls) idle_ladder"
  unfolding idle_ladder_def by (rule idle) (simp_all add: patient_spec_def no_controls_def)

abbreviation sink_world :: "nat world" where
  "sink_world \<equiv>
     signal_world sample_world (inner_spec patient_spec) (inner_controls no_controls idle_ladder)"

lemma sink_run: "drain_with_stops sink_world sample_race (Ok sample_outcome)"
proof (rule returns)
  let ?r1 = "fire sink_world SinkFailed (race_start\<lparr>now := 3\<rparr>)"
  note defs = race_start_def sample_world_def signal_world_def inner_spec_def inner_controls_def
    idle_ladder_def patient_spec_def
  have "drain_step sink_world race_start ?r1"
    by (rule select [where ready = 3])
      (simp_all add: defs armed_def prompt_def branches_def)
  moreover have "drain_step sink_world ?r1 (fire sink_world Drained (?r1\<lparr>now := 5\<rparr>))"
    by (rule select [where ready = 5])
      (simp_all add: defs armed_def prompt_def branches_def race_defs)
  moreover have "fire sink_world Drained (?r1\<lparr>now := 5\<rparr>) = sample_race"
    by (simp add: defs sample_race_def race_defs)
  ultimately show "(drain_step sink_world)\<^sup>*\<^sup>* race_start sample_race"
    by (metis converse_rtranclp_into_rtranclp rtranclp.rtrancl_refl)
  show "drain_finish sink_world sample_race = (sample_race, Some (Ok sample_outcome))"
    by (simp add: drain_finish_def sample_race_def sample_outcome_def)
qed


end
