(* ===== verification/Git_Retry.thy ===== *)
theory Git_Retry
  imports Complex_Main Exec_Types
begin

section \<open>Retrying git operations (git\_retry.rs)\<close>

text \<open>
  The retry loop with its classification of failures, its deadline arithmetic and the
  attempt history it returns. The operation is an argument: what it returns for an attempt
  and the timeout it was given, and how long it took. A \<open>SystemTime\<close> is a number of
  nanoseconds since the epoch; the clocks advance together. The backoff factor, an \<open>f64\<close>,
  is a rational: products are exact, where the hardware rounds them; \<open>mul_f64\<close> panics
  (\<^const>\<open>None\<close>) where the source does, on a product that is negative or does not fit a
  \<open>Duration\<close>.
\<close>

record git_credentials =
  username :: string
  password :: string
  minted_at :: "instant option"

definition replication_horizon :: duration where
  "replication_horizon = from_secs 60"

datatype git_retry_reason = TokenReplication | TransientInfra

record git_backoff =
  initial :: duration
  factor :: rat
  backoff_max :: duration

definition mul_f64 :: "duration \<Rightarrow> rat \<Rightarrow> duration option" where
  "mul_f64 d q =
     (let p = q * of_nat d in
      if p < 0 \<or> of_nat (from_secs (2 ^ 64)) \<le> p then None else Some (nat (round p)))"

definition delay_after :: "git_backoff \<Rightarrow> nat \<Rightarrow> duration option" where
  "delay_after b attempt =
     (let exponent = min (attempt - 1) (2 ^ 31 - 1) in
      map_option (\<lambda>delay. min delay (backoff_max b)) (mul_f64 (initial b) (factor b ^ exponent)))"

record git_retry_policy =
  max_attempts :: u32
  backoff :: git_backoff
  max_elapsed :: "duration option"
  per_attempt_timeout :: "duration option"

definition retry_deadline :: "git_retry_policy \<Rightarrow> instant \<Rightarrow> instant option" where
  "retry_deadline pol start = map_option (\<lambda>m. start + m) (max_elapsed pol)"

text \<open>\<open>saturating_duration_since\<close> is subtraction on the naturals.\<close>

definition attempt_timeout :: "git_retry_policy \<Rightarrow> instant option \<Rightarrow> instant \<Rightarrow> duration option" where
  "attempt_timeout pol deadline now =
     (let remaining = map_option (\<lambda>d. d - now) deadline in
      case (per_attempt_timeout pol, remaining) of
        (Some cap, Some r) \<Rightarrow> Some (min cap r)
      | (Some cap, None) \<Rightarrow> Some cap
      | (None, r) \<Rightarrow> r)"

definition retry_delay ::
    "git_retry_policy \<Rightarrow> nat \<Rightarrow> instant option \<Rightarrow> instant \<Rightarrow> duration option option" where
  "retry_delay pol attempt deadline now =
     map_option (\<lambda>delay.
        if (case deadline of None \<Rightarrow> True | Some d \<Rightarrow> delay < d - now) then Some delay else None)
       (delay_after (backoff pol) attempt)"

datatype credential_age = Fresh | Mature | Static

definition age_of :: "git_credentials option \<Rightarrow> instant \<Rightarrow> credential_age" where
  "age_of creds wall =
     (case Option.bind creds minted_at of
        None \<Rightarrow> Static
      | Some minted \<Rightarrow>
          if minted \<le> wall
          then (if wall - minted < replication_horizon then Fresh else Mature)
          else Fresh)"

fun decide :: "git_failure_kind \<Rightarrow> credential_age \<Rightarrow> git_retry_reason option" where
  "decide RemoteUnavailable _ = Some TransientInfra"
| "decide AuthRejected Fresh = Some TokenReplication"
| "decide AuthRejected Mature = Some TransientInfra"
| "decide AuthRejected Static = None"
| "decide _ _ = None"

definition retry_reason ::
    "error \<Rightarrow> git_credentials option \<Rightarrow> instant \<Rightarrow> git_retry_reason option" where
  "retry_reason e creds wall =
     (case e of
        Git f \<Rightarrow>
          (if (case gf_output f of None \<Rightarrow> False | Some out \<Rightarrow> ef_termination out \<noteq> Exited)
           then None else decide (gf_kind f) (age_of creds wall))
      | RateLimited _ \<Rightarrow> Some TransientInfra
      | Overloaded _ \<Rightarrow> Some TransientInfra
      | _ \<Rightarrow> None)"

record git_attempt =
  attempt_number :: nat
  started_at :: instant
  attempt_duration :: duration
  attempt_reason :: "git_retry_reason option"
  attempt_failure :: "error option"

text \<open>Everything the loop reads besides the policy: the wall clock at monotonic time 0, how
  far each sleep overruns, and the operation.\<close>

record 'a retry_env =
  wall_start :: instant
  oversleep :: "nat \<Rightarrow> duration"
  operation :: "nat \<Rightarrow> duration option \<Rightarrow> (error, 'a) result \<times> duration"

datatype 'a retry_outcome =
    Report 'a "git_attempt list"
  | RetryError "git_attempt list" error
  | RetryPanic

definition attempt_limit :: "git_retry_policy \<Rightarrow> nat" where
  "attempt_limit pol = max (unat (max_attempts pol)) 1"

definition next_delay ::
    "git_retry_policy \<Rightarrow> git_retry_reason option \<Rightarrow> nat \<Rightarrow> instant option \<Rightarrow> instant
      \<Rightarrow> duration option option" where
  "next_delay pol reason attempt deadline now =
     (case reason of
        None \<Rightarrow> Some None
      | Some _ \<Rightarrow> if attempt < attempt_limit pol then retry_delay pol attempt deadline now
                 else Some None)"

lemma next_delay_Some:
  "next_delay pol reason a d t = Some (Some x) \<Longrightarrow> a < attempt_limit pol \<and> reason \<noteq> None"
  by (auto simp: next_delay_def split: option.splits if_splits)

function retry_loop ::
    "'a retry_env \<Rightarrow> git_retry_policy \<Rightarrow> git_credentials option \<Rightarrow> string \<Rightarrow> instant
      \<Rightarrow> git_attempt list \<Rightarrow> instant \<Rightarrow> 'a retry_outcome" where
  "retry_loop rt pol creds name start attempts now =
     (let attempt = length attempts + 1;
          deadline = retry_deadline pol start;
          timeout = attempt_timeout pol deadline now in
      if timeout = Some 0 then RetryError attempts (Timeout name (now - start))
      else
        (let (res, took) = operation rt attempt timeout;
             now' = now + took;
             record_as = (\<lambda>reason failure.
               \<lparr>attempt_number = attempt, started_at = wall_start rt + now,
                attempt_duration = took, attempt_reason = reason, attempt_failure = failure\<rparr>) in
         case res of
           Ok value \<Rightarrow> Report value (attempts @ [record_as None None])
         | Err e \<Rightarrow>
             (let reason = retry_reason e creds (wall_start rt + now') in
              case next_delay pol reason attempt deadline now' of
                None \<Rightarrow> RetryPanic
              | Some None \<Rightarrow> RetryError (attempts @ [record_as reason None]) e
              | Some (Some delay) \<Rightarrow>
                  retry_loop rt pol creds name start (attempts @ [record_as reason (Some e)])
                    (now' + delay + oversleep rt attempt))))"
  by pat_completeness auto

termination
  by (relation "measure (\<lambda>(_, pol, _, _, _, attempts, _). attempt_limit pol - length attempts)")
    (auto dest!: next_delay_Some)

definition retry_git ::
    "'a retry_env \<Rightarrow> git_retry_policy \<Rightarrow> git_credentials option \<Rightarrow> string \<Rightarrow> instant
      \<Rightarrow> 'a retry_outcome" where
  "retry_git rt pol creds name start = retry_loop rt pol creds name start [] start"

declare retry_loop.simps [simp del]

subsection \<open>Backoff\<close>

lemma delay_after_capped: "delay_after b a = Some d \<Longrightarrow> d \<le> backoff_max b"
  by (auto simp: delay_after_def)

lemma mul_f64_mono:
  assumes "q \<le> q'" and "mul_f64 d q = Some x" and "mul_f64 d q' = Some y"
  shows "x \<le> y"
proof -
  have "round (q * of_nat d) \<le> round (q' * of_nat d)"
    by (rule round_mono) (use assms(1) in \<open>simp add: mult_right_mono\<close>)
  with assms(2,3) show ?thesis
    by (auto simp: mul_f64_def Let_def split: if_splits)
qed

lemma delay_after_mono:
  assumes "1 \<le> factor b" and "i \<le> j" and "delay_after b i = Some x" and "delay_after b j = Some y"
  shows "x \<le> y"
proof -
  let ?e = "\<lambda>n. min (n - 1) (2 ^ 31 - 1 :: nat)"
  obtain x' y' where "mul_f64 (initial b) (factor b ^ ?e i) = Some x'" "x = min x' (backoff_max b)"
    and "mul_f64 (initial b) (factor b ^ ?e j) = Some y'" "y = min y' (backoff_max b)"
    using assms(3,4) by (auto simp: delay_after_def Let_def)
  moreover have "factor b ^ ?e i \<le> factor b ^ ?e j"
    using assms(1,2) by (intro power_increasing) auto
  ultimately show ?thesis
    using mul_f64_mono by (metis min.mono order_refl)
qed

definition tripling :: git_backoff where
  "tripling = \<lparr>initial = from_secs 3, factor = 3, backoff_max = from_secs 10\<rparr>"


subsection \<open>The attempt history\<close>

text \<open>An attempt that was retried: its failure is kept, and it was worth repeating for these
  credentials at the moment it failed.\<close>

definition retried :: "git_credentials option \<Rightarrow> git_attempt \<Rightarrow> bool" where
  "retried creds a \<longleftrightarrow>
     attempt_reason a \<noteq> None \<and>
     (case attempt_failure a of
        None \<Rightarrow> False
      | Some e \<Rightarrow> attempt_reason a = retry_reason e creds (started_at a + attempt_duration a))"

definition numbered :: "git_attempt list \<Rightarrow> bool" where
  "numbered atts \<longleftrightarrow> map attempt_number atts = [1..<Suc (length atts)]"

definition in_budget :: "git_retry_policy \<Rightarrow> instant \<Rightarrow> instant \<Rightarrow> git_attempt \<Rightarrow> bool" where
  "in_budget pol wall start a \<longleftrightarrow>
     (case max_elapsed pol of None \<Rightarrow> True | Some m \<Rightarrow> started_at a < wall + start + m)"

text \<open>A finished history: every attempt but the last was retried; the last carries no failure
  of its own.\<close>

definition closed_history :: "git_credentials option \<Rightarrow> git_attempt list \<Rightarrow> bool" where
  "closed_history creds atts \<longleftrightarrow>
     atts \<noteq> [] \<and> list_all (retried creds) (butlast atts) \<and> attempt_failure (last atts) = None"

fun outcome_ok ::
    "git_retry_policy \<Rightarrow> git_credentials option \<Rightarrow> string \<Rightarrow> instant \<Rightarrow> instant
      \<Rightarrow> 'a retry_outcome \<Rightarrow> bool" where
  "outcome_ok pol creds name wall start (Report v atts) \<longleftrightarrow>
     closed_history creds atts \<and> attempt_reason (last atts) = None \<and> numbered atts \<and>
     length atts \<le> attempt_limit pol \<and> list_all (in_budget pol wall start) atts"
| "outcome_ok pol creds name wall start (RetryError atts e) \<longleftrightarrow>
     (closed_history creds atts \<or>
      list_all (retried creds) atts \<and> (\<exists>t. e = Timeout name t)) \<and> numbered atts \<and>
     length atts \<le> attempt_limit pol \<and> list_all (in_budget pol wall start) atts"
| "outcome_ok pol creds name wall start RetryPanic \<longleftrightarrow> True"

lemma attempt_timeout_started:
  assumes "attempt_timeout pol (retry_deadline pol start) now \<noteq> Some 0"
    and "max_elapsed pol = Some m"
  shows "now < start + m"
  using assms
  by (cases "per_attempt_timeout pol") (auto simp: attempt_timeout_def retry_deadline_def Let_def min_def
      split: if_splits)

lemma numbered_snoc:
  "numbered atts \<Longrightarrow> attempt_number a = Suc (length atts) \<Longrightarrow> numbered (atts @ [a])"
  by (simp add: numbered_def)

lemma retry_loop_ok:
  assumes "list_all (retried creds) atts" "numbered atts" "length atts < attempt_limit pol"
    and "list_all (in_budget pol (wall_start rt) start) atts"
  shows "outcome_ok pol creds name (wall_start rt) start
    (retry_loop rt pol creds name start atts now)"
  using assms
proof (induction "attempt_limit pol - length atts" arbitrary: atts now rule: less_induct)
  case less
  let ?tmo = "attempt_timeout pol (retry_deadline pol start) now"
  let ?a = "Suc (length atts)"
  show ?case
  proof (cases "?tmo = Some 0")
    case True
    with less.prems show ?thesis
      by (subst retry_loop.simps) (simp add: Let_def)
  next
    case False
    obtain res took where op: "operation rt ?a ?tmo = (res, took)"
      by (cases "operation rt ?a ?tmo") auto
    let ?rec = "\<lambda>reason failure.
      \<lparr>attempt_number = ?a, started_at = wall_start rt + now, attempt_duration = took,
       attempt_reason = reason, attempt_failure = failure\<rparr>"
    have budget: "in_budget pol (wall_start rt) start (?rec reason failure)" for reason failure
      using attempt_timeout_started [OF False] by (auto simp: in_budget_def split: option.split)
    show ?thesis
    proof (cases res)
      case (Inr v)
      with False op less.prems budget show ?thesis
        by (subst retry_loop.simps) (simp add: Let_def closed_history_def numbered_snoc)
    next
      case (Inl e)
      let ?reason = "retry_reason e creds (wall_start rt + (now + took))"
      let ?next = "next_delay pol ?reason ?a (retry_deadline pol start) (now + took)"
      show ?thesis
      proof (cases ?next)
        case None
        with False op Inl show ?thesis by (subst retry_loop.simps) (simp add: Let_def)
      next
        case (Some d)
        show ?thesis
        proof (cases d)
          case None
          with Some False op Inl less.prems budget show ?thesis
            by (subst retry_loop.simps) (simp add: Let_def closed_history_def numbered_snoc)
        next
          case d: (Some delay)
          then have "?a < attempt_limit pol" and "?reason \<noteq> None"
            using Some next_delay_Some by blast+
          then have "retried creds (?rec ?reason (Some e))"
            by (simp add: retried_def ac_simps)
          with \<open>?a < attempt_limit pol\<close> less.prems budget
          have "outcome_ok pol creds name (wall_start rt) start
              (retry_loop rt pol creds name start (atts @ [?rec ?reason (Some e)]) t)" for t
            by (intro less.hyps) (simp_all add: numbered_snoc)
          with Some d False op Inl show ?thesis
            by (subst retry_loop.simps) (simp add: Let_def)
        qed
      qed
    qed
  qed
qed

text \<open>
  The loop respects its policy and tells the truth about it. It makes at most
  \<open>max_attempts\<close> attempts (one when the policy says none), numbered from 1 without gaps;
  no attempt starts at or after the deadline; every attempt but the last failed in a way
  that was worth repeating at that moment and carries its failure and its reason; the
  last attempt of a report has neither.
\<close>

lemma retry_git_history:
  "outcome_ok pol creds name (wall_start rt) start (retry_git rt pol creds name start)"
  unfolding retry_git_def
  by (rule retry_loop_ok) (simp_all add: numbered_def attempt_limit_def)

fun attempts_of :: "'a retry_outcome \<Rightarrow> git_attempt list" where
  "attempts_of (Report _ atts) = atts"
| "attempts_of (RetryError atts _) = atts"
| "attempts_of RetryPanic = []"

lemma attempts_of_retried:
  assumes "outcome_ok pol creds name wall start out" and "a \<in> set (attempts_of out)"
    and "attempt_failure a = Some e"
  shows "retried creds a"
proof -
  have "retried creds a"
    if "closed_history creds atts" "a \<in> set atts" for atts
  proof -
    have "a \<noteq> last atts" using that assms(3) by (auto simp: closed_history_def)
    moreover have "atts = butlast atts @ [last atts]"
      using that by (simp add: closed_history_def)
    ultimately have "a \<in> set (butlast atts)"
      using that(2) by (metis Un_iff empty_iff empty_set set_ConsD set_append)
    with that(1) show ?thesis by (auto simp: closed_history_def list_all_iff)
  qed
  with assms show ?thesis by (cases out) (auto simp: list_all_iff)
qed

lemma retry_reason_Some:
  assumes "retry_reason e creds wall \<noteq> None"
  shows "(\<exists>f. e = Git f \<and> (\<forall>out. gf_output f = Some out \<longrightarrow> ef_termination out = Exited) \<and>
           (gf_kind f = RemoteUnavailable \<or>
            gf_kind f = AuthRejected \<and> (\<exists>c m. creds = Some c \<and> minted_at c = Some m))) \<or>
    (\<exists>after. e = RateLimited after) \<or> (\<exists>what. e = Overloaded what)"
proof -
  have "k = RemoteUnavailable \<or> k = AuthRejected \<and> age_of creds wall \<noteq> Static"
    if "decide k (age_of creds wall) \<noteq> None" for k
    using that by (cases k; cases "age_of creds wall") auto
  moreover have "\<exists>c m. creds = Some c \<and> minted_at c = Some m" if "age_of creds wall \<noteq> Static"
    using that by (auto simp: age_of_def split: option.splits bind_splits)
  ultimately show ?thesis
    using assms unfolding retry_reason_def by (fastforce split: error.splits if_splits option.splits)
qed


subsection \<open>Recovery\<close>

lemma attempt_timeout_unbounded [simp]:
  "attempt_timeout pol None now = per_attempt_timeout pol"
  by (simp add: attempt_timeout_def split: option.split)

lemma retry_loop_recovers:
  assumes pol: "max_elapsed pol = None" "per_attempt_timeout pol \<noteq> Some 0"
    and k: "k \<le> attempt_limit pol" "length atts < k"
    and ok: "fst (operation rt k (per_attempt_timeout pol)) = Ok v"
    and fails: "\<And>i. 0 < i \<Longrightarrow> i < k \<Longrightarrow>
      \<exists>e d. fst (operation rt i (per_attempt_timeout pol)) = Err e \<and>
        (\<forall>wall. retry_reason e creds wall \<noteq> None) \<and> delay_after (backoff pol) i = Some d"
  shows "\<exists>atts'. retry_loop rt pol creds name start atts now = Report v atts' \<and> length atts' = k"
  using k(2)
proof (induction "k - length atts" arbitrary: atts now)
  case (Suc n)
  let ?a = "Suc (length atts)"
  obtain res took where op: "operation rt ?a (per_attempt_timeout pol) = (res, took)"
    by (cases "operation rt ?a (per_attempt_timeout pol)") auto
  have none: "retry_deadline pol start = None"
    using pol by (simp add: retry_deadline_def)
  show ?case
  proof (cases "?a = k")
    case True
    with op ok have "res = Ok v" by simp
    with True op pol none show ?thesis
      by (subst retry_loop.simps) (simp add: Let_def)
  next
    case False
    with Suc.prems have lt: "?a < k" by simp
    from fails [OF _ this] op obtain e d where e: "res = Err e" "\<And>wall. retry_reason e creds wall \<noteq> None"
      "delay_after (backoff pol) ?a = Some d"
      by auto
    have "next_delay pol (retry_reason e creds w) ?a None t = Some (Some d)" for w t
      using e(2) [of w] lt k(1) e(3) by (auto simp: next_delay_def retry_delay_def)
    with e(1) op pol none Suc.hyps lt show ?thesis
      by (subst retry_loop.simps) (simp add: Let_def)
  qed
qed simp

text \<open>
  A transient failure is survived: without a deadline, when the operation fails in a
  way that is worth repeating until attempt \<open>k\<close>, within the policy's count, and then
  succeeds, the caller gets the value, after exactly \<open>k\<close> attempts. (Every backoff on the
  way must be representable.)
\<close>

lemma retry_git_recovers:
  assumes "max_elapsed pol = None" and "per_attempt_timeout pol \<noteq> Some 0"
    and "0 < k" and "k \<le> unat (max_attempts pol)"
    and "fst (operation rt k (per_attempt_timeout pol)) = Ok v"
    and "\<And>i. 0 < i \<Longrightarrow> i < k \<Longrightarrow>
      \<exists>e d. fst (operation rt i (per_attempt_timeout pol)) = Err e \<and>
        (\<forall>wall. retry_reason e creds wall \<noteq> None) \<and> delay_after (backoff pol) i = Some d"
  shows "\<exists>atts. retry_git rt pol creds name start = Report v atts \<and> length atts = k"
  unfolding retry_git_def
  using assms by (intro retry_loop_recovers) (auto simp: attempt_limit_def)

definition flaky_env :: "nat retry_env" where
  "flaky_env = \<lparr>wall_start = 0, oversleep = (\<lambda>_. 0),
     operation = (\<lambda>attempt _. (if attempt < 3 then Err (RateLimited None) else Ok 7, 5))\<rparr>"

definition three_attempts :: git_retry_policy where
  "three_attempts = \<lparr>max_attempts = 3, backoff = tripling, max_elapsed = None,
     per_attempt_timeout = None\<rparr>"

lemma retry_git_recovers_witness:
  "\<exists>atts. retry_git flaky_env three_attempts None ''git push'' 0 = Report 7 atts \<and> length atts = 3"
proof (rule retry_git_recovers)
  fix i :: nat
  assume "0 < i" "i < 3"
  then consider "i = 1" | "i = 2" by linarith
  then show "\<exists>e d. fst (operation flaky_env i (per_attempt_timeout three_attempts)) = Err e \<and>
      (\<forall>wall. retry_reason e None wall \<noteq> None) \<and> delay_after (backoff three_attempts) i = Some d"
    by cases (simp_all add: flaky_env_def three_attempts_def retry_reason_def delay_after_def
        tripling_def mul_f64_def Let_def)
qed (simp_all add: flaky_env_def three_attempts_def)

lemma flaky_history:
  "attempts_of (retry_git flaky_env three_attempts None ''git push'' 0) =
     [\<lparr>attempt_number = 1, started_at = 0, attempt_duration = 5,
       attempt_reason = Some TransientInfra, attempt_failure = Some (RateLimited None)\<rparr>,
      \<lparr>attempt_number = 2, started_at = 5 + from_secs 3, attempt_duration = 5,
       attempt_reason = Some TransientInfra, attempt_failure = Some (RateLimited None)\<rparr>,
      \<lparr>attempt_number = 3, started_at = 10 + from_secs 12, attempt_duration = 5,
       attempt_reason = None, attempt_failure = None\<rparr>]"
  by (simp add: retry_git_def retry_loop.simps flaky_env_def three_attempts_def retry_deadline_def
      retry_reason_def next_delay_def retry_delay_def attempt_limit_def delay_after_def tripling_def
      mul_f64_def Let_def)


end
