(* ===== verification/Git_Parse.thy ===== *)
theory Git_Parse
  imports Errors
begin

section \<open>Parsers for git's output (derived/git/parse.rs)\<close>

text \<open>
  The parsers for the machine formats of \<open>git diff\<close>, \<open>git log\<close>, \<open>git cat-file\<close> and
  \<open>git status\<close>, on the raw bytes git prints. For each format a printer states git's
  documented layout, and the parser is shown to recover what was printed. \<open>dbg\<close> is the
  text Rust's \<open>Debug\<close> gives a string, which only error messages carry. An overflowing
  \<open>usize\<close> addition is a panic (\<^const>\<open>None\<close>).
\<close>

subsection \<open>Result types (git.rs)\<close>

datatype git_change =
    ChangeAdded | ChangeCopied | ChangeDeleted | ChangeModified | ChangeRenamed
  | ChangeTypeChanged | ChangeUnmerged | ChangeUnknown

record git_diff_entry =
  diff_change :: git_change
  diff_path :: string
  diff_old_path :: "string option"
  old_mode :: "string option"
  new_mode :: "string option"
  old_blob :: "string option"
  new_blob :: "string option"
  similarity :: "nat option"

record git_numstat =
  stat_path :: string
  stat_old_path :: "string option"
  additions :: "nat option"
  deletions :: "nat option"

record git_identity =
  ident_name :: string
  ident_email :: string
  ident_date :: string

record git_commit =
  sha :: string
  tree :: string
  parents :: "string list"
  author :: git_identity
  committer :: git_identity
  message :: string

record git_status =
  current_branch :: "string option"
  head_commit :: "string option"
  detached :: bool
  ahead :: nat
  behind :: nat
  dirty_paths :: "string list"

definition malformed :: "string \<Rightarrow> string \<Rightarrow> error" where
  "malformed what detail = io_failure (''parsing '' @ what) ''other'' detail"

abbreviation lossy :: "bytes \<Rightarrow> string" where
  "lossy \<equiv> from_utf8_lossy"

subsection \<open>Diffs\<close>

abbreviation NUL :: byte where "NUL \<equiv> CHR 0x00"
abbreviation TAB :: byte where "TAB \<equiv> CHR 0x09"
abbreviation LF :: byte where "LF \<equiv> CHR 0x0A"
abbreviation SP :: byte where "SP \<equiv> CHR '' ''"

definition present :: "string \<Rightarrow> string option" where
  "present value = (if value \<noteq> [] \<and> \<not> list_all (\<lambda>b. b = CHR ''0'') value then Some value else None)"

definition change_of :: "string \<Rightarrow> git_change \<times> nat option" where
  "change_of status =
     (case status of
        [] \<Rightarrow> (ChangeUnknown, None)
      | c # rest \<Rightarrow>
          if c = CHR ''A'' then (ChangeAdded, None)
          else if c = CHR ''C'' then (ChangeCopied, parse_unsigned 8 rest)
          else if c = CHR ''D'' then (ChangeDeleted, None)
          else if c = CHR ''M'' then (ChangeModified, None)
          else if c = CHR ''R'' then (ChangeRenamed, parse_unsigned 8 rest)
          else if c = CHR ''T'' then (ChangeTypeChanged, None)
          else if c = CHR ''U'' then (ChangeUnmerged, None)
          else (ChangeUnknown, None))"

definition is_rename_or_copy :: "git_change \<Rightarrow> bool" where
  "is_rename_or_copy c \<longleftrightarrow> c = ChangeRenamed \<or> c = ChangeCopied"

definition raw_header ::
    "(string \<Rightarrow> string) \<Rightarrow> string
      \<Rightarrow> (error, string \<times> string \<times> string \<times> string \<times> string) result" where
  "raw_header dbg header =
     (case strip_prefix '':'' header of
        None \<Rightarrow> Err (malformed ''git diff --raw'' (''unexpected entry '' @ dbg header))
      | Some rest \<Rightarrow>
          (case split_on SP rest of
             [om, nm, ob, nb, status] \<Rightarrow> Ok (om, nm, ob, nb, status)
           | _ \<Rightarrow> Err (malformed ''git diff --raw'' (''short header '' @ dbg header))))"

fun raw_entries ::
    "(string \<Rightarrow> string) \<Rightarrow> bytes list \<Rightarrow> git_diff_entry list \<Rightarrow> (error, git_diff_entry list) result" where
  "raw_entries dbg [] entries = Ok entries"
| "raw_entries dbg (header # flds) entries =
     (if header = [] then raw_entries dbg flds entries
      else bind_result (raw_header dbg (lossy header)) (\<lambda>(om, nm, ob, nb, status).
        let (change, sim) = change_of status;
            entry = (\<lambda>path old. \<lparr>diff_change = change, diff_path = path, diff_old_path = old,
              old_mode = present om, new_mode = present nm, old_blob = present ob,
              new_blob = present nb, similarity = sim\<rparr>) in
        case flds of
          [] \<Rightarrow> Err (malformed ''git diff --raw'' ''entry without a path'')
        | first # rest \<Rightarrow>
            if is_rename_or_copy change
            then (case rest of
                    [] \<Rightarrow> Err (malformed ''git diff --raw'' ''rename without a new path'')
                  | second # rest' \<Rightarrow>
                      raw_entries dbg rest' (entries @ [entry (lossy second) (Some (lossy first))]))
            else raw_entries dbg rest (entries @ [entry (lossy first) None])))"

definition parse_raw_diff ::
    "(string \<Rightarrow> string) \<Rightarrow> bytes \<Rightarrow> (error, git_diff_entry list) result" where
  "parse_raw_diff dbg output = raw_entries dbg (split_on NUL output) []"

definition numstat_count :: "(string \<Rightarrow> string) \<Rightarrow> string \<Rightarrow> (error, nat option) result" where
  "numstat_count dbg text =
     (if text = ''-'' then Ok None
      else (case parse_unsigned 64 text of
              Some n \<Rightarrow> Ok (Some n)
            | None \<Rightarrow> Err (malformed ''git diff --numstat'' (''bad count '' @ dbg text))))"

definition numstat_entry ::
    "(string \<Rightarrow> string) \<Rightarrow> string \<Rightarrow> string \<Rightarrow> string option \<Rightarrow> string \<Rightarrow> (error, git_numstat) result" where
  "numstat_entry dbg added removed old path =
     bind_result (numstat_count dbg added) (\<lambda>a.
     bind_result (numstat_count dbg removed) (\<lambda>d.
       Ok \<lparr>stat_path = path, stat_old_path = old, additions = a, deletions = d\<rparr>))"

fun numstat_entries ::
    "(string \<Rightarrow> string) \<Rightarrow> bytes list \<Rightarrow> git_numstat list \<Rightarrow> (error, git_numstat list) result" where
  "numstat_entries dbg [] entries = Ok entries"
| "numstat_entries dbg (entry # flds) entries =
     (if entry = [] then numstat_entries dbg flds entries
      else case splitn 3 TAB (lossy entry) of
        [added, removed, path] \<Rightarrow>
          if path = []
          then (case flds of
                  [] \<Rightarrow> Err (malformed ''git diff --numstat'' ''rename without an old path'')
                | [old] \<Rightarrow> Err (malformed ''git diff --numstat'' ''rename without a new path'')
                | old # new # rest \<Rightarrow>
                    bind_result (numstat_entry dbg added removed (Some (lossy old)) (lossy new)) (\<lambda>e.
                      numstat_entries dbg rest (entries @ [e])))
          else bind_result (numstat_entry dbg added removed None path) (\<lambda>e.
                 numstat_entries dbg flds (entries @ [e]))
      | _ \<Rightarrow> Err (malformed ''git diff --numstat'' (''short entry '' @ dbg (lossy entry))))"

definition parse_numstat :: "(string \<Rightarrow> string) \<Rightarrow> bytes \<Rightarrow> (error, git_numstat list) result" where
  "parse_numstat dbg output = numstat_entries dbg (split_on NUL output) []"

subsection \<open>Logs\<close>

abbreviation US :: byte where "US \<equiv> CHR 0x1F"
abbreviation RS :: byte where "RS \<equiv> CHR 0x1E"

definition commit_of_record :: "(string \<Rightarrow> string) \<Rightarrow> string \<Rightarrow> (error, git_commit) result" where
  "commit_of_record dbg rec =
     (case splitn 10 US rec of
        [h, t, ps, an, ae, ad, cn, ce, cd, m] \<Rightarrow>
          Ok \<lparr>sha = h, tree = t, parents = split_whitespace ps,
              author = \<lparr>ident_name = an, ident_email = ae, ident_date = ad\<rparr>,
              committer = \<lparr>ident_name = cn, ident_email = ce, ident_date = cd\<rparr>,
              message = trim_end_matches LF m\<rparr>
      | _ \<Rightarrow> Err (malformed ''git log'' (''short record '' @ dbg rec)))"

fun log_records ::
    "(string \<Rightarrow> string) \<Rightarrow> string list \<Rightarrow> git_commit list \<Rightarrow> (error, git_commit list) result" where
  "log_records dbg [] commits = Ok commits"
| "log_records dbg (r # records) commits =
     (let rec = trim_start_matches LF r in
      if trim rec = [] then log_records dbg records commits
      else bind_result (commit_of_record dbg rec) (\<lambda>c. log_records dbg records (commits @ [c])))"

definition parse_log :: "(string \<Rightarrow> string) \<Rightarrow> string \<Rightarrow> (error, git_commit list) result" where
  "parse_log dbg output = log_records dbg (split_on RS output) []"

subsection \<open>Objects\<close>

definition batch_header :: "(string \<Rightarrow> string) \<Rightarrow> string \<Rightarrow> (error, nat option) result" where
  "batch_header dbg line =
     (case split_on SP line of
        [_, kind] \<Rightarrow> if kind = ''missing'' then Ok None
                    else Err (malformed ''git cat-file'' (''bad header '' @ dbg line))
      | _ # _ # sz # _ \<Rightarrow>
          (case parse_unsigned 64 sz of
             Some n \<Rightarrow> Ok (Some n)
           | None \<Rightarrow> Err (malformed ''git cat-file'' (''bad size in '' @ dbg line)))
      | _ \<Rightarrow> Err (malformed ''git cat-file'' (''bad header '' @ dbg line)))"

definition count_mismatch :: "string \<Rightarrow> nat \<Rightarrow> nat \<Rightarrow> error" where
  "count_mismatch what answered requested =
     malformed what (show_nat answered @ '' objects answered for '' @ show_nat requested @ '' requested'')"

text \<open>The loop over the output. \<open>rest\<close> is what follows \<open>position\<close>; \<open>len\<close> is the whole length.\<close>

function batch_loop ::
    "(string \<Rightarrow> string) \<Rightarrow> nat \<Rightarrow> nat \<Rightarrow> nat \<Rightarrow> nat \<Rightarrow> bytes \<Rightarrow> bytes option list
      \<Rightarrow> (error, bytes option list) result option" where
  "batch_loop dbg len count max_bytes position rest blobs =
     (if rest = [] \<or> count \<le> length blobs then Some (Ok blobs)
      else case split_once LF rest of
        None \<Rightarrow> Some (Ok blobs)
      | Some (line, rest') \<Rightarrow>
          let position' = position + length line + 1 in
          (case batch_header dbg (lossy line) of
            Err e \<Rightarrow> Some (Err e)
          | Ok None \<Rightarrow> batch_loop dbg len count max_bytes position' rest' (blobs @ [None])
          | Ok (Some sz) \<Rightarrow>
              if 2 ^ 64 \<le> position' + sz then None
              else if len < position' + sz
              then Some (Err (malformed ''git cat-file''
                     (''stream ends '' @ show_nat (len - position') @ '' bytes into a '' @
                      show_nat sz @ '' byte object'')))
              else
                let blob = (if sz \<le> max_bytes then Some (take sz rest') else None);
                    after = drop sz rest';
                    newline = (case after of b # _ \<Rightarrow> b = LF | [] \<Rightarrow> False) in
                batch_loop dbg len count max_bytes
                  (if newline then position' + sz + 1 else position' + sz)
                  (if newline then drop 1 after else after) (blobs @ [blob])))"
  by pat_completeness auto

termination
  by (relation "measure (\<lambda>(_, _, _, _, _, rest, _). length rest)")
    (auto simp: split_once_Some)

declare batch_loop.simps [simp del]

definition parse_batch ::
    "(string \<Rightarrow> string) \<Rightarrow> bytes \<Rightarrow> nat \<Rightarrow> nat \<Rightarrow> (error, bytes option list) result option" where
  "parse_batch dbg output count max_bytes =
     map_option (\<lambda>r. bind_result r (\<lambda>blobs.
         if length blobs \<noteq> count then Err (count_mismatch ''git cat-file'' (length blobs) count)
         else Ok blobs))
       (batch_loop dbg (length output) count max_bytes 0 output [])"

subsection \<open>Status\<close>

definition ab_part :: "git_status \<Rightarrow> string \<Rightarrow> git_status" where
  "ab_part st part =
     (case strip_prefix ''+'' part of
        Some n \<Rightarrow> st\<lparr>ahead := (case parse_unsigned 32 n of Some v \<Rightarrow> v | None \<Rightarrow> 0)\<rparr>
      | None \<Rightarrow>
          (case strip_prefix ''-'' part of
             Some n \<Rightarrow> st\<lparr>behind := (case parse_unsigned 32 n of Some v \<Rightarrow> v | None \<Rightarrow> 0)\<rparr>
           | None \<Rightarrow> st))"

definition parse_branch_header :: "string \<Rightarrow> git_status \<Rightarrow> git_status" where
  "parse_branch_header header st =
     (case split_once SP header of
        None \<Rightarrow> st
      | Some (key, value) \<Rightarrow>
          if key = ''branch.oid''
          then st\<lparr>head_commit := (if value \<noteq> ''(initial)'' then Some value else None)\<rparr>
          else if key = ''branch.head''
          then (if value = ''(detached)'' then st\<lparr>detached := True\<rparr>
                else st\<lparr>current_branch := Some value\<rparr>)
          else if key = ''branch.ab'' then foldl ab_part st (split_whitespace value)
          else st)"

definition path_after_fields :: "string \<Rightarrow> nat \<Rightarrow> string option" where
  "path_after_fields flds count =
     (let parts = splitn count SP flds in
      if count - 1 < length parts then Some (parts ! (count - 1)) else None)"

definition add_dirty :: "string option \<Rightarrow> git_status \<Rightarrow> git_status" where
  "add_dirty path st =
     (case path of None \<Rightarrow> st | Some p \<Rightarrow> st\<lparr>dirty_paths := dirty_paths st @ [p]\<rparr>)"

fun status_entries :: "string list \<Rightarrow> git_status \<Rightarrow> git_status" where
  "status_entries [] st = st"
| "status_entries (entry # entries) st =
     (case split_once SP entry of
        None \<Rightarrow> status_entries entries st
      | Some (marker, flds) \<Rightarrow>
          if marker = ''#'' then status_entries entries (parse_branch_header flds st)
          else if marker = ''1''
          then status_entries entries (add_dirty (path_after_fields flds 8) st)
          else if marker = ''2''
          then status_entries (drop 1 entries) (add_dirty (path_after_fields flds 9) st)
          else if marker = ''u''
          then status_entries entries (add_dirty (path_after_fields flds 10) st)
          else if marker = ''?'' then status_entries entries (add_dirty (Some flds) st)
          else status_entries entries st)"

definition empty_status :: git_status where
  "empty_status =
     \<lparr>current_branch = None, head_commit = None, detached = False, ahead = 0, behind = 0,
      dirty_paths = []\<rparr>"

definition parse_status_v2 :: "string \<Rightarrow> git_status" where
  "parse_status_v2 output = status_entries (split_on NUL output) empty_status"

subsection \<open>The documented layout of a diff\<close>

text \<open>Printers for what \<open>git diff --raw -z\<close> and \<open>git diff --numstat -z\<close> emit.\<close>

definition print_side :: "string \<Rightarrow> string option \<Rightarrow> string" where
  "print_side absent v = (case v of None \<Rightarrow> absent | Some x \<Rightarrow> x)"

fun change_letter :: "git_change \<Rightarrow> byte" where
  "change_letter ChangeAdded = CHR ''A''"
| "change_letter ChangeCopied = CHR ''C''"
| "change_letter ChangeDeleted = CHR ''D''"
| "change_letter ChangeModified = CHR ''M''"
| "change_letter ChangeRenamed = CHR ''R''"
| "change_letter ChangeTypeChanged = CHR ''T''"
| "change_letter ChangeUnmerged = CHR ''U''"
| "change_letter ChangeUnknown = CHR ''X''"

definition pad3 :: "nat \<Rightarrow> string" where
  "pad3 n = [byte_of (48 + n div 100), byte_of (48 + n div 10 mod 10), byte_of (48 + n mod 10)]"

definition print_status :: "git_diff_entry \<Rightarrow> string" where
  "print_status e =
     change_letter (diff_change e) # (case similarity e of None \<Rightarrow> [] | Some n \<Rightarrow> pad3 n)"

definition print_header :: "git_diff_entry \<Rightarrow> string" where
  "print_header e =
     CHR '':'' # join_with SP
       [print_side (replicate 6 (CHR ''0'')) (old_mode e), print_side (replicate 6 (CHR ''0'')) (new_mode e),
        print_side (replicate 40 (CHR ''0'')) (old_blob e), print_side (replicate 40 (CHR ''0'')) (new_blob e),
        print_status e]"

definition print_paths :: "string option \<Rightarrow> string \<Rightarrow> bytes" where
  "print_paths old path = (case old of None \<Rightarrow> [] | Some q \<Rightarrow> q @ [NUL]) @ path @ [NUL]"

definition print_raw :: "git_diff_entry \<Rightarrow> bytes" where
  "print_raw e = print_header e @ NUL # print_paths (diff_old_path e) (diff_path e)"

definition path_ok :: "string \<Rightarrow> bool" where
  "path_ok p \<longleftrightarrow> utf8_valid p \<and> NUL \<notin> set p"

definition side_ok :: "string option \<Rightarrow> bool" where
  "side_ok v \<longleftrightarrow>
     (case v of None \<Rightarrow> True
      | Some x \<Rightarrow> list_all is_ascii_alphanumeric x \<and> present x = Some x)"

definition diff_entry_ok :: "git_diff_entry \<Rightarrow> bool" where
  "diff_entry_ok e \<longleftrightarrow>
     diff_change e \<noteq> ChangeUnknown \<and> path_ok (diff_path e) \<and>
     side_ok (old_mode e) \<and> side_ok (new_mode e) \<and> side_ok (old_blob e) \<and> side_ok (new_blob e) \<and>
     (if is_rename_or_copy (diff_change e)
      then (\<exists>q n. diff_old_path e = Some q \<and> path_ok q \<and> similarity e = Some n \<and> n \<le> 100)
      else diff_old_path e = None \<and> similarity e = None)"

lemma pad3_digits: "n \<le> 100 \<Longrightarrow> list_all is_ascii_digit (pad3 n)"
  by (auto simp: pad3_def ascii_defs)

lemma parse_pad3: "n \<le> 100 \<Longrightarrow> parse_unsigned 8 (pad3 n) = Some n"
proof -
  assume n: "n \<le> 100"
  have "byte_of (48 + n div 100) \<noteq> CHR ''+''"
    using n by (simp add: byte_eq_iff)
  moreover have "digits_val 0 (pad3 n) = n"
  proof -
    have "n div 100 < 10" using n by simp
    moreover have "n div 100 = n div 10 div 10"
      using div_mult2_eq [of n 10 10] by simp
    then have "10 * (n div 100) + n div 10 mod 10 = n div 10"
      by (metis mult_div_mod_eq)
    then have "10 * (10 * (n div 100) + n div 10 mod 10) + n mod 10 = n" by simp
    ultimately show ?thesis by (simp add: pad3_def)
  qed
  ultimately show ?thesis
    using n pad3_digits [OF n] by (simp add: parse_unsigned_def Let_def pad3_def)
qed

lemma change_of_status:
  "diff_entry_ok e \<Longrightarrow> change_of (print_status e) = (diff_change e, similarity e)"
  by (cases "diff_change e")
    (auto simp: diff_entry_ok_def print_status_def change_of_def is_rename_or_copy_def parse_pad3)

lemma present_side:
  "side_ok v \<Longrightarrow> list_all (\<lambda>b. b = CHR ''0'') z \<Longrightarrow> present (print_side z v) = v"
  by (cases v) (auto simp: side_ok_def print_side_def present_def)

text \<open>The bytes that may occur in a printed header.\<close>

lemma ascii_alnum_small:
  "is_ascii_alphanumeric b \<Longrightarrow> byte_val b < 128 \<and> b \<noteq> SP \<and> b \<noteq> NUL"
  by (auto simp: ascii_defs)

lemma side_alnum:
  "side_ok v \<Longrightarrow> list_all is_ascii_alphanumeric z \<Longrightarrow> list_all is_ascii_alphanumeric (print_side z v)"
  by (cases v) (auto simp: side_ok_def print_side_def)

lemma status_alnum: "diff_entry_ok e \<Longrightarrow> list_all is_ascii_alphanumeric (print_status e)"
  using pad3_digits
  by (cases "diff_change e")
    (fastforce simp: diff_entry_ok_def print_status_def is_rename_or_copy_def ascii_defs list_all_iff)+

lemma zeros_alnum: "list_all is_ascii_alphanumeric (replicate n (CHR ''0''))"
  by (simp add: list_all_iff ascii_defs)

lemma print_header_parses:
  assumes "diff_entry_ok e"
  shows "raw_header dbg (print_header e) = Ok
      (print_side (replicate 6 (CHR ''0'')) (old_mode e), print_side (replicate 6 (CHR ''0'')) (new_mode e),
       print_side (replicate 40 (CHR ''0'')) (old_blob e), print_side (replicate 40 (CHR ''0'')) (new_blob e),
       print_status e)"
    and "NUL \<notin> set (print_header e)" and "lossy (print_header e) = print_header e"
proof -
  let ?fs = "[print_side (replicate 6 (CHR ''0'')) (old_mode e), print_side (replicate 6 (CHR ''0'')) (new_mode e),
     print_side (replicate 40 (CHR ''0'')) (old_blob e), print_side (replicate 40 (CHR ''0'')) (new_blob e),
     print_status e]"
  have fs: "\<forall>f \<in> set ?fs. list_all is_ascii_alphanumeric f"
    using assms status_alnum [OF assms] side_alnum zeros_alnum unfolding diff_entry_ok_def by simp
  have chars: "b = CHR '':'' \<or> b = SP \<or> is_ascii_alphanumeric b" if "b \<in> set (print_header e)" for b
    using that fs by (auto simp: print_header_def list_all_iff)
  from fs have "\<forall>f \<in> set ?fs. SP \<notin> set f"
    using ascii_alnum_small by (force simp: list_all_iff)
  then have "split_on SP (join_with SP ?fs) = ?fs"
    by (intro split_on_join) simp_all
  then show "raw_header dbg (print_header e) = Ok
      (print_side (replicate 6 (CHR ''0'')) (old_mode e), print_side (replicate 6 (CHR ''0'')) (new_mode e),
       print_side (replicate 40 (CHR ''0'')) (old_blob e), print_side (replicate 40 (CHR ''0'')) (new_blob e),
       print_status e)"
    unfolding raw_header_def print_header_def by (simp del: join_with.simps)
  show "NUL \<notin> set (print_header e)"
    using chars [of NUL] ascii_alnum_small [of NUL] by auto
  have "list_all (\<lambda>b. byte_val b < 128) (print_header e)"
    using chars ascii_alnum_small by (fastforce simp: list_all_iff)
  then show "lossy (print_header e) = print_header e" by simp
qed

lemma diff_entry_eta:
  "diff_old_path e = q \<Longrightarrow>
   \<lparr>diff_change = diff_change e, diff_path = diff_path e, diff_old_path = q, old_mode = old_mode e,
    new_mode = new_mode e, old_blob = old_blob e, new_blob = new_blob e,
    similarity = similarity e\<rparr> = e"
  by (cases e) simp

lemma raw_entries_print:
  assumes "diff_entry_ok e"
  shows "raw_entries dbg (split_on NUL (print_raw e @ rest)) acc =
    raw_entries dbg (split_on NUL rest) (acc @ [e])"
proof -
  have ne: "print_header e \<noteq> []" by (simp add: print_header_def)
  have sides: "present (print_side (replicate 6 (CHR ''0'')) (old_mode e)) = old_mode e"
    "present (print_side (replicate 6 (CHR ''0'')) (new_mode e)) = new_mode e"
    "present (print_side (replicate 40 (CHR ''0'')) (old_blob e)) = old_blob e"
    "present (print_side (replicate 40 (CHR ''0'')) (new_blob e)) = new_blob e"
    using assms unfolding diff_entry_ok_def by (simp_all add: present_side list_all_iff)
  note simps = ne print_header_parses [OF assms] change_of_status [OF assms] sides print_raw_def
    print_paths_def split_on_append
  show ?thesis
  proof (cases "is_rename_or_copy (diff_change e)")
    case True
    then obtain q where "diff_old_path e = Some q" "path_ok q" "path_ok (diff_path e)"
      using assms by (auto simp: diff_entry_ok_def)
    with True show ?thesis by (simp add: simps path_ok_def diff_entry_eta)
  next
    case False
    then have "diff_old_path e = None" "path_ok (diff_path e)"
      using assms by (auto simp: diff_entry_ok_def)
    with False show ?thesis by (simp add: simps path_ok_def diff_entry_eta)
  qed
qed

text \<open>
  A diff is read back exactly: for every list of entries git can report (renames and
  copies with both paths and their similarity, modes and blobs absent on one side, paths
  with any bytes but NUL), parsing the documented \<open>--raw -z\<close> output gives those entries.
\<close>

lemma parse_raw_diff_roundtrip:
  assumes "list_all diff_entry_ok es"
  shows "parse_raw_diff dbg (concat (map print_raw es)) = Ok es"
proof -
  have "raw_entries dbg (split_on NUL (concat (map print_raw es))) acc = Ok (acc @ es)" for acc
    using assms by (induction es arbitrary: acc) (simp_all add: raw_entries_print)
  then show ?thesis by (simp add: parse_raw_diff_def)
qed

definition sample_rename :: git_diff_entry where
  "sample_rename = \<lparr>diff_change = ChangeRenamed, diff_path = ''b c'', diff_old_path = Some ''a'',
     old_mode = Some ''100644'', new_mode = Some ''100755'', old_blob = Some ''ab1'',
     new_blob = None, similarity = Some 86\<rparr>"

lemma parse_raw_diff_roundtrip_witness:
  "parse_raw_diff id (concat (map print_raw [sample_rename])) = Ok [sample_rename]"
  by (rule parse_raw_diff_roundtrip)
    (simp add: sample_rename_def diff_entry_ok_def path_ok_def side_ok_def present_def
      is_rename_or_copy_def ascii_defs)

subsection \<open>Numstat\<close>

definition print_count :: "nat option \<Rightarrow> string" where
  "print_count c = (case c of None \<Rightarrow> ''-'' | Some n \<Rightarrow> show_nat n)"

definition print_numstat :: "git_numstat \<Rightarrow> bytes" where
  "print_numstat e =
     print_count (additions e) @ TAB # print_count (deletions e) @ TAB #
     (case stat_old_path e of
        None \<Rightarrow> stat_path e @ [NUL]
      | Some q \<Rightarrow> NUL # q @ NUL # stat_path e @ [NUL])"

definition count_ok :: "nat option \<Rightarrow> bool" where
  "count_ok c \<longleftrightarrow> (case c of None \<Rightarrow> True | Some n \<Rightarrow> n < 2 ^ 64)"

definition numstat_ok :: "git_numstat \<Rightarrow> bool" where
  "numstat_ok e \<longleftrightarrow>
     path_ok (stat_path e) \<and> count_ok (additions e) \<and> count_ok (deletions e) \<and>
     (case stat_old_path e of None \<Rightarrow> stat_path e \<noteq> [] | Some q \<Rightarrow> path_ok q)"

lemma show_nat_not_dash: "show_nat n \<noteq> ''-''"
proof
  assume "show_nat n = ''-''"
  moreover have "is_ascii_digit (hd (show_nat n))" by (rule show_nat_hd)
  ultimately show False by (simp add: ascii_defs)
qed

lemma numstat_count_print [simp]: "count_ok c \<Longrightarrow> numstat_count dbg (print_count c) = Ok c"
  by (cases c) (auto simp: count_ok_def print_count_def numstat_count_def show_nat_not_dash)

lemma print_count_chars: "b \<in> set (print_count c) \<Longrightarrow> is_ascii_digit b \<or> b = CHR ''-''"
  using show_nat_digits by (cases c) (fastforce simp: print_count_def list_all_iff)+

lemma print_count_small:
  "list_all (\<lambda>b. byte_val b < 128) (print_count c)" "TAB \<notin> set (print_count c)"
  "NUL \<notin> set (print_count c)"
  using print_count_chars [of _ c] by (fastforce simp: list_all_iff ascii_defs)+

lemma utf8_valid_append_ascii:
  "list_all (\<lambda>b. byte_val b < 128) a \<Longrightarrow> utf8_valid (a @ s) = utf8_valid s"
  by (induction a) (simp_all add: utf8_valid_def utf8_units_ascii)

lemma numstat_eta:
  "stat_old_path e = q \<Longrightarrow>
   \<lparr>stat_path = stat_path e, stat_old_path = q, additions = additions e, deletions = deletions e\<rparr> = e"
  by (cases e) simp

lemma numstat_entries_print:
  assumes "numstat_ok e"
  shows "numstat_entries dbg (split_on NUL (print_numstat e @ rest)) acc =
    numstat_entries dbg (split_on NUL rest) (acc @ [e])"
proof -
  define h where "h = print_count (additions e) @ TAB # print_count (deletions e) @ [TAB]"
  have ascii: "list_all (\<lambda>b. byte_val b < 128) h"
    by (simp add: h_def print_count_small)
  have nul: "NUL \<notin> set h" and ne: "h \<noteq> []"
    by (simp_all add: h_def print_count_small)
  have valid: "lossy (h @ p) = h @ p" if "utf8_valid p" for p
    using that by (simp add: utf8_valid_append_ascii [OF ascii])
  have cut: "splitn 3 TAB (h @ p) = [print_count (additions e), print_count (deletions e), p]" for p
    by (simp add: h_def print_count_small numeral_3_eq_3)
  have entry: "numstat_entry dbg (print_count (additions e)) (print_count (deletions e))
      (stat_old_path e) (stat_path e) = Ok e"
    using assms by (simp add: numstat_ok_def numstat_entry_def numstat_eta)
  show ?thesis
  proof (cases "stat_old_path e")
    case None
    have p: "print_numstat e @ rest = (h @ stat_path e) @ NUL # rest"
      by (simp add: print_numstat_def h_def None)
    have ok: "NUL \<notin> set (h @ stat_path e)" "utf8_valid (stat_path e)" "stat_path e \<noteq> []"
      using assms None nul by (auto simp: numstat_ok_def path_ok_def)
    have "split_on NUL (print_numstat e @ rest) = (h @ stat_path e) # split_on NUL rest"
      unfolding p by (rule split_on_append [OF ok(1)])
    then show ?thesis
      using ne entry None ok(3) by (simp add: valid [OF ok(2)] cut)
  next
    case (Some q)
    have "print_numstat e @ rest = h @ NUL # q @ NUL # stat_path e @ NUL # rest"
      by (simp add: print_numstat_def h_def Some)
    moreover have "path_ok q" "path_ok (stat_path e)"
      using assms Some by (auto simp: numstat_ok_def)
    ultimately show ?thesis
      using ne nul entry Some valid [of "[]"] cut [of "[]"]
      by (simp add: split_on_append path_ok_def utf8_valid_def)
  qed
qed

text \<open>
  Line counts are read back exactly, binary paths (no counts) and renames included.
\<close>

lemma parse_numstat_roundtrip:
  assumes "list_all numstat_ok es"
  shows "parse_numstat dbg (concat (map print_numstat es)) = Ok es"
proof -
  have "numstat_entries dbg (split_on NUL (concat (map print_numstat es))) acc = Ok (acc @ es)" for acc
    using assms by (induction es arbitrary: acc) (simp_all add: numstat_entries_print)
  then show ?thesis by (simp add: parse_numstat_def)
qed

definition sample_numstat :: "git_numstat list" where
  "sample_numstat =
    [\<lparr>stat_path = ''a b'', stat_old_path = None, additions = Some 12, deletions = Some 0\<rparr>,
     \<lparr>stat_path = ''new'', stat_old_path = Some ''old'', additions = None, deletions = None\<rparr>]"

lemma parse_numstat_roundtrip_witness:
  "parse_numstat id (concat (map print_numstat sample_numstat)) = Ok sample_numstat"
  by (rule parse_numstat_roundtrip)
    (simp add: sample_numstat_def numstat_ok_def path_ok_def count_ok_def)

subsection \<open>The documented layout of a log\<close>

definition print_commit :: "git_commit \<Rightarrow> string" where
  "print_commit c =
     join_with US
       [sha c, tree c, join_with SP (parents c),
        ident_name (author c), ident_email (author c), ident_date (author c),
        ident_name (committer c), ident_email (committer c), ident_date (committer c),
        message c @ [LF]] @ [RS, LF]"

definition log_text_ok :: "string \<Rightarrow> bool" where
  "log_text_ok t \<longleftrightarrow> US \<notin> set t \<and> RS \<notin> set t"

definition name_ok :: "string \<Rightarrow> bool" where
  "name_ok t \<longleftrightarrow> t \<noteq> [] \<and> list_all is_ascii_alphanumeric t"

definition identity_ok :: "git_identity \<Rightarrow> bool" where
  "identity_ok i \<longleftrightarrow> log_text_ok (ident_name i) \<and> log_text_ok (ident_email i) \<and> log_text_ok (ident_date i)"

definition commit_ok :: "git_commit \<Rightarrow> bool" where
  "commit_ok c \<longleftrightarrow>
     name_ok (sha c) \<and> name_ok (tree c) \<and> list_all name_ok (parents c) \<and>
     identity_ok (author c) \<and> identity_ok (committer c) \<and>
     RS \<notin> set (message c) \<and> (message c = [] \<or> last (message c) \<noteq> LF)"

lemma alnum_not_special:
  "is_ascii_alphanumeric b \<Longrightarrow> b \<noteq> US \<and> b \<noteq> RS \<and> b \<noteq> LF \<and> \<not> char_is_whitespace [b]"
  by (auto simp: ascii_defs char_is_whitespace_def)

lemma chars_ascii_Cons: "byte_val b < 128 \<Longrightarrow> chars (b # s) = [b] # chars s"
  by (simp add: chars_def utf8_units_ascii)

lemma chars_alnum_append:
  "list_all is_ascii_alphanumeric w \<Longrightarrow> chars (w @ s) = map (\<lambda>b. [b]) w @ chars s"
  by (induction w) (simp_all add: chars_ascii_Cons ascii_alnum_small)

lemma trim_alnum_ne:
  assumes "is_ascii_alphanumeric b"
  shows "trim (b # s) \<noteq> []"
proof -
  have c: "chars (b # s) = [b] # chars s"
    using assms by (simp add: chars_ascii_Cons ascii_alnum_small)
  have "\<not> char_is_whitespace [b]" using alnum_not_special [OF assms] by simp
  then have "[b] \<in> set (dropWhile char_is_whitespace (rev ([b] # chars s)))"
    by (induction "rev (chars s)" rule: rev_induct)
      (auto simp: dropWhile_append split: if_splits dest: set_dropWhileD)
  with \<open>\<not> char_is_whitespace [b]\<close> show ?thesis
    by (force simp: trim_def c)
qed

lemma words_of_alnum:
  "list_all is_ascii_alphanumeric w \<Longrightarrow> words_of (map (\<lambda>b. [b]) w @ us) acc = words_of us (acc @ w)"
  by (induction w arbitrary: acc) (simp_all add: alnum_not_special)

lemma split_whitespace_join:
  assumes "list_all name_ok ps"
  shows "split_whitespace (join_with SP ps) = ps"
proof -
  have sp: "char_is_whitespace [SP]" "byte_val SP < 128" by (simp_all add: char_is_whitespace_def)
  have nil: "chars [] = []" by (simp add: chars_def)
  have "words_of (chars (join_with SP ps)) [] = ps"
    using assms
  proof (induction ps)
    case (Cons p ps)
    then have p: "p \<noteq> []" "list_all is_ascii_alphanumeric p" by (simp_all add: name_ok_def)
    show ?case
    proof (cases "ps = []")
      case True
      then show ?thesis using p chars_alnum_append [OF p(2), of "[]"] words_of_alnum [OF p(2), of "[]" "[]"]
        by (simp add: nil)
    next
      case False
      then show ?thesis
        using p Cons sp by (simp add: chars_alnum_append chars_ascii_Cons words_of_alnum)
    qed
  qed (simp add: nil)
  then show ?thesis by (simp add: split_whitespace_def)
qed

lemma join_with_chars: "c \<in> set (join_with d xs) \<Longrightarrow> c = d \<or> (\<exists>x \<in> set xs. c \<in> set x)"
  by (induction xs) (auto split: if_splits)

lemma name_ok_text: "name_ok t \<Longrightarrow> log_text_ok t"
  using alnum_not_special by (force simp: name_ok_def log_text_ok_def list_all_iff)

lemma parents_text: "list_all name_ok ps \<Longrightarrow> log_text_ok (join_with SP ps)"
  using name_ok_text by (force simp: log_text_ok_def list_all_iff dest!: join_with_chars)

lemma trim_message: "m = [] \<or> last m \<noteq> LF \<Longrightarrow> trim_end_matches LF m = m"
  by (cases "m = []") (simp_all add: trim_end_matches_last, simp add: trim_end_matches_def)

lemma commit_record:
  assumes "commit_ok c"
  obtains rec where "print_commit c = rec @ [RS, LF]" "RS \<notin> set rec"
    "trim_start_matches LF (replicate k LF @ rec) = rec" "trim rec \<noteq> []"
    "commit_of_record dbg rec = Ok c"
proof -
  let ?fs = "[sha c, tree c, join_with SP (parents c),
     ident_name (author c), ident_email (author c), ident_date (author c),
     ident_name (committer c), ident_email (committer c), ident_date (committer c),
     message c @ [LF]]"
  define rec where "rec = join_with US ?fs"
  have texts: "\<forall>f \<in> set (butlast ?fs). log_text_ok f" and msg: "RS \<notin> set (message c)"
    using assms name_ok_text parents_text by (auto simp: commit_ok_def identity_ok_def)
  have rs: "RS \<notin> set rec"
    using texts msg by (auto simp: rec_def log_text_ok_def dest!: join_with_chars)
  have cut: "splitn 10 US rec = ?fs"
    unfolding rec_def by (rule splitn_join) (use texts in \<open>auto simp: log_text_ok_def\<close>)
  obtain b s where b: "rec = b # s" "is_ascii_alphanumeric b"
    using assms by (cases "sha c") (auto simp: rec_def commit_ok_def name_ok_def)
  have tr: "trim rec \<noteq> []"
    unfolding b(1) by (rule trim_alnum_ne [OF b(2)])
  have start: "trim_start_matches LF (replicate k LF @ rec) = rec"
    using alnum_not_special [OF b(2)] b(1)
    by (simp add: trim_start_matches_def dropWhile_append)
  have read: "commit_of_record dbg rec = Ok c"
    using assms cut
    by (cases c) (simp add: commit_of_record_def commit_ok_def split_whitespace_join trim_message)
  have "print_commit c = rec @ [RS, LF]"
    by (simp only: print_commit_def rec_def)
  from this rs start tr read show thesis by (rule that)
qed

lemma log_records_print:
  "list_all commit_ok cs \<Longrightarrow>
   log_records dbg (split_on RS (replicate k LF @ concat (map print_commit cs))) acc = Ok (acc @ cs)"
proof (induction cs arbitrary: k acc)
  case Nil
  have "RS \<notin> set (replicate k LF)" by simp
  moreover have "trim [] = []" by (simp add: trim_def chars_def)
  ultimately show ?case by (simp add: trim_start_matches_def Let_def)
next
  case (Cons c cs)
  then obtain rec where rec: "print_commit c = rec @ [RS, LF]" "RS \<notin> set rec"
    "trim_start_matches LF (replicate k LF @ rec) = rec" "trim rec \<noteq> []"
    "commit_of_record dbg rec = Ok c"
    using commit_record [of c k dbg] by auto
  have "split_on RS (replicate k LF @ concat (map print_commit (c # cs))) =
      (replicate k LF @ rec) # split_on RS (replicate 1 LF @ concat (map print_commit cs))"
    using rec(2) split_on_append [of RS "replicate k LF @ rec"] by (simp add: rec(1))
  then show ?case
    using rec(3-5) Cons.IH [of 1 "acc @ [c]"] Cons.prems by (simp add: Let_def)
qed

text \<open>
  A log is read back exactly: every commit with its parents, author, committer and full
  message, in order, from the separator format the crate asks git for. (No field but the
  message may hold a unit separator, none a record separator; a message does not end in
  a newline, which git adds.)
\<close>

lemma parse_log_roundtrip:
  assumes "list_all commit_ok cs"
  shows "parse_log dbg (concat (map print_commit cs)) = Ok cs"
  using log_records_print [OF assms, of dbg 0 "[]"] by (simp add: parse_log_def)

definition sample_commit :: git_commit where
  "sample_commit = \<lparr>sha = ''a1'', tree = ''b2'', parents = [''c3'', ''d4''],
     author = \<lparr>ident_name = ''A B'', ident_email = ''a@b'', ident_date = ''2026''\<rparr>,
     committer = \<lparr>ident_name = ''C'', ident_email = ''c@d'', ident_date = ''2027''\<rparr>,
     message = ''subject''\<rparr>"

lemma parse_log_roundtrip_witness:
  "parse_log id (concat (map print_commit [sample_commit, sample_commit])) =
     Ok [sample_commit, sample_commit]"
  by (rule parse_log_roundtrip)
    (simp add: sample_commit_def commit_ok_def name_ok_def identity_ok_def log_text_ok_def ascii_defs)

subsection \<open>The documented layout of an object stream\<close>

text \<open>An answer of \<open>cat-file --batch\<close>: the requested name and the object's bytes, if it exists.\<close>

definition print_object :: "string \<times> bytes option \<Rightarrow> bytes" where
  "print_object q =
     (case snd q of
        None \<Rightarrow> fst q @ '' missing'' @ [LF]
      | Some b \<Rightarrow> fst q @ '' blob '' @ show_nat (length b) @ LF # b @ [LF])"

definition kept_object :: "nat \<Rightarrow> string \<times> bytes option \<Rightarrow> bytes option" where
  "kept_object max_bytes q =
     (case snd q of None \<Rightarrow> None | Some b \<Rightarrow> if length b \<le> max_bytes then Some b else None)"

lemma name_ok_plain:
  assumes "name_ok t"
  shows "SP \<notin> set t" "LF \<notin> set t" "list_all (\<lambda>b. byte_val b < 128) t"
  using assms alnum_not_special ascii_alnum_small by (fastforce simp: name_ok_def list_all_iff)+

lemma show_nat_plain:
  "SP \<notin> set (show_nat n)" "LF \<notin> set (show_nat n)" "list_all (\<lambda>b. byte_val b < 128) (show_nat n)"
  using show_nat_digits [of n] by (fastforce simp: list_all_iff ascii_defs)+

lemma batch_header_missing: "name_ok t \<Longrightarrow> batch_header dbg (t @ '' missing'') = Ok None"
  using name_ok_plain [of t] split_on_append [of SP t "''missing''"] by (simp add: batch_header_def)

lemma batch_header_blob:
  assumes "name_ok t" and "n < 2 ^ 64"
  shows "batch_header dbg (t @ '' blob '' @ show_nat n) = Ok (Some n)"
proof -
  have "split_on SP (t @ SP # (''blob'' @ SP # show_nat n)) = t # split_on SP (''blob'' @ SP # show_nat n)"
    by (rule split_on_append) (use name_ok_plain [OF assms(1)] in simp)
  moreover have "split_on SP (''blob'' @ SP # show_nat n) = ''blob'' # split_on SP (show_nat n)"
    by (rule split_on_append) simp
  moreover have "split_on SP (show_nat n) = [show_nat n]"
    using show_nat_plain [of n] by simp
  ultimately show ?thesis
    using assms(2) by (simp add: batch_header_def)
qed

lemma batch_loop_print:
  assumes name: "name_ok (fst q)" and len: "position + length (print_object q @ rest) = len" "len < 2 ^ 64"
    and count: "length blobs < count"
  shows "batch_loop dbg len count m position (print_object q @ rest) blobs =
    batch_loop dbg len count m (position + length (print_object q)) rest (blobs @ [kept_object m q])"
proof (cases "snd q")
  case None
  let ?line = "fst q @ '' missing''"
  have "print_object q @ rest = ?line @ LF # rest" by (simp add: print_object_def None)
  moreover have "split_once LF (?line @ LF # rest) = Some (?line, rest)"
    by (rule split_once_append) (use name_ok_plain [OF name] in simp)
  moreover have "lossy ?line = ?line"
    using name_ok_plain [OF name] by simp
  ultimately show ?thesis
    using count batch_header_missing [OF name, of dbg]
    by (subst batch_loop.simps) (simp add: kept_object_def None print_object_def Let_def)
next
  case (Some b)
  define line where "line = fst q @ '' blob '' @ show_nat (length b)"
  have p: "print_object q = line @ LF # b @ [LF]" by (simp add: print_object_def Some line_def)
  have cut: "split_once LF (line @ LF # b @ LF # rest) = Some (line, b @ LF # rest)"
    by (rule split_once_append)
      (use name_ok_plain [OF name] show_nat_plain [of "length b"] in \<open>simp add: line_def\<close>)
  have l: "lossy line = line"
    using name_ok_plain [OF name] show_nat_plain [of "length b"] by (simp add: line_def)
  have fits: "position + length line + 1 + length b < len"
    using len(1) unfolding p by simp
  have h: "batch_header dbg line = Ok (Some (length b))"
    unfolding line_def using fits len(2) by (intro batch_header_blob [OF name]) simp
  have "batch_loop dbg len count m position (line @ LF # b @ LF # rest) blobs =
    batch_loop dbg len count m (position + length line + 1 + length b + 1) rest
      (blobs @ [if length b \<le> m then Some b else None])"
    using fits len(2) count by (subst batch_loop.simps) (simp add: cut l h Let_def)
  then show ?thesis by (simp add: p kept_object_def Some add.assoc)
qed

lemma batch_loop_prints:
  assumes "list_all (\<lambda>q. name_ok (fst q)) qs"
    and "position + length (concat (map print_object qs)) = len" "len < 2 ^ 64"
    and "length blobs + length qs = count"
  shows "batch_loop dbg len count m position (concat (map print_object qs)) blobs =
    Some (Ok (blobs @ map (kept_object m) qs))"
  using assms
proof (induction qs arbitrary: position blobs)
  case Nil
  then show ?case by (subst batch_loop.simps) simp
next
  case (Cons q qs)
  then show ?case by (simp add: batch_loop_print)
qed

text \<open>
  Objects are read back exactly: each requested object in request order, missing ones
  and ones over the size limit as absent, whatever bytes the objects hold, newlines
  and text that looks like a header included.
\<close>

lemma parse_batch_roundtrip:
  assumes "list_all (\<lambda>q. name_ok (fst q)) qs"
    and "length (concat (map print_object qs)) < 2 ^ 64"
  shows "parse_batch dbg (concat (map print_object qs)) (length qs) m =
    Some (Ok (map (kept_object m) qs))"
  using batch_loop_prints [OF assms(1) _ assms(2), of 0 "[]"] by (simp add: parse_batch_def)

lemma parse_batch_roundtrip_witness:
  "parse_batch id (concat (map print_object [(''a'', Some ''x b 1''), (''b'', None)])) 2 100 =
     Some (Ok [Some ''x b 1'', None])"
proof -
  let ?qs = "[(''a'', Some ''x b 1''), (''b'', None)]"
  have "parse_batch id (concat (map print_object ?qs)) (length ?qs) 100 =
      Some (Ok (map (kept_object 100) ?qs))"
    by (rule parse_batch_roundtrip)
      (simp_all add: name_ok_def ascii_defs print_object_def show_nat.simps)
  then show ?thesis by (simp add: kept_object_def numeral_2_eq_2)
qed

text \<open>
  The size in a header is not checked before it is added to the position: a stream that
  announces an object of \<open>2 ^ 64 - 1\<close> bytes makes the addition overflow, a panic where
  the code means to report a malformed stream.
\<close>

lemma parse_batch_overflows:
  "parse_batch dbg (''a blob 18446744073709551615'' @ [LF]) 1 m = None"
proof -
  let ?line = "''a blob 18446744073709551615''"
  have "batch_header dbg ?line = Ok (Some 18446744073709551615)"
    by (simp add: batch_header_def parse_unsigned_def ascii_defs)
  moreover have "lossy ?line = ?line" by simp
  moreover have "split_once LF (?line @ [LF]) = Some (?line, [])"
    by (rule split_once_append) simp
  ultimately show ?thesis
    unfolding parse_batch_def by (subst batch_loop.simps) (simp add: Let_def)
qed

subsection \<open>The documented layout of a status\<close>

text \<open>
  The lines of \<open>git status --porcelain=v2 -z --branch\<close>: an ordinary change has seven fields
  before its path, a rename eight and the original path as a field of its own, an unmerged
  path nine.
\<close>

datatype status_line =
    BranchHeader string string
  | Ordinary "string list" string
  | Moved "string list" string string
  | Unmerged "string list" string
  | Untracked string
  | Ignored string

fun print_line :: "status_line \<Rightarrow> bytes" where
  "print_line (BranchHeader key value) = ''# '' @ key @ SP # value @ [NUL]"
| "print_line (Ordinary flds path) = ''1 '' @ join_with SP (flds @ [path]) @ [NUL]"
| "print_line (Moved flds path original) = ''2 '' @ join_with SP (flds @ [path]) @ NUL # original @ [NUL]"
| "print_line (Unmerged flds path) = ''u '' @ join_with SP (flds @ [path]) @ [NUL]"
| "print_line (Untracked path) = ''? '' @ path @ [NUL]"
| "print_line (Ignored path) = ''! '' @ path @ [NUL]"

definition field_ok :: "string \<Rightarrow> bool" where
  "field_ok f \<longleftrightarrow> SP \<notin> set f \<and> NUL \<notin> set f"

fun line_ok :: "status_line \<Rightarrow> bool" where
  "line_ok (BranchHeader key value) \<longleftrightarrow> field_ok key \<and> NUL \<notin> set value"
| "line_ok (Ordinary flds path) \<longleftrightarrow> length flds = 7 \<and> list_all field_ok flds \<and> NUL \<notin> set path"
| "line_ok (Moved flds path original) \<longleftrightarrow>
     length flds = 8 \<and> list_all field_ok flds \<and> NUL \<notin> set path \<and> NUL \<notin> set original"
| "line_ok (Unmerged flds path) \<longleftrightarrow> length flds = 9 \<and> list_all field_ok flds \<and> NUL \<notin> set path"
| "line_ok (Untracked path) \<longleftrightarrow> NUL \<notin> set path"
| "line_ok (Ignored path) \<longleftrightarrow> NUL \<notin> set path"

text \<open>What a line means: a header sets its field, a change adds its path.\<close>

fun apply_line :: "status_line \<Rightarrow> git_status \<Rightarrow> git_status" where
  "apply_line (BranchHeader key value) st = parse_branch_header (key @ SP # value) st"
| "apply_line (Ordinary flds path) st = st\<lparr>dirty_paths := dirty_paths st @ [path]\<rparr>"
| "apply_line (Moved flds path original) st = st\<lparr>dirty_paths := dirty_paths st @ [path]\<rparr>"
| "apply_line (Unmerged flds path) st = st\<lparr>dirty_paths := dirty_paths st @ [path]\<rparr>"
| "apply_line (Untracked path) st = st\<lparr>dirty_paths := dirty_paths st @ [path]\<rparr>"
| "apply_line (Ignored path) st = st"

lemma path_after_fields_join:
  assumes "list_all field_ok flds" and "length flds = n"
  shows "path_after_fields (join_with SP (flds @ [path])) (Suc n) = Some path"
proof -
  have "splitn (Suc n) SP (join_with SP (flds @ [path])) = flds @ [path]"
    by (rule splitn_join) (use assms in \<open>auto simp: list_all_iff field_ok_def\<close>)
  then show ?thesis
    using assms(2) by (simp add: path_after_fields_def Let_def nth_append)
qed

lemma joined_no_nul:
  "list_all field_ok flds \<Longrightarrow> NUL \<notin> set path \<Longrightarrow> NUL \<notin> set (join_with SP (flds @ [path]))"
  by (auto simp: list_all_iff field_ok_def dest!: join_with_chars)

lemma status_entries_line:
  assumes "line_ok l"
  shows "status_entries (split_on NUL (print_line l @ rest)) st =
    status_entries (split_on NUL rest) (apply_line l st)"
proof -
  have marked: "split_on NUL (m # SP # body @ NUL # r) = (m # SP # body) # split_on NUL r"
    if "NUL \<notin> set body" "m \<noteq> NUL" for m body r
    using that split_on_append [of NUL "m # SP # body" r] by simp
  show ?thesis
  proof (cases l)
    case (BranchHeader key val)
    with assms marked [of "key @ SP # val" "CHR ''#''" rest] show ?thesis
      by (simp add: field_ok_def)
  next
    case (Ordinary flds path)
    with assms have "NUL \<notin> set (join_with SP (flds @ [path]))"
      "path_after_fields (join_with SP (flds @ [path])) 8 = Some path"
      using joined_no_nul path_after_fields_join [of flds 7 path] by simp_all
    with Ordinary marked [of "join_with SP (flds @ [path])" "CHR ''1''" rest] show ?thesis
      by (simp add: add_dirty_def)
  next
    case (Moved flds path original)
    with assms have "NUL \<notin> set (join_with SP (flds @ [path]))" "NUL \<notin> set original"
      "path_after_fields (join_with SP (flds @ [path])) 9 = Some path"
      using joined_no_nul path_after_fields_join [of flds 8 path] by simp_all
    with Moved marked [of "join_with SP (flds @ [path])" "CHR ''2''" "original @ NUL # rest"] show ?thesis
      by (simp add: add_dirty_def split_on_append)
  next
    case (Unmerged flds path)
    with assms have "NUL \<notin> set (join_with SP (flds @ [path]))"
      "path_after_fields (join_with SP (flds @ [path])) 10 = Some path"
      using joined_no_nul path_after_fields_join [of flds 9 path] by simp_all
    with Unmerged marked [of "join_with SP (flds @ [path])" "CHR ''u''" rest] show ?thesis
      by (simp add: add_dirty_def)
  next
    case (Untracked path)
    with assms marked [of path "CHR ''?''" rest] show ?thesis by (simp add: add_dirty_def)
  next
    case (Ignored path)
    with assms marked [of path "CHR ''!''" rest] show ?thesis by simp
  qed
qed

fun dirty_path :: "status_line \<Rightarrow> string list" where
  "dirty_path (Ordinary _ path) = [path]"
| "dirty_path (Moved _ path _) = [path]"
| "dirty_path (Unmerged _ path) = [path]"
| "dirty_path (Untracked path) = [path]"
| "dirty_path _ = []"

lemma ab_parts_dirty: "dirty_paths (foldl ab_part st ps) = dirty_paths st"
  by (induction ps arbitrary: st) (auto simp: ab_part_def split: option.splits)

lemma header_dirty: "dirty_paths (parse_branch_header h st) = dirty_paths st"
  by (auto simp: parse_branch_header_def ab_parts_dirty split: option.splits)

lemma fold_lines_dirty:
  "dirty_paths (fold apply_line ls st) = dirty_paths st @ concat (map dirty_path ls)"
proof (induction ls arbitrary: st)
  case (Cons l ls)
  then show ?case by (cases l) (simp_all add: header_dirty)
qed simp

lemma status_entries_lines:
  "list_all line_ok ls \<Longrightarrow>
   status_entries (split_on NUL (concat (map print_line ls))) st = fold apply_line ls st"
  by (induction ls arbitrary: st) (simp_all add: status_entries_line)

text \<open>
  A status is read line by line as documented, and no change is missed: the dirty paths
  are exactly the paths of the ordinary, renamed, unmerged and untracked entries, in
  order, spaces in paths and any original path of a rename included, so a workspace
  counts as clean only when git reported no such entry.
\<close>

lemma parse_status_reads_every_change:
  assumes "list_all line_ok ls"
  shows "parse_status_v2 (concat (map print_line ls)) = fold apply_line ls empty_status \<and>
    dirty_paths (parse_status_v2 (concat (map print_line ls))) = concat (map dirty_path ls)"
  using status_entries_lines [OF assms, of empty_status]
  by (simp add: parse_status_v2_def fold_lines_dirty empty_status_def)

definition sample_lines :: "status_line list" where
  "sample_lines =
    [BranchHeader ''branch.head'' ''main'',
     Moved (replicate 8 ''f'') ''new name'' ''? old'', Untracked ''u v'']"

lemma parse_status_reads_every_change_witness:
  "dirty_paths (parse_status_v2 (concat (map print_line sample_lines))) = [''new name'', ''u v'']"
  using parse_status_reads_every_change [of sample_lines]
  by (simp add: sample_lines_def field_ok_def header_dirty empty_status_def eval_nat_numeral)

end
