(* ===== verification/Transport_Limits.thy ===== *)
theory Transport_Limits
  imports Errors
begin

section \<open>Transport budgets (limits.rs)\<close>

text \<open>
  The limits of one connection with their validation, and the semaphores that enforce
  them. A semaphore is the number of permits it has available; admission never waits. The
  locale \<open>ledger\<close> is what every budget of the transport promises: a step moves permits
  between the semaphore and the things that hold them and never makes or loses one, so
  that what is held never exceeds the limit and comes back when nothing is held.
\<close>

record transport_limits =
  active_io :: nat
  pending_opens :: nat
  unauthenticated_handshakes :: nat
  provider_requests :: nat
  reserved_requests :: nat
  control_message_bytes :: nat
  queued_control_bytes :: nat
  reserved_control_bytes :: nat
  event_queue_bytes :: nat
  event_queue_messages :: nat
  retained_output_bytes :: nat
  buffered_value_bytes :: nat
  cached_handles :: nat
  output_progress_timeout :: duration
  hard_cancel_drain_timeout :: duration
  open_timeout :: duration
  shutdown_timeout :: duration

definition default_limits :: transport_limits where
  "default_limits =
     \<lparr>active_io = 1024, pending_opens = 1024, unauthenticated_handshakes = 64,
      provider_requests = 2048, reserved_requests = 64, control_message_bytes = 1024 * 1024,
      queued_control_bytes = 8 * 1024 * 1024, reserved_control_bytes = 1024 * 1024,
      event_queue_bytes = 1024 * 1024, event_queue_messages = 256,
      retained_output_bytes = 16 * 1024 * 1024, buffered_value_bytes = 16 * 1024 * 1024,
      cached_handles = 4096, output_progress_timeout = from_secs 30,
      hard_cancel_drain_timeout = from_secs 5, open_timeout = from_secs 10,
      shutdown_timeout = from_secs 5\<rparr>"

text \<open>\<open>Semaphore::MAX_PERMITS\<close> of tokio is \<open>usize::MAX >> 3\<close>.\<close>

definition max_permits :: nat where
  "max_permits = min (2 ^ 61 - 1) (2 ^ 32 - 1)"

definition count_limits :: "transport_limits \<Rightarrow> (string \<times> nat) list" where
  "count_limits l =
     [(''active_io'', active_io l), (''pending_opens'', pending_opens l),
      (''unauthenticated_handshakes'', unauthenticated_handshakes l),
      (''provider_requests'', provider_requests l), (''reserved_requests'', reserved_requests l),
      (''control_message_bytes'', control_message_bytes l),
      (''queued_control_bytes'', queued_control_bytes l),
      (''reserved_control_bytes'', reserved_control_bytes l),
      (''event_queue_bytes'', event_queue_bytes l),
      (''event_queue_messages'', event_queue_messages l),
      (''retained_output_bytes'', retained_output_bytes l),
      (''buffered_value_bytes'', buffered_value_bytes l), (''cached_handles'', cached_handles l)]"

definition time_limits :: "transport_limits \<Rightarrow> (string \<times> duration) list" where
  "time_limits l =
     [(''output_progress_timeout'', output_progress_timeout l),
      (''hard_cancel_drain_timeout'', hard_cancel_drain_timeout l),
      (''open_timeout'', open_timeout l), (''shutdown_timeout'', shutdown_timeout l)]"

fun check_each :: "(nat \<Rightarrow> bool) \<Rightarrow> string \<Rightarrow> (string \<times> nat) list \<Rightarrow> (error, unit) result" where
  "check_each ok reason [] = Ok ()"
| "check_each ok reason ((name, v) # rest) =
     (if ok v then check_each ok reason rest else Err (InvalidSpec name reason))"

definition validate_limits :: "transport_limits \<Rightarrow> (error, unit) result" where
  "validate_limits l =
     bind_result (check_each (\<lambda>v. \<not> (v = 0 \<or> max_permits < v))
        ''must be positive and fit the transport budget'' (count_limits l)) (\<lambda>_.
     check_each (\<lambda>d. \<not> (d = 0 \<or> from_secs 86400 < d)) ''must be positive and at most one day''
       (time_limits l))"

subsection \<open>Permits\<close>

type_synonym semaphore = nat

definition try_acquire_many :: "nat \<Rightarrow> semaphore \<Rightarrow> semaphore option" where
  "try_acquire_many n s = (if n \<le> s then Some (s - n) else None)"

definition acquire :: "string \<Rightarrow> semaphore \<Rightarrow> (error, semaphore) result" where
  "acquire limit s = (case try_acquire_many 1 s of None \<Rightarrow> Err (Overloaded limit) | Some s' \<Rightarrow> Ok s')"

definition release_many :: "nat \<Rightarrow> semaphore \<Rightarrow> semaphore" where
  "release_many n s = s + n"

lemma try_acquire_many_Some: "try_acquire_many n s = Some s' \<longleftrightarrow> n \<le> s \<and> s' = s - n"
  by (auto simp: try_acquire_many_def)

lemma acquire_Ok: "acquire limit s = Ok s' \<longleftrightarrow> s = Suc s'"
  by (auto simp: acquire_def try_acquire_many_def)

lemma acquire_Err: "acquire limit s = Err e \<longleftrightarrow> s = 0 \<and> e = Overloaded limit"
  by (auto simp: acquire_def try_acquire_many_def)

locale ledger =
  fixes step :: "'s \<Rightarrow> 's \<Rightarrow> bool"
    and good :: "'s \<Rightarrow> bool"
    and available :: "'s \<Rightarrow> nat"
    and held :: "'s \<Rightarrow> nat"
  assumes good_step: "good s \<Longrightarrow> step s s' \<Longrightarrow> good s'"
    and conserved: "good s \<Longrightarrow> step s s' \<Longrightarrow> available s' + held s' = available s + held s"
begin

lemma good_reachable: "step\<^sup>*\<^sup>* s s' \<Longrightarrow> good s \<Longrightarrow> good s'"
  by (induction rule: rtranclp_induct) (auto intro: good_step)

lemma ledger_conserved:
  assumes "step\<^sup>*\<^sup>* s s'" and "good s"
  shows "available s' + held s' = available s + held s"
  using assms(1)
proof (induction rule: rtranclp_induct)
  case (step t u)
  then show ?case using conserved [OF good_reachable [OF step(1) assms(2)] step(2)] by simp
qed simp

lemma held_bounded: "step\<^sup>*\<^sup>* s s' \<Longrightarrow> good s \<Longrightarrow> held s = 0 \<Longrightarrow> held s' \<le> available s"
  using ledger_conserved [of s s'] by simp

lemma all_returned:
  "step\<^sup>*\<^sup>* s s' \<Longrightarrow> good s \<Longrightarrow> held s = 0 \<Longrightarrow> held s' = 0 \<Longrightarrow> available s' = available s"
  using ledger_conserved [of s s'] by simp

end

subsection \<open>Validation\<close>

lemma check_each_Ok: "check_each ok reason xs = Ok () \<longleftrightarrow> (\<forall>(n, v) \<in> set xs. ok v)"
  by (induction xs) (auto split: if_splits)

lemma default_limits_valid: "validate_limits default_limits = Ok ()"
  by (simp add: validate_limits_def count_limits_def time_limits_def default_limits_def
      max_permits_def)

lemma validate_limits_Ok:
  "validate_limits l = Ok () \<longleftrightarrow>
     (\<forall>(n, v) \<in> set (count_limits l). 0 < v \<and> v < 2 ^ 32) \<and>
     (\<forall>(n, d) \<in> set (time_limits l). 0 < d \<and> d \<le> from_secs 86400)"
  by (auto simp: validate_limits_def bind_result_Ok_iff check_each_Ok max_permits_def)

end
