(* ===== verification/Control.thy ===== *)
theory Control
  imports Transport_Limits Wire_Errors
begin

section \<open>The control connection (control.rs, wire.rs)\<close>

text \<open>
  JSON-RPC messages travel as lines. The sender measures a message before it takes the
  bytes from its lane's budget, and refuses what does not fit; the writer drains the lanes
  in priority order and returns the bytes once a message is written. \<open>render\<close> are the
  pieces \<open>serde_json\<close> writes for a message: compact JSON, so without a line feed. The
  reader takes lines off a buffered stream, given as the chunks \<open>fill_buf\<close> returns.
\<close>

subsection \<open>Messages\<close>

record 'w message =
  msg_id :: "u64 option"
  msg_method :: "string option"
  msg_params :: "'w option"
  msg_result :: "'w option"
  msg_error :: "'w wire_error option"

definition request :: "u64 \<Rightarrow> string \<Rightarrow> 'w \<Rightarrow> 'w message" where
  "request i method params =
     \<lparr>msg_id = Some i, msg_method = Some method, msg_params = Some params, msg_result = None,
      msg_error = None\<rparr>"

definition notification :: "string \<Rightarrow> 'w \<Rightarrow> 'w message" where
  "notification method params =
     \<lparr>msg_id = None, msg_method = Some method, msg_params = Some params, msg_result = None,
      msg_error = None\<rparr>"

definition response :: "u64 \<Rightarrow> 'w \<Rightarrow> 'w message" where
  "response i value =
     \<lparr>msg_id = Some i, msg_method = None, msg_params = None, msg_result = Some value,
      msg_error = None\<rparr>"

definition error_response :: "u64 \<Rightarrow> 'w wire_error \<Rightarrow> 'w message" where
  "error_response i e =
     \<lparr>msg_id = Some i, msg_method = None, msg_params = None, msg_result = None,
      msg_error = Some e\<rparr>"

subsection \<open>Reading lines\<close>

abbreviation newline :: byte where "newline \<equiv> CHR 0x0A"

definition limit_exceeded :: string where
  "limit_exceeded = ''control message limit exceeded''"

definition incomplete_message :: string where
  "incomplete_message = ''incomplete control message''"

fun read_line ::
    "nat \<Rightarrow> bytes list \<Rightarrow> bytes \<Rightarrow> bytes list \<times> bytes \<times> (string, bytes option) result" where
  "read_line m [] partial =
     ([], partial, if partial = [] then Ok None else Err incomplete_message)"
| "read_line m (available # chunks) partial =
     (if available = []
      then (available # chunks, partial,
            if partial = [] then Ok None else Err incomplete_message)
      else case split_once newline available of
        Some (line, rest) \<Rightarrow>
          if m - length partial < length line + 1
          then (available # chunks, partial, Err limit_exceeded)
          else (if rest = [] then chunks else rest # chunks, [], Ok (Some (partial @ line @ [newline])))
      | None \<Rightarrow>
          if m - length partial < length available
          then (available # chunks, partial, Err limit_exceeded)
          else read_line m chunks (partial @ available))"

text \<open>The loop of a connection: lines until the stream ends or fails.\<close>

lemma read_line_consumes:
  "read_line m chunks partial = (chunks', partial', Ok (Some line)) \<Longrightarrow>
   length (concat chunks') < length (concat chunks) \<and> partial' = []"
  by (induction m chunks partial rule: read_line.induct)
    (fastforce split: if_splits option.splits prod.splits simp: split_once_Some)+

function read_lines :: "nat \<Rightarrow> bytes list \<Rightarrow> bytes list \<times> (string, unit) result" where
  "read_lines m chunks =
     (case read_line m chunks [] of
        (chunks', _, Ok (Some line)) \<Rightarrow>
          (let (lines, end) = read_lines m chunks' in (line # lines, end))
      | (_, _, Ok None) \<Rightarrow> ([], Ok ())
      | (_, _, Err e) \<Rightarrow> ([], Err e))"
  by pat_completeness auto

termination
  by (relation "measure (\<lambda>(_, chunks). length (concat chunks))")
    (auto dest: read_line_consumes [OF sym])

declare read_lines.simps [simp del]

subsection \<open>Measuring and encoding\<close>

fun count_writes :: "nat \<Rightarrow> bytes list \<Rightarrow> nat \<Rightarrow> nat option" where
  "count_writes m [] n = Some n"
| "count_writes m (piece # pieces) n =
     (if m - n < length piece then None else count_writes m pieces (n + length piece))"

definition message_size :: "bytes list \<Rightarrow> nat \<Rightarrow> (error, nat) result" where
  "message_size pieces m =
     (case count_writes m pieces 0 of
        None \<Rightarrow> Err (LimitExceeded ''control_message_bytes'' m)
      | Some n \<Rightarrow>
          (case count_writes m [[newline]] n of
             None \<Rightarrow> Err (LimitExceeded ''control_message_bytes'' m)
           | Some n' \<Rightarrow> Ok n'))"

definition encode :: "bytes list \<Rightarrow> bytes" where
  "encode pieces = concat pieces @ [newline]"

lemma count_writes_Some:
  "n \<le> m \<Longrightarrow>
   count_writes m pieces n = (if n + length (concat pieces) \<le> m then Some (n + length (concat pieces)) else None)"
  by (induction pieces arbitrary: n) auto

lemma message_size_eq:
  "message_size pieces m =
     (if length (encode pieces) \<le> m then Ok (length (encode pieces))
      else Err (LimitExceeded ''control_message_bytes'' m))"
  by (simp add: message_size_def encode_def count_writes_Some)

subsection \<open>The queues\<close>

datatype lane_id = Normal | Events | Priority

record lane =
  lane_bytes :: semaphore
  lane_slots :: nat
  lane_queue :: "bytes list"

record control =
  lanes :: "lane_id \<Rightarrow> lane"
  in_flight :: "(lane_id \<times> bytes) list"
  max_message :: nat
  closed :: bool

definition queue :: "transport_limits \<Rightarrow> control" where
  "queue l =
     \<lparr>lanes = (\<lambda>i. case i of
         Normal \<Rightarrow> \<lparr>lane_bytes = queued_control_bytes l, lane_slots = provider_requests l, lane_queue = []\<rparr>
       | Events \<Rightarrow> \<lparr>lane_bytes = event_queue_bytes l, lane_slots = event_queue_messages l, lane_queue = []\<rparr>
       | Priority \<Rightarrow> \<lparr>lane_bytes = reserved_control_bytes l, lane_slots = reserved_requests l, lane_queue = []\<rparr>),
      in_flight = [], max_message = control_message_bytes l, closed = False\<rparr>"

definition host_event :: string where
  "host_event = ''host/event''"

definition lane_for :: "'w message \<Rightarrow> bool \<Rightarrow> lane_id" where
  "lane_for m priority =
     (if msg_method m = Some host_event then Events else if priority then Priority else Normal)"

definition enqueue :: "lane_id \<Rightarrow> bytes \<Rightarrow> semaphore \<Rightarrow> control \<Rightarrow> control" where
  "enqueue i b bytes st =
     st\<lparr>lanes := (lanes st)(i := (lanes st i)\<lparr>lane_bytes := bytes, lane_queue := lane_queue (lanes st i) @ [b]\<rparr>)\<rparr>"

definition send ::
    "('w message \<Rightarrow> bytes list) \<Rightarrow> 'w message \<Rightarrow> bool \<Rightarrow> control \<Rightarrow> control \<times> (error, unit) result" where
  "send render m priority st =
     (case message_size (render m) (max_message st) of
        Err e \<Rightarrow> (st, Err e)
      | Ok n \<Rightarrow>
          (let i = lane_for m priority; ln = lanes st i in
           case try_acquire_many n (lane_bytes ln) of
             None \<Rightarrow> (st, Err (Overloaded ''queued_control_bytes''))
           | Some left \<Rightarrow>
               if closed st then (st, Err (transport ''control writer closed''))
               else if lane_slots ln \<le> length (lane_queue ln)
               then (st, Err (Overloaded ''queued_control_messages''))
               else (enqueue i (encode (render m)) left st, Ok ())))"

text \<open>\<open>deliver\<close> waits for its bytes and its slot; this is the moment the wait ends, either
  because both are there or because the timeout passed.\<close>

definition deliver ::
    "('w message \<Rightarrow> bytes list) \<Rightarrow> 'w message \<Rightarrow> bool \<Rightarrow> control \<Rightarrow> control \<times> (error, unit) result" where
  "deliver render m priority st =
     (case message_size (render m) (max_message st) of
        Err e \<Rightarrow> (st, Err e)
      | Ok n \<Rightarrow>
          (let i = (if priority then Priority else Normal); ln = lanes st i in
           case try_acquire_many n (lane_bytes ln) of
             None \<Rightarrow> (st, Err (transport ''control response delivery timed out''))
           | Some left \<Rightarrow>
               if closed st then (st, Err (transport ''control writer closed''))
               else if lane_slots ln \<le> length (lane_queue ln)
               then (st, Err (transport ''control response delivery timed out''))
               else (enqueue i (encode (render m)) left st, Ok ())))"

definition take_from :: "lane_id \<Rightarrow> control \<Rightarrow> control \<times> bytes option" where
  "take_from i st =
     (case lane_queue (lanes st i) of
        [] \<Rightarrow> (st, None)
      | b # bs \<Rightarrow>
          (st\<lparr>lanes := (lanes st)(i := (lanes st i)\<lparr>lane_queue := bs\<rparr>), in_flight := in_flight st @ [(i, b)]\<rparr>,
           Some b))"

definition recv :: "control \<Rightarrow> control \<times> bytes option" where
  "recv st =
     (if lane_queue (lanes st Priority) \<noteq> [] then take_from Priority st
      else if lane_queue (lanes st Normal) \<noteq> [] then take_from Normal st
      else take_from Events st)"

text \<open>The writer is done with the oldest message it holds: its permit goes back.\<close>

definition written :: "control \<Rightarrow> control" where
  "written st =
     (case in_flight st of
        [] \<Rightarrow> st
      | (i, b) # rest \<Rightarrow>
          st\<lparr>lanes := (lanes st)(i := (lanes st i)\<lparr>lane_bytes := release_many (length b) (lane_bytes (lanes st i))\<rparr>),
             in_flight := rest\<rparr>)"

datatype 'w control_op = Send "'w message" bool | Deliver "'w message" bool | Recv | Written | Close

datatype control_event =
    Accepted lane_id bytes | Refused error | Received lane_id bytes

definition replied :: "lane_id \<Rightarrow> bytes \<Rightarrow> control \<times> (error, unit) result \<Rightarrow> control \<times> control_event list" where
  "replied i b r = (fst r, [case snd r of Ok _ \<Rightarrow> Accepted i b | Err e \<Rightarrow> Refused e])"

definition first_lane :: "control \<Rightarrow> lane_id" where
  "first_lane st =
     (if lane_queue (lanes st Priority) \<noteq> [] then Priority
      else if lane_queue (lanes st Normal) \<noteq> [] then Normal else Events)"

fun control_do ::
    "('w message \<Rightarrow> bytes list) \<Rightarrow> control \<Rightarrow> 'w control_op \<Rightarrow> control \<times> control_event list" where
  "control_do render st (Send m p) = replied (lane_for m p) (encode (render m)) (send render m p st)"
| "control_do render st (Deliver m p) =
     replied (if p then Priority else Normal) (encode (render m)) (deliver render m p st)"
| "control_do render st Recv =
     (case recv st of (st', None) \<Rightarrow> (st', []) | (st', Some b) \<Rightarrow> (st', [Received (first_lane st) b]))"
| "control_do render st Written = (written st, [])"
| "control_do render st Close = (st\<lparr>closed := True\<rparr>, [])"

subsection \<open>Lines survive any chunking\<close>

lemma split_once_skip:
  "c \<notin> set a \<Longrightarrow> split_once c (a @ s) = map_option (\<lambda>(x, y). (a @ x, y)) (split_once c s)"
proof (cases "split_once c s")
  case None
  moreover assume "c \<notin> set a"
  ultimately have "c \<notin> set (a @ s)" by (simp add: split_once_notin)
  then have "split_once c (a @ s) = None" by (simp only: split_once_notin not_False_eq_True)
  with None show ?thesis by simp
qed (auto simp: split_once_Some)

definition full_chunks :: "bytes list \<Rightarrow> bool" where
  "full_chunks chunks \<longleftrightarrow> [] \<notin> set chunks"

text \<open>What \<open>read_line\<close> does depends on the bytes of the stream alone.\<close>

lemma read_line_found:
  assumes "full_chunks chunks" "newline \<notin> set partial" "length partial \<le> m"
    and "split_once newline (partial @ concat chunks) = Some (line, rest)" and "length line < m"
  shows "\<exists>chunks'. read_line m chunks partial = (chunks', [], Ok (Some (line @ [newline]))) \<and>
    concat chunks' = rest \<and> full_chunks chunks'"
  using assms
proof (induction m chunks partial rule: read_line.induct)
  case (1 m partial)
  then show ?case by (simp add: split_once_Some)
next
  case (2 m available chunks partial)
  then have ne: "available \<noteq> []" "full_chunks chunks" by (auto simp: full_chunks_def)
  show ?case
  proof (cases "split_once newline available")
    case None
    then have av: "newline \<notin> set available" by (simp add: split_once_notin)
    with "2.prems" have "\<exists>x. line = (partial @ available) @ x"
      using split_once_skip [of newline "partial @ available" "concat chunks"]
      by (cases "split_once newline (concat chunks)") auto
    then have "length (partial @ available) \<le> length line" by auto
    then have fits: "\<not> m - length partial < length available"
      using "2.prems"(5) by simp
    from "2.IH" [OF ne(1) None fits ne(2)] show ?thesis
      using "2.prems" av ne None fits by simp
  next
    case (Some q)
    then obtain l r where q: "split_once newline available = Some (l, r)" by (cases q) auto
    then have "split_once newline (available @ concat chunks) = Some (l, r @ concat chunks)"
      by (simp add: split_once_Some)
    with "2.prems" have "line = partial @ l" "rest = r @ concat chunks"
      by (auto simp: split_once_skip)
    then show ?thesis
      using q ne "2.prems"(5) by (auto simp: full_chunks_def)
  qed
qed

lemma read_line_end:
  assumes "full_chunks chunks" "newline \<notin> set partial" "length partial \<le> m"
    and "newline \<notin> set (concat chunks)" and "length (partial @ concat chunks) \<le> m"
  shows "snd (snd (read_line m chunks partial)) =
    (if partial @ concat chunks = [] then Ok None else Err incomplete_message)"
  using assms
proof (induction m chunks partial rule: read_line.induct)
  case (2 m available chunks partial)
  then have ne: "available \<noteq> []" "full_chunks chunks" by (auto simp: full_chunks_def)
  moreover have none: "split_once newline available = None"
    using "2.prems"(4) by (simp add: split_once_notin)
  moreover have "\<not> m - length partial < length available" using "2.prems"(5) by simp
  ultimately show ?case
    using "2.IH" [OF ne(1) none] "2.prems" by simp
qed simp

lemma read_line_too_long:
  assumes "full_chunks chunks" "newline \<notin> set partial" "length partial \<le> m"
    and "m < length (partial @ concat chunks)"
    and "newline \<notin> set (take m (partial @ concat chunks))"
  shows "snd (snd (read_line m chunks partial)) = Err limit_exceeded"
  using assms
proof (induction m chunks partial rule: read_line.induct)
  case (2 m available chunks partial)
  then have ne: "available \<noteq> []" "full_chunks chunks" by (auto simp: full_chunks_def)
  show ?case
  proof (cases "split_once newline available")
    case (Some q)
    then obtain l r where q: "available = l @ newline # r" "split_once newline available = Some (l, r)"
      by (cases q) (auto simp: split_once_Some)
    have "m - length partial < length l + 1"
    proof (rule ccontr)
      assume "\<not> ?thesis"
      then have "newline \<in> set (take m (partial @ l @ [newline]))" by simp
      then have "newline \<in> set (take m ((partial @ l @ [newline]) @ r @ concat chunks))"
        by (metis UnCI set_append take_append)
      with "2.prems"(5) q(1) show False by simp
    qed
    with q ne show ?thesis by simp
  next
    case None
    then have av: "newline \<notin> set available" by (simp add: split_once_notin)
    show ?thesis
    proof (cases "m - length partial < length available")
      case True
      with ne None show ?thesis by simp
    next
      case False
      with "2.IH" [OF ne(1) None False ne(2)] "2.prems" av ne None show ?thesis by simp
    qed
  qed
qed simp

lemma read_lines_messages:
  assumes "full_chunks chunks" and "concat chunks = concat (map (\<lambda>t. t @ [newline]) ts)"
    and "list_all (\<lambda>t. newline \<notin> set t \<and> length t < m) ts"
  shows "read_lines m chunks = (map (\<lambda>t. t @ [newline]) ts, Ok ())"
  using assms
proof (induction ts arbitrary: chunks)
  case Nil
  then have "chunks = []" by (cases chunks) (auto simp: full_chunks_def)
  then show ?case by (subst read_lines.simps) simp
next
  case (Cons t ts)
  then have "split_once newline ([] @ concat chunks) = Some (t, concat (map (\<lambda>t. t @ [newline]) ts))"
    by (simp add: split_once_Some)
  with Cons.prems obtain chunks' where
    "read_line m chunks [] = (chunks', [], Ok (Some (t @ [newline])))"
    "concat chunks' = concat (map (\<lambda>t. t @ [newline]) ts)" "full_chunks chunks'"
    using read_line_found [of chunks "[]" m t] by auto
  with Cons.IH [of chunks'] Cons.prems show ?case
    by (subst read_lines.simps) simp
qed

text \<open>
  Control messages survive the connection: what a sender encoded and its limit let
  through, a reader with the same limit reads back line by line, however the stream is
  cut into reads, and then sees a clean end.
\<close>

lemma control_lines_roundtrip:
  assumes "list_all (\<lambda>msg. newline \<notin> set (concat (render msg))) ms"
    and "list_all (\<lambda>msg. \<exists>n. message_size (render msg) m = Ok n) ms"
    and "full_chunks chunks" and "concat chunks = concat (map (\<lambda>msg. encode (render msg)) ms)"
  shows "read_lines m chunks = (map (\<lambda>msg. encode (render msg)) ms, Ok ())"
proof -
  let ?ts = "map (\<lambda>msg. concat (render msg)) ms"
  have enc: "map (\<lambda>msg. encode (render msg)) ms = map (\<lambda>t. t @ [newline]) ?ts"
    by (simp add: encode_def)
  have "length (encode (render msg)) \<le> m" if "msg \<in> set ms" for msg
    using assms(2) that by (auto simp: list_all_iff message_size_eq split: if_splits)
  then have "list_all (\<lambda>t. newline \<notin> set t \<and> length t < m) ?ts"
    using assms(1) by (auto simp: list_all_iff encode_def Suc_le_eq)
  from read_lines_messages [OF assms(3) _ this] assms(4) show ?thesis
    unfolding enc by simp
qed

definition echo_render :: "string message \<Rightarrow> bytes list" where
  "echo_render msg = (case msg_params msg of None \<Rightarrow> [] | Some p \<Rightarrow> [p])"

lemma control_lines_roundtrip_witness:
  "read_lines 3 [''a'', [newline, CHR ''b''], [newline]] = ([[CHR ''a'', newline], [CHR ''b'', newline]], Ok ())"
  using control_lines_roundtrip [of echo_render "[request 1 ''m'' ''a'', request 2 ''m'' ''b'']" 3
      "[''a'', [newline, CHR ''b''], [newline]]"]
  by (simp add: request_def echo_render_def encode_def full_chunks_def message_size_eq)

subsection \<open>Budgets\<close>

text \<open>The bytes of a lane that are queued or being written.\<close>

definition lane_held :: "lane_id \<Rightarrow> control \<Rightarrow> nat" where
  "lane_held i st =
     sum_list (map length (lane_queue (lanes st i))) +
     sum_list (map (\<lambda>(j, b). if j = i then length b else 0) (in_flight st))"

abbreviation lane_free :: "lane_id \<Rightarrow> control \<Rightarrow> nat" where
  "lane_free i st \<equiv> lane_bytes (lanes st i)"

abbreviation control_step :: "('w message \<Rightarrow> bytes list) \<Rightarrow> control \<Rightarrow> control \<Rightarrow> bool" where
  "control_step render st st' \<equiv> \<exists>op. st' = fst (control_do render st op)"

lemma control_do_cases:
  obtains (same) "lanes (fst (control_do render st op)) = lanes st"
      "in_flight (fst (control_do render st op)) = in_flight st"
      "max_message (fst (control_do render st op)) = max_message st"
  | (enqueued) i b where
      "fst (control_do render st op) = enqueue i b (lane_free i st - length b) st"
      "length b \<le> lane_free i st" "length b \<le> max_message st"
      "length (lane_queue (lanes st i)) < lane_slots (lanes st i)"
  | (received) i b bs where "lane_queue (lanes st i) = b # bs"
      "fst (control_do render st op) =
         st\<lparr>lanes := (lanes st)(i := (lanes st i)\<lparr>lane_queue := bs\<rparr>), in_flight := in_flight st @ [(i, b)]\<rparr>"
  | (released) i b rest where "in_flight st = (i, b) # rest"
      "fst (control_do render st op) =
         st\<lparr>lanes := (lanes st)(i := (lanes st i)\<lparr>lane_bytes := lane_free i st + length b\<rparr>), in_flight := rest\<rparr>"
proof (cases op)
  case (Send m p)
  show thesis
  proof (cases "fst (send render m p st) = st")
    case True
    with Send show thesis by (intro same) (simp_all add: replied_def)
  next
    case False
    with Send show thesis
      by (intro enqueued [of "lane_for m p" "encode (render m)"])
        (auto simp: replied_def send_def message_size_eq Let_def try_acquire_many_def
          split: if_splits option.splits)
  qed
next
  case (Deliver m p)
  show thesis
  proof (cases "fst (deliver render m p st) = st")
    case True
    with Deliver show thesis by (intro same) (simp_all add: replied_def)
  next
    case False
    with Deliver show thesis
      by (intro enqueued [of "if p then Priority else Normal" "encode (render m)"])
        (auto simp: replied_def deliver_def message_size_eq Let_def try_acquire_many_def
          split: if_splits option.splits)
  qed
next
  case Recv
  show thesis
  proof (cases "lane_queue (lanes st (first_lane st))")
    case Nil
    with Recv show thesis
      by (intro same) (auto simp: recv_def first_lane_def take_from_def split: if_splits)
  next
    case (Cons b bs)
    with Recv show thesis
      by (intro received [of "first_lane st" b bs])
        (auto simp: recv_def first_lane_def take_from_def split: if_splits)
  qed
next
  case Written
  show thesis
  proof (cases "in_flight st")
    case Nil
    with Written show thesis by (intro same) (simp_all add: written_def)
  next
    case (Cons x rest)
    with Written show thesis
      by (cases x, intro released [of "fst x" "snd x" rest]) (simp_all add: written_def release_many_def)
  qed
next
  case Close
  then show thesis by (intro same) simp_all
qed

interpretation lane_ledger: ledger "control_step render" "\<lambda>_. True" "lane_free i" "lane_held i"
  for render :: "'w message \<Rightarrow> bytes list" and i :: lane_id
proof
  fix s s' :: control
  assume "control_step render s s'"
  then obtain op where s': "s' = fst (control_do render s op)" by blast
  show "lane_free i s' + lane_held i s' = lane_free i s + lane_held i s"
    by (cases rule: control_do_cases [of render s op])
      (auto simp: s' lane_held_def enqueue_def)
qed simp

definition lane_ok :: "transport_limits \<Rightarrow> lane_id \<Rightarrow> lane \<Rightarrow> bool" where
  "lane_ok l i ln \<longleftrightarrow>
     lane_slots ln = lane_slots (lanes (queue l) i) \<and>
     length (lane_queue ln) \<le> lane_slots (lanes (queue l) i) \<and>
     list_all (\<lambda>b. length b \<le> control_message_bytes l) (lane_queue ln)"

definition control_ok :: "transport_limits \<Rightarrow> control \<Rightarrow> bool" where
  "control_ok l st \<longleftrightarrow>
     max_message st = control_message_bytes l \<and> (\<forall>i. lane_ok l i (lanes st i))"

lemma lane_ok_changes:
  "lane_ok l i ln \<Longrightarrow> length b \<le> control_message_bytes l \<Longrightarrow> length (lane_queue ln) < lane_slots ln \<Longrightarrow>
     lane_ok l i (ln\<lparr>lane_bytes := n, lane_queue := lane_queue ln @ [b]\<rparr>)"
  "lane_ok l i ln \<Longrightarrow> lane_queue ln = b # bs \<Longrightarrow> lane_ok l i (ln\<lparr>lane_queue := bs\<rparr>)"
  "lane_ok l i ln \<Longrightarrow> lane_ok l i (ln\<lparr>lane_bytes := n\<rparr>)"
  by (auto simp: lane_ok_def)

lemma control_ok_queue: "control_ok l (queue l)"
  by (auto simp: control_ok_def lane_ok_def queue_def split: lane_id.split)

lemma control_ok_step:
  assumes "control_ok l st" shows "control_ok l (fst (control_do render st op))"
proof -
  have ok: "max_message st = control_message_bytes l" "lane_ok l i (lanes st i)" for i
    using assms by (simp_all add: control_ok_def)
  show ?thesis
    by (cases rule: control_do_cases [of render st op])
      (simp_all add: control_ok_def enqueue_def ok lane_ok_changes)
qed

lemma control_run_reaches:
  "(control_step render)\<^sup>*\<^sup>* st (fst (run_steps (control_do render) st ops))"
proof (induction ops arbitrary: st)
  case (Cons op ops)
  have "control_step render st (fst (control_do render st op))" by blast
  from converse_rtranclp_into_rtranclp [of "control_step render", OF this Cons.IH]
  show ?case by (simp add: Let_def split_beta)
qed simp


subsection \<open>Order\<close>

definition accepted :: "lane_id \<Rightarrow> control_event list \<Rightarrow> bytes list" where
  "accepted i evs = concat (map (\<lambda>e. case e of Accepted j b \<Rightarrow> if j = i then [b] else [] | _ \<Rightarrow> []) evs)"

definition received_on :: "lane_id \<Rightarrow> control_event list \<Rightarrow> bytes list" where
  "received_on i evs = concat (map (\<lambda>e. case e of Received j b \<Rightarrow> if j = i then [b] else [] | _ \<Rightarrow> []) evs)"

lemma control_do_fifo:
  assumes "control_do render st op = (st', evs)"
  shows "lane_queue (lanes st i) @ accepted i evs = received_on i evs @ lane_queue (lanes st' i)"
proof (cases op)
  case (Send m p)
  with assms show ?thesis
    by (auto simp: replied_def send_def message_size_eq Let_def try_acquire_many_def enqueue_def
        accepted_def received_on_def split: if_splits option.splits sum.splits)
next
  case (Deliver m p)
  with assms show ?thesis
    by (auto simp: replied_def deliver_def message_size_eq Let_def try_acquire_many_def enqueue_def
        accepted_def received_on_def split: if_splits option.splits sum.splits)
next
  case Recv
  with assms show ?thesis
    by (auto simp: recv_def first_lane_def take_from_def accepted_def received_on_def
        split: if_splits option.splits list.splits)
next
  case Written
  with assms show ?thesis
    by (auto simp: written_def accepted_def received_on_def split: list.splits)
next
  case Close
  with assms show ?thesis by (auto simp: accepted_def received_on_def)
qed

lemma accepted_append [simp]: "accepted i (a @ b) = accepted i a @ accepted i b"
  by (simp add: accepted_def)

lemma received_on_append [simp]: "received_on i (a @ b) = received_on i a @ received_on i b"
  by (simp add: received_on_def)

lemma control_run_fifo:
  assumes "run_steps (control_do render) st ops = (st', evs)"
  shows "lane_queue (lanes st i) @ accepted i evs = received_on i evs @ lane_queue (lanes st' i)"
  using assms
proof (induction ops arbitrary: st st' evs)
  case Nil
  then show ?case by (simp add: accepted_def received_on_def)
next
  case (Cons op ops)
  obtain st1 e1 where 1: "control_do render st op = (st1, e1)" by (cases "control_do render st op")
  obtain st2 e2 where 2: "run_steps (control_do render) st1 ops = (st2, e2)"
    by (cases "run_steps (control_do render) st1 ops")
  have r: "st' = st2" "evs = e1 @ e2" using Cons.prems 1 2 by simp_all
  show ?case
    using control_do_fifo [OF 1, of i] Cons.IH [OF 2] unfolding r accepted_append received_on_append
    by (metis append.assoc)
qed

text \<open>
  Nothing is lost, duplicated or reordered within a lane, and refusal is clean: the
  messages accepted on a lane are exactly those already received followed by those still
  queued, in the order of acceptance; a refused message leaves the queues as they were;
  and a lane is served only when every lane of higher priority is empty.
\<close>

lemma control_lanes_in_order:
  assumes "run_steps (control_do render) (queue l) ops = (st, evs)"
  shows "accepted i evs = received_on i evs @ lane_queue (lanes st i) \<and>
    (snd (control_do render st op) = [Refused e] \<longrightarrow> fst (control_do render st op) = st) \<and>
    (snd (control_do render st op) = [Received i b] \<longrightarrow>
       (i \<noteq> Priority \<longrightarrow> lane_queue (lanes st Priority) = []) \<and>
       (i = Events \<longrightarrow> lane_queue (lanes st Normal) = []))"
proof (intro conjI)
  have "lane_queue (lanes (queue l) i) = []" by (cases i) (simp_all add: queue_def)
  with control_run_fifo [OF assms, of i] show "accepted i evs = received_on i evs @ lane_queue (lanes st i)"
    by simp
  show "snd (control_do render st op) = [Refused e] \<longrightarrow> fst (control_do render st op) = st"
    by (cases op)
      (auto simp: replied_def send_def deliver_def Let_def
        split: sum.splits option.splits if_splits prod.splits)
  show "snd (control_do render st op) = [Received i b] \<longrightarrow>
       (i \<noteq> Priority \<longrightarrow> lane_queue (lanes st Priority) = []) \<and>
       (i = Events \<longrightarrow> lane_queue (lanes st Normal) = [])"
    by (cases op)
      (auto simp: replied_def first_lane_def split: sum.splits option.splits if_splits prod.splits)
qed

lemma control_lanes_in_order_witness:
  "\<exists>st evs. run_steps (control_do echo_render) (queue default_limits)
       [Send (request 1 ''m'' ''a'') False, Send (request 2 ''m'' ''b'') True, Recv] = (st, evs) \<and>
     accepted Priority evs = received_on Priority evs @ lane_queue (lanes st Priority)"
proof -
  obtain st evs where r: "run_steps (control_do echo_render) (queue default_limits)
       [Send (request 1 ''m'' ''a'') False, Send (request 2 ''m'' ''b'') True, Recv] = (st, evs)"
    by (meson prod.exhaust)
  with control_lanes_in_order [OF r, of Priority] show ?thesis by blast
qed

end
