(* ===== verification/Frames.thy ===== *)
theory Frames
  imports Capture Transport_Limits
begin

section \<open>Frames on a data channel (channel.rs)\<close>

text \<open>
  A data channel carries frames: one byte of kind, four bytes of length, the payload. The
  writer sits on something that accepts bytes piecemeal; the locale \<open>byte_writer\<close> is what
  it relies on, and the loop that pushes all bytes through is proved against it once. Two
  things implement it: the socket, with an arbitrary plan of how much each write takes and
  when it fails or stalls, and the crate's own \<open>BoundedBuffer\<close>. A reader is the bytes its
  peer sent before it closed the connection.
\<close>

subsection \<open>Writing with progress\<close>

datatype write_outcome = Wrote nat | WriteFailed string | NoProgress

datatype write_stall = StallTimeout | StallIo string

function write_with_progress ::
    "('w \<Rightarrow> bytes \<Rightarrow> 'w \<times> write_outcome) \<Rightarrow> 'w \<Rightarrow> bytes \<Rightarrow> 'w \<times> (write_stall, unit) result" where
  "write_with_progress wr w bytes =
     (if bytes = [] then (w, Ok ())
      else case wr w bytes of
        (w', NoProgress) \<Rightarrow> (w', Err StallTimeout)
      | (w', WriteFailed e) \<Rightarrow> (w', Err (StallIo e))
      | (w', Wrote n) \<Rightarrow>
          if n = 0 then (w', Err (StallIo ''write zero''))
          else write_with_progress wr w' (drop n bytes))"
  by pat_completeness auto

termination
  by (relation "measure (\<lambda>(_, _, bytes). length bytes)") auto

declare write_with_progress.simps [simp del]

locale byte_writer =
  fixes wr :: "'w \<Rightarrow> bytes \<Rightarrow> 'w \<times> write_outcome"
    and out :: "'w \<Rightarrow> bytes"
  assumes took: "wr w bs = (w', Wrote n) \<Longrightarrow> out w' = out w @ take n bs"
    and failed: "wr w bs = (w', WriteFailed e) \<Longrightarrow> out w' = out w"
    and stalled: "wr w bs = (w', NoProgress) \<Longrightarrow> out w' = out w"
begin

lemma progress_prefix:
  "write_with_progress wr w bs = (w', res) \<Longrightarrow>
   \<exists>k. out w' = out w @ take k bs \<and> (res = Ok () \<longrightarrow> length bs \<le> k)"
proof (induction "length bs" arbitrary: w bs rule: less_induct)
  case less
  show ?case
  proof (cases "bs = []")
    case True
    with less.prems show ?thesis by (simp add: write_with_progress.simps)
  next
    case False
    obtain w1 o1 where wr: "wr w bs = (w1, o1)" by (cases "wr w bs")
    show ?thesis
    proof (cases o1)
      case (Wrote n)
      show ?thesis
      proof (cases "n = 0")
        case True
        with less.prems wr Wrote False took [of w bs w1 n] show ?thesis
          by (subst (asm) write_with_progress.simps) auto
      next
        case n: False
        with less.prems wr Wrote False have "write_with_progress wr w1 (drop n bs) = (w', res)"
          by (subst (asm) write_with_progress.simps) simp
        with less.hyps [of "drop n bs" w1] n False obtain k where
          "out w' = out w1 @ take k (drop n bs)" "res = Ok () \<longrightarrow> length (drop n bs) \<le> k"
          by auto
        with took [of w bs w1 n] wr Wrote
        have "out w' = out w @ take (n + k) bs \<and> (res = Ok () \<longrightarrow> length bs \<le> n + k)"
          by (auto simp: take_add)
        then show ?thesis by blast
      qed
    next
      case (WriteFailed e)
      with less.prems wr False failed [of w bs w1 e] show ?thesis
        by (subst (asm) write_with_progress.simps) auto
    next
      case NoProgress
      with less.prems wr False stalled [of w bs w1] show ?thesis
        by (subst (asm) write_with_progress.simps) auto
    qed
  qed
qed

lemma progress_complete:
  "write_with_progress wr w bs = (w', Ok ()) \<Longrightarrow> out w' = out w @ bs"
  using progress_prefix [of w bs w' "Ok ()"] by auto

end

subsection \<open>What bytes are written to\<close>

datatype write_event = Takes nat | Fails string | Stalls

record socket =
  sk_out :: bytes
  sk_plan :: "nat \<Rightarrow> write_event"
  sk_calls :: nat

definition socket_write :: "socket \<Rightarrow> bytes \<Rightarrow> socket \<times> write_outcome" where
  "socket_write sk bs =
     (let sk' = sk\<lparr>sk_calls := Suc (sk_calls sk)\<rparr> in
      case sk_plan sk (sk_calls sk) of
        Takes n \<Rightarrow> (sk'\<lparr>sk_out := sk_out sk @ take n bs\<rparr>, Wrote (min n (length bs)))
      | Fails e \<Rightarrow> (sk', WriteFailed e)
      | Stalls \<Rightarrow> (sk', NoProgress))"

interpretation socket_writer: byte_writer socket_write sk_out
  by unfold_locales
    (auto simp: socket_write_def Let_def min_def split: write_event.splits)

definition buffer_write :: "bounded_buffer \<Rightarrow> bytes \<Rightarrow> bounded_buffer \<times> write_outcome" where
  "buffer_write b bs = (case poll_write b bs of (b', Ok n) \<Rightarrow> (b', Wrote n) | (b', Err e) \<Rightarrow> (b', WriteFailed e))"

interpretation buffer_writer: byte_writer buffer_write bb_bytes
  by unfold_locales
    (auto simp: buffer_write_def poll_write_def split: if_splits)

subsection \<open>Frames\<close>

datatype frame_kind = FrameOpen | FrameStdout | FrameStderr | FrameStdin | FrameEof

fun frame_byte :: "frame_kind \<Rightarrow> byte" where
  "frame_byte FrameOpen = CHR 0x00"
| "frame_byte FrameStdout = CHR 0x01"
| "frame_byte FrameStderr = CHR 0x02"
| "frame_byte FrameStdin = CHR 0x03"
| "frame_byte FrameEof = CHR 0x04"

definition from_byte :: "byte \<Rightarrow> frame_kind option" where
  "from_byte b =
     (let n = byte_val b in
      if n = 0 then Some FrameOpen else if n = 1 then Some FrameStdout
      else if n = 2 then Some FrameStderr else if n = 3 then Some FrameStdin
      else if n = 4 then Some FrameEof else None)"

definition max_frame_bytes :: nat where
  "max_frame_bytes = 64 * 1024"

definition to_be_bytes :: "nat \<Rightarrow> bytes" where
  "to_be_bytes n = [byte_of (n div 2 ^ 24), byte_of (n div 2 ^ 16), byte_of (n div 2 ^ 8), byte_of n]"

definition from_be_bytes :: "bytes \<Rightarrow> nat" where
  "from_be_bytes bs = foldl (\<lambda>acc b. 256 * acc + byte_val b) 0 bs"

definition transport_io :: "string \<Rightarrow> string \<Rightarrow> error" where
  "transport_io context cause = Transport \<lparr>te_context = context, te_source = [cause]\<rparr>"

record 'w frame_writer =
  fw_writer :: 'w
  fw_max :: nat
  fw_finished :: bool

definition writer_new :: "'w \<Rightarrow> nat \<Rightarrow> 'w frame_writer" where
  "writer_new w m = \<lparr>fw_writer = w, fw_max = m, fw_finished = False\<rparr>"

type_synonym 'w write_fun = "'w \<Rightarrow> bytes \<Rightarrow> 'w \<times> write_outcome"

definition frame_deliver ::
    "'w write_fun \<Rightarrow> 'w frame_writer \<Rightarrow> bytes \<Rightarrow> 'w frame_writer \<times> (error, unit) result" where
  "frame_deliver wr fw bytes =
     (case write_with_progress wr (fw_writer fw) bytes of (w, res) \<Rightarrow>
        (fw\<lparr>fw_writer := w\<rparr>,
         case res of
           Ok _ \<Rightarrow> Ok ()
         | Err StallTimeout \<Rightarrow> Err (transport ''data output made no progress; delivery is incomplete'')
         | Err (StallIo e) \<Rightarrow> Err (transport_io ''writing data frame'' e)))"

definition write_one ::
    "'w write_fun \<Rightarrow> 'w frame_writer \<Rightarrow> frame_kind \<Rightarrow> bytes \<Rightarrow> 'w frame_writer \<times> (error, unit) result" where
  "write_one wr fw kind payload =
     (if 2 ^ 32 \<le> length payload
      then (fw, Err (InvalidSpec ''frame'' ''payload exceeds the frame size''))
      else case frame_deliver wr fw (frame_byte kind # to_be_bytes (length payload)) of
        (fw', Err e) \<Rightarrow> (fw', Err e)
      | (fw', Ok _) \<Rightarrow> frame_deliver wr fw' payload)"

fun write_chunked ::
    "'w write_fun \<Rightarrow> 'w frame_writer \<Rightarrow> frame_kind \<Rightarrow> bytes list \<Rightarrow> 'w frame_writer \<times> (error, unit) result" where
  "write_chunked wr fw kind [] = (fw, Ok ())"
| "write_chunked wr fw kind (c # cs) =
     (case write_one wr fw kind c of
        (fw', Err e) \<Rightarrow> (fw', Err e)
      | (fw', Ok _) \<Rightarrow> write_chunked wr fw' kind cs)"

definition frame_write ::
    "'w write_fun \<Rightarrow> 'w frame_writer \<Rightarrow> frame_kind \<Rightarrow> bytes \<Rightarrow> 'w frame_writer \<times> (error, unit) result" where
  "frame_write wr fw kind payload =
     (if fw_finished fw \<or> fw_max fw = 0 \<or> max_frame_bytes < fw_max fw
      then (fw, Err (InvalidSpec ''frame'' ''invalid frame limit or write after EOF''))
      else if kind = FrameEof \<and> payload \<noteq> []
      then (fw, Err (InvalidSpec ''frame'' ''EOF must have an empty payload''))
      else if kind = FrameOpen \<and> fw_max fw < length payload
      then (fw, Err (InvalidSpec ''frame'' ''open cannot span frames''))
      else if payload = [] then write_one wr fw kind payload
      else write_chunked wr fw kind (chunks_of (fw_max fw) payload))"

text \<open>\<open>flush\<close> is the outcome of flushing the writer once the end frame is out.\<close>

definition frame_finish ::
    "'w write_fun \<Rightarrow> (write_stall, unit) result \<Rightarrow> 'w frame_writer \<Rightarrow> 'w frame_writer \<times> (error, unit) result" where
  "frame_finish wr flush fw =
     (case frame_write wr fw FrameEof [] of
        (fw', Err e) \<Rightarrow> (fw', Err e)
      | (fw', Ok _) \<Rightarrow>
          (fw'\<lparr>fw_finished := True\<rparr>,
           case flush of
             Ok _ \<Rightarrow> Ok ()
           | Err StallTimeout \<Rightarrow> Err (transport ''data channel flush made no progress'')
           | Err (StallIo e) \<Rightarrow> Err (transport_io ''flushing data channel'' e)))"

record frame_reader =
  fr_input :: bytes
  fr_max :: nat
  fr_finished :: bool

definition reader_new :: "bytes \<Rightarrow> nat \<Rightarrow> frame_reader" where
  "reader_new input m = \<lparr>fr_input = input, fr_max = m, fr_finished = False\<rparr>"

definition frame_read ::
    "frame_reader \<Rightarrow> frame_reader \<times> (error, (frame_kind \<times> bytes) option) result" where
  "frame_read r =
     (if fr_finished r then (r, Ok None)
      else if fr_max r = 0 \<or> max_frame_bytes < fr_max r
      then (r, Err (InvalidSpec ''frame'' ''invalid frame limit''))
      else case fr_input r of
        [] \<Rightarrow> (r, Err (transport ''data channel closed before EOF; delivery is incomplete''))
      | b # rest \<Rightarrow>
          if length rest < 4
          then (r\<lparr>fr_input := []\<rparr>, Err (transport_io ''reading data frame header'' ''early eof''))
          else (case from_byte b of
            None \<Rightarrow> (r\<lparr>fr_input := drop 4 rest\<rparr>,
                     Err (InvalidSpec ''frame'' (''unknown kind '' @ show_nat (byte_val b))))
          | Some kind \<Rightarrow>
              (let len = from_be_bytes (take 4 rest); body = drop 4 rest in
               if fr_max r < len
               then (r\<lparr>fr_input := body\<rparr>,
                     Err (InvalidSpec ''frame''
                       (''payload of '' @ show_nat len @ '' bytes exceeds the '' @
                        show_nat (fr_max r) @ '' limit'')))
               else if kind = FrameEof \<and> len \<noteq> 0
               then (r\<lparr>fr_input := body\<rparr>, Err (InvalidSpec ''frame'' ''EOF must have an empty payload''))
               else if length body < len
               then (r\<lparr>fr_input := [], fr_finished := (kind = FrameEof)\<rparr>,
                     Err (transport_io ''reading data frame'' ''early eof''))
               else (r\<lparr>fr_input := drop len body, fr_finished := (kind = FrameEof)\<rparr>,
                     Ok (Some (kind, take len body))))))"

definition next_stdin :: "frame_reader \<Rightarrow> frame_reader \<times> bytes option" where
  "next_stdin r =
     (case frame_read r of
        (r', Ok (Some (FrameStdin, payload))) \<Rightarrow> (r', Some payload)
      | (r', _) \<Rightarrow> (r', None))"

text \<open>A consumer's loop: frames until the end or an error.\<close>

lemma frame_read_consumes:
  "frame_read r = (r', Ok (Some f)) \<Longrightarrow> length (fr_input r') < length (fr_input r)"
  by (auto simp: frame_read_def Let_def split: if_splits list.splits option.splits)

function read_frames :: "frame_reader \<Rightarrow> (frame_kind \<times> bytes) list \<times> (error, unit) result" where
  "read_frames r =
     (case frame_read r of
        (r', Ok (Some f)) \<Rightarrow> (let (fs, res) = read_frames r' in (f # fs, res))
      | (r', Ok None) \<Rightarrow> ([], Ok ())
      | (r', Err e) \<Rightarrow> ([], Err e))"
  by pat_completeness auto

termination
  by (relation "measure (\<lambda>r. length (fr_input r))") (auto dest: frame_read_consumes [OF sym])

declare read_frames.simps [simp del]

subsection \<open>What a writer puts on the channel\<close>

definition frame_bytes :: "frame_kind \<times> bytes \<Rightarrow> bytes" where
  "frame_bytes f = frame_byte (fst f) # to_be_bytes (length (snd f)) @ snd f"

text \<open>The frames of one write: the payload in pieces of at most the negotiated size.\<close>

definition frames_of :: "nat \<Rightarrow> frame_kind \<times> bytes \<Rightarrow> (frame_kind \<times> bytes) list" where
  "frames_of m f = (if snd f = [] then [(fst f, [])] else map (Pair (fst f)) (chunks_of m (snd f)))"

context byte_writer
begin

lemma deliver_out:
  "frame_deliver wr fw bs = (fw', Ok ()) \<Longrightarrow>
   out (fw_writer fw') = out (fw_writer fw) @ bs \<and> fw_max fw' = fw_max fw \<and>
   fw_finished fw' = fw_finished fw"
  by (auto simp: frame_deliver_def split: prod.splits sum.splits write_stall.splits
      dest!: progress_complete)

lemma write_one_out:
  "write_one wr fw k p = (fw', Ok ()) \<Longrightarrow>
   out (fw_writer fw') = out (fw_writer fw) @ frame_bytes (k, p) \<and> fw_max fw' = fw_max fw \<and>
   fw_finished fw' = fw_finished fw"
  by (auto simp: write_one_def frame_bytes_def split: prod.splits sum.splits if_splits
      dest!: deliver_out)

lemma write_chunked_out:
  "write_chunked wr fw k cs = (fw', Ok ()) \<Longrightarrow>
   out (fw_writer fw') = out (fw_writer fw) @ concat (map (\<lambda>c. frame_bytes (k, c)) cs) \<and>
   fw_max fw' = fw_max fw \<and> fw_finished fw' = fw_finished fw"
proof (induction cs arbitrary: fw)
  case Nil
  then show ?case by simp
next
  case (Cons c cs)
  obtain fw1 res where one: "write_one wr fw k c = (fw1, res)" by (cases "write_one wr fw k c")
  with Cons.prems have ok: "res = Ok ()" and rest: "write_chunked wr fw1 k cs = (fw', Ok ())"
    by (auto split: sum.splits)
  from write_one_out [OF one [unfolded ok]] Cons.IH [OF rest] show ?case by simp
qed

lemma frame_write_out:
  assumes "frame_write wr fw k p = (fw', Ok ())"
  shows "out (fw_writer fw') = out (fw_writer fw) @ concat (map frame_bytes (frames_of (fw_max fw) (k, p)))"
    and "fw_max fw' = fw_max fw" "fw_finished fw' = fw_finished fw"
    and "\<not> fw_finished fw" "0 < fw_max fw" "fw_max fw \<le> max_frame_bytes"
    and "k = FrameEof \<longrightarrow> p = []"
  using assms
  by (auto simp: frame_write_def frames_of_def comp_def split: if_splits
      dest!: write_one_out write_chunked_out)

end

text \<open>A sender's whole use of a writer: its writes in order, stopping at the first error, then
  the end frame.\<close>

fun send_all ::
    "'w write_fun \<Rightarrow> (write_stall, unit) result \<Rightarrow> 'w frame_writer \<Rightarrow> (frame_kind \<times> bytes) list \<Rightarrow>
     'w frame_writer \<times> (error, unit) result" where
  "send_all wr flush fw [] = frame_finish wr flush fw"
| "send_all wr flush fw ((k, p) # items) =
     (case frame_write wr fw k p of
        (fw', Err e) \<Rightarrow> (fw', Err e)
      | (fw', Ok _) \<Rightarrow> send_all wr flush fw' items)"

context byte_writer
begin

lemma frame_finish_out:
  assumes "frame_finish wr flush fw = (fw', Ok ())"
  shows "out (fw_writer fw') = out (fw_writer fw) @ frame_bytes (FrameEof, [])"
    and "0 < fw_max fw" "fw_max fw \<le> max_frame_bytes"
proof -
  obtain fw1 res where w: "frame_write wr fw FrameEof [] = (fw1, res)"
    by (cases "frame_write wr fw FrameEof []")
  with assms have ok: "res = Ok ()" and fw': "fw' = fw1\<lparr>fw_finished := True\<rparr>"
    by (auto simp: frame_finish_def split: sum.splits)
  from frame_write_out [OF w [unfolded ok]] fw'
  show "out (fw_writer fw') = out (fw_writer fw) @ frame_bytes (FrameEof, [])"
    and "0 < fw_max fw" "fw_max fw \<le> max_frame_bytes"
    by (auto simp: frames_of_def)
qed

lemma send_all_out:
  "send_all wr flush fw items = (fw', Ok ()) \<Longrightarrow>
   out (fw_writer fw') = out (fw_writer fw) @
     concat (map frame_bytes (concat (map (frames_of (fw_max fw)) items) @ [(FrameEof, [])])) \<and>
   0 < fw_max fw \<and> fw_max fw \<le> max_frame_bytes"
proof (induction items arbitrary: fw)
  case Nil
  with frame_finish_out [of flush fw fw'] show ?case by simp
next
  case (Cons x items)
  obtain k p where x: "x = (k, p)" by (cases x)
  obtain fw1 res where w: "frame_write wr fw k p = (fw1, res)" by (cases "frame_write wr fw k p")
  with Cons.prems x have ok: "res = Ok ()" and rest: "send_all wr flush fw1 items = (fw', Ok ())"
    by (auto split: sum.splits)
  from frame_write_out [OF w [unfolded ok]] Cons.IH [OF rest] x show ?case by simp
qed

end

subsection \<open>What a reader makes of it\<close>

lemma from_byte_frame_byte [simp]: "from_byte (frame_byte k) = Some k"
  by (cases k) (simp_all add: from_byte_def Let_def)

lemma be_bytes_roundtrip:
  assumes "n < 2 ^ 32" shows "from_be_bytes (to_be_bytes n) = n"
proof -
  have "n div 16777216 mod 256 = n div 16777216" using assms by simp
  moreover have "256 * (n div 16777216) + n div 65536 mod 256 = n div 65536"
    "256 * (n div 65536) + n div 256 mod 256 = n div 256" "256 * (n div 256) + n mod 256 = n"
    using mult_div_mod_eq [of 256 "n div 65536"] mult_div_mod_eq [of 256 "n div 256"]
    by (simp_all add: div_mult2_eq [symmetric])
  ultimately show ?thesis by (simp add: to_be_bytes_def from_be_bytes_def)
qed

lemma to_be_bytes_length [simp]: "length (to_be_bytes n) = 4"
  by (simp add: to_be_bytes_def)

lemma frame_read_frame:
  assumes "\<not> fr_finished r" "0 < fr_max r" "fr_max r \<le> max_frame_bytes"
    and "fr_input r = frame_bytes (k, p) @ rest" "length p \<le> fr_max r" "k = FrameEof \<longrightarrow> p = []"
  shows "frame_read r = (r\<lparr>fr_input := rest, fr_finished := (k = FrameEof)\<rparr>, Ok (Some (k, p)))"
proof -
  from assms(3,5) have "length p < 2 ^ 32" by (simp add: max_frame_bytes_def)
  then have "from_be_bytes (to_be_bytes (length p)) = length p" by (rule be_bytes_roundtrip)
  with assms show ?thesis
    by (auto simp: frame_read_def frame_bytes_def Let_def)
qed

lemma read_frames_finished: "fr_finished r \<Longrightarrow> read_frames r = ([], Ok ())"
  by (subst read_frames.simps) (simp add: frame_read_def)

lemma read_frames_written:
  assumes "\<not> fr_finished r" "0 < fr_max r" "fr_max r \<le> max_frame_bytes"
    and "list_all (\<lambda>f. fst f \<noteq> FrameEof \<and> length (snd f) \<le> fr_max r) frs"
    and "fr_input r = concat (map frame_bytes frs) @ frame_bytes (FrameEof, []) @ rest"
  shows "read_frames r = (frs @ [(FrameEof, [])], Ok ())"
  using assms
proof (induction frs arbitrary: r)
  case Nil
  then show ?case
    by (subst read_frames.simps)
      (simp add: frame_read_frame [where k = FrameEof and p = "[]" and rest = rest]
        read_frames_finished)
next
  case (Cons f frs)
  obtain k p where f: "f = (k, p)" by (cases f)
  let ?rest = "concat (map frame_bytes frs) @ frame_bytes (FrameEof, []) @ rest"
  from Cons.prems f have
    "frame_read r = (r\<lparr>fr_input := ?rest, fr_finished := False\<rparr>, Ok (Some (k, p)))"
    by (subst frame_read_frame [where k = k and p = p and rest = ?rest]) auto
  with Cons.IH [of "r\<lparr>fr_input := ?rest, fr_finished := False\<rparr>"] Cons.prems f show ?case
    by (subst read_frames.simps) simp
qed

lemma frames_of_sound:
  assumes "0 < m" "fst f \<noteq> FrameEof"
  shows "list_all (\<lambda>g. fst g \<noteq> FrameEof \<and> length (snd g) \<le> m) (frames_of m f)"
    and "concat (map snd (filter (\<lambda>g. fst g = k) (frames_of m f))) = (if fst f = k then snd f else [])"
  using assms chunks_of_sound [of m "snd f"]
  by (auto simp: frames_of_def list.pred_map comp_def list_all_iff filter_map)

definition payload_of :: "frame_kind \<Rightarrow> (frame_kind \<times> bytes) list \<Rightarrow> bytes" where
  "payload_of k frs = concat (map snd (filter (\<lambda>f. fst f = k) frs))"

lemma payload_of_simps [simp]:
  "payload_of k [] = []"
  "payload_of k (f # frs) = (if fst f = k then snd f else []) @ payload_of k frs"
  "payload_of k (frs @ gs) = payload_of k frs @ payload_of k gs"
  by (simp_all add: payload_of_def)

lemma frames_of_all:
  assumes "0 < m" "list_all (\<lambda>f. fst f \<noteq> FrameEof) items"
  shows "list_all (\<lambda>g. fst g \<noteq> FrameEof \<and> length (snd g) \<le> m) (concat (map (frames_of m) items))"
    and "payload_of k (concat (map (frames_of m) items)) = payload_of k items"
  using assms(2)
  by (induction items) (use frames_of_sound [OF assms(1)] in \<open>auto simp: payload_of_def\<close>)


subsection \<open>A reader facing any bytes\<close>

lemma frame_read_limits:
  "frame_read r = (r', Ok (Some (k, p))) \<Longrightarrow>
   length p \<le> fr_max r \<and> fr_max r \<le> max_frame_bytes \<and> fr_max r' = fr_max r \<and>
   fr_finished r' = (k = FrameEof) \<and> (k = FrameEof \<longrightarrow> p = [])"
  by (auto simp: frame_read_def Let_def split: if_splits list.splits option.splits)

lemma frame_read_None: "frame_read r = (r', Ok None) \<Longrightarrow> fr_finished r"
  by (auto simp: frame_read_def Let_def split: if_splits list.splits option.splits)

lemma read_frames_limits:
  "list_all (\<lambda>f. length (snd f) \<le> fr_max r \<and> length (snd f) \<le> max_frame_bytes) (fst (read_frames r))"
proof (induction r rule: read_frames.induct)
  case (1 r)
  obtain r' res where step: "frame_read r = (r', res)" by (cases "frame_read r")
  show ?case
  proof (cases "\<exists>f. res = Ok (Some f)")
    case True
    then obtain k p where res: "res = Ok (Some (k, p))" by auto
    with frame_read_limits [of r r' k p] step "1.IH" [OF step [symmetric] res refl] show ?thesis
      by (subst read_frames.simps) (auto simp: split: prod.splits)
  next
    case False
    with step show ?thesis
      by (subst read_frames.simps) (auto split: sum.splits option.splits)
  qed
qed

lemma read_frames_ends:
  "read_frames r = (frs, Ok ()) \<Longrightarrow> \<not> fr_finished r \<Longrightarrow> \<exists>gs. frs = gs @ [(FrameEof, [])]"
proof (induction r arbitrary: frs rule: read_frames.induct)
  case (1 r)
  obtain r' res where step: "frame_read r = (r', res)" by (cases "frame_read r")
  from "1.prems" step frame_read_None [of r r'] obtain k p where res: "res = Ok (Some (k, p))"
    by (subst (asm) read_frames.simps) (auto split: sum.splits option.splits)
  obtain gs res' where rest: "read_frames r' = (gs, res')" by (cases "read_frames r'")
  with "1.prems" step res have frs: "frs = (k, p) # gs" "res' = Ok ()"
    by (subst (asm) read_frames.simps, simp)+
  show ?case
  proof (cases "k = FrameEof")
    case True
    with frame_read_limits [of r r' k p] step res rest frs read_frames_finished [of r'] show ?thesis
      by simp
  next
    case False
    with frame_read_limits [of r r' k p] step res have "\<not> fr_finished r'" by simp
    with "1.IH" [OF step [symmetric] res refl, of gs] rest frs show ?thesis by auto
  qed
qed

text \<open>
  C8. A reader is safe against any peer: whatever bytes arrive, every payload it hands on is
  within the negotiated size and within 64 KiB, and a stream that it reports as complete ended
  with an end frame, so a connection that was lost or cut never looks like a finished one.
\<close>

theorem frame_reader_safe:
  "list_all (\<lambda>f. length (snd f) \<le> m \<and> length (snd f) \<le> 65536) (fst (read_frames (reader_new input m))) \<and>
   (snd (read_frames (reader_new input m)) = Ok () \<longrightarrow>
      fst (read_frames (reader_new input m)) \<noteq> [] \<and>
      last (fst (read_frames (reader_new input m))) = (FrameEof, []))"
proof (intro conjI impI)
  show "list_all (\<lambda>f. length (snd f) \<le> m \<and> length (snd f) \<le> 65536) (fst (read_frames (reader_new input m)))"
    using read_frames_limits [of "reader_new input m"]
    by (simp add: reader_new_def max_frame_bytes_def)
next
  assume "snd (read_frames (reader_new input m)) = Ok ()"
  with read_frames_ends [of "reader_new input m" "fst (read_frames (reader_new input m))"]
  have "fst (read_frames (reader_new input m)) \<noteq> [] \<and>
      last (fst (read_frames (reader_new input m))) = (FrameEof, [])"
    by (cases "read_frames (reader_new input m)") (auto simp: reader_new_def)
  then show "fst (read_frames (reader_new input m)) \<noteq> []"
    "last (fst (read_frames (reader_new input m))) = (FrameEof, [])" by blast+
qed

theorem frame_reader_safe_witness:
  "last (fst (read_frames (reader_new (frame_bytes (FrameStdin, ''hi'') @ frame_bytes (FrameEof, [])) 2)))
     = (FrameEof, [])"
proof -
  let ?got = "read_frames (reader_new (frame_bytes (FrameStdin, ''hi'') @ frame_bytes (FrameEof, [])) 2)"
  have "snd ?got = Ok ()"
    by (subst read_frames_written [where frs = "[(FrameStdin, ''hi'')]" and rest = "[]"])
      (simp_all add: reader_new_def max_frame_bytes_def)
  with frame_reader_safe show ?thesis by blast
qed

subsection \<open>A socket that keeps accepting\<close>

lemma socket_progress_Ok:
  assumes "\<forall>i. \<exists>n. plan i = Takes (Suc n)"
  shows "sk_plan sk = plan \<Longrightarrow>
    \<exists>sk'. write_with_progress socket_write sk bs = (sk', Ok ()) \<and> sk_plan sk' = plan"
proof (induction "length bs" arbitrary: sk bs rule: less_induct)
  case less
  obtain n where n: "plan (sk_calls sk) = Takes (Suc n)" using assms by blast
  show ?case
  proof (cases "bs = []")
    case True
    with less.prems show ?thesis by (subst write_with_progress.simps) simp
  next
    case False
    let ?n = "min (Suc n) (length bs)"
    from less.prems n obtain sk1 where step: "socket_write sk bs = (sk1, Wrote ?n)" "sk_plan sk1 = plan"
      by (auto simp: socket_write_def Let_def)
    from False less.hyps [of "drop ?n bs" sk1, OF _ step(2)]
    obtain sk' where "write_with_progress socket_write sk1 (drop ?n bs) = (sk', Ok ())" "sk_plan sk' = plan"
      by auto
    with False step show ?thesis
      by (subst write_with_progress.simps) simp
  qed
qed

lemma socket_write_one_Ok:
  assumes plan: "\<forall>i. \<exists>n. plan i = Takes (Suc n)" and "sk_plan (fw_writer fw) = plan"
    and "length p \<le> fw_max fw" "fw_max fw \<le> max_frame_bytes"
  shows "\<exists>sk'. write_one socket_write fw k p = (fw\<lparr>fw_writer := sk'\<rparr>, Ok ()) \<and> sk_plan sk' = plan"
proof -
  obtain sk1 where sk1: "write_with_progress socket_write (fw_writer fw)
      (frame_byte k # to_be_bytes (length p)) = (sk1, Ok ())" "sk_plan sk1 = plan"
    using socket_progress_Ok [OF plan assms(2)] by blast
  obtain sk2 where "write_with_progress socket_write sk1 p = (sk2, Ok ())" "sk_plan sk2 = plan"
    using socket_progress_Ok [OF plan sk1(2)] by blast
  with sk1 assms(3,4) show ?thesis
    by (auto simp: write_one_def frame_deliver_def max_frame_bytes_def)
qed

lemma socket_write_chunked_Ok:
  assumes plan: "\<forall>i. \<exists>n. plan i = Takes (Suc n)"
  shows "sk_plan (fw_writer fw) = plan \<Longrightarrow> list_all (\<lambda>c. length c \<le> fw_max fw) cs \<Longrightarrow>
    fw_max fw \<le> max_frame_bytes \<Longrightarrow>
    \<exists>sk'. write_chunked socket_write fw k cs = (fw\<lparr>fw_writer := sk'\<rparr>, Ok ()) \<and> sk_plan sk' = plan"
proof (induction cs arbitrary: fw)
  case Nil
  then show ?case by (auto intro!: exI [of _ "fw_writer fw"])
next
  case (Cons c cs)
  from Cons.prems obtain sk1 where
    sk1: "write_one socket_write fw k c = (fw\<lparr>fw_writer := sk1\<rparr>, Ok ())" "sk_plan sk1 = plan"
    using socket_write_one_Ok [OF plan, of fw c k] by auto
  with Cons.IH [of "fw\<lparr>fw_writer := sk1\<rparr>"] Cons.prems show ?case by auto
qed

lemma socket_frame_write_Ok:
  assumes plan: "\<forall>i. \<exists>n. plan i = Takes (Suc n)" and "sk_plan (fw_writer fw) = plan"
    and "\<not> fw_finished fw" "0 < fw_max fw" "fw_max fw \<le> max_frame_bytes"
    and "k = FrameEof \<longrightarrow> p = []" "k = FrameOpen \<longrightarrow> length p \<le> fw_max fw"
  shows "\<exists>sk'. frame_write socket_write fw k p = (fw\<lparr>fw_writer := sk'\<rparr>, Ok ()) \<and> sk_plan sk' = plan"
  using assms socket_write_one_Ok [OF plan assms(2), of "[]" k]
    socket_write_chunked_Ok [OF plan assms(2) _ assms(5), of "chunks_of (fw_max fw) p" k]
    chunks_of_sound(2) [OF assms(4), of p]
  by (auto simp: frame_write_def)

lemma socket_send_all_Ok:
  assumes "\<forall>i. \<exists>n. plan i = Takes (Suc n)" "0 < m" "m \<le> 65536"
    and "list_all (\<lambda>(k, p). k \<noteq> FrameEof \<and> (k = FrameOpen \<longrightarrow> length p \<le> m)) items"
    and "sk_plan (fw_writer fw) = plan" "\<not> fw_finished fw" "fw_max fw = m"
  shows "\<exists>fw'. send_all socket_write (Ok ()) fw items = (fw', Ok ()) \<and> fw_finished fw'"
  using assms(4-)
proof (induction items arbitrary: fw)
  case Nil
  with socket_frame_write_Ok [OF assms(1), of fw FrameEof "[]"] assms(2,3) show ?case
    by (auto simp: frame_finish_def max_frame_bytes_def)
next
  case (Cons x items)
  obtain k p where x: "x = (k, p)" by (cases x)
  with Cons.prems socket_frame_write_Ok [OF assms(1), of fw k p] assms(2,3) obtain sk' where
    w: "frame_write socket_write fw k p = (fw\<lparr>fw_writer := sk'\<rparr>, Ok ())" "sk_plan sk' = plan"
    by (auto simp: max_frame_bytes_def)
  with Cons.IH [of "fw\<lparr>fw_writer := sk'\<rparr>"] Cons.prems x show ?case by simp
qed

text \<open>
  Delivery: over a socket that accepts at least one byte at every write, a sender with a
  legal frame limit, whose items are data or an open message that fits one frame, gets
  everything through: no write fails, and the end frame is out.
\<close>

lemma frames_delivered:
  assumes "\<forall>i. \<exists>n. plan i = Takes (Suc n)" "0 < m" "m \<le> 65536"
    and "list_all (\<lambda>(k, p). k \<noteq> FrameEof \<and> (k = FrameOpen \<longrightarrow> length p \<le> m)) items"
  shows "\<exists>fw. send_all socket_write (Ok ()) (writer_new \<lparr>sk_out = [], sk_plan = plan, sk_calls = 0\<rparr> m) items
    = (fw, Ok ()) \<and> fw_finished fw"
  by (rule socket_send_all_Ok [OF assms]) (simp_all add: writer_new_def)

lemma frames_delivered_witness:
  "\<exists>fw. send_all socket_write (Ok ()) (writer_new \<lparr>sk_out = [], sk_plan = (\<lambda>_. Takes 1), sk_calls = 0\<rparr> 4)
     [(FrameOpen, ''{}''), (FrameStdout, ''hello world'')] = (fw, Ok ()) \<and> fw_finished fw"
  by (rule frames_delivered) simp_all

text \<open>
  C7. Frames round trip. However the socket splits, delays or partially accepts the bytes,
  when every write of a sender and its end were accepted, the other side reads exactly those
  writes cut into frames of the negotiated size, then the end: nothing is lost, reordered or
  moved from one stream to another.
\<close>

theorem frames_roundtrip:
  assumes "send_all socket_write flush (writer_new \<lparr>sk_out = [], sk_plan = plan, sk_calls = 0\<rparr> m) items = (fw, Ok ())"
    and "list_all (\<lambda>f. fst f \<noteq> FrameEof) items"
  shows "read_frames (reader_new (sk_out (fw_writer fw)) m) =
      (concat (map (frames_of m) items) @ [(FrameEof, [])], Ok ()) \<and>
    payload_of k (fst (read_frames (reader_new (sk_out (fw_writer fw)) m))) = payload_of k items"
proof -
  from socket_writer.send_all_out [OF assms(1)]
  have out: "sk_out (fw_writer fw) =
      concat (map frame_bytes (concat (map (frames_of m) items))) @ frame_bytes (FrameEof, []) @ []"
    and m: "0 < m" "m \<le> max_frame_bytes"
    by (simp_all add: writer_new_def)
  have read: "read_frames (reader_new (sk_out (fw_writer fw)) m) =
      (concat (map (frames_of m) items) @ [(FrameEof, [])], Ok ())"
    by (rule read_frames_written [where rest = "[]"])
      (use out m frames_of_all(1) [OF m(1) assms(2)] in \<open>simp_all add: reader_new_def\<close>)
  show ?thesis
    unfolding read using frames_of_all(2) [OF m(1) assms(2), of k] by simp
qed

theorem frames_roundtrip_witness:
  "\<exists>fw. send_all socket_write (Ok ())
       (writer_new \<lparr>sk_out = [], sk_plan = (\<lambda>_. Takes 3), sk_calls = 0\<rparr> 2)
       [(FrameStdout, ''abc''), (FrameStderr, ''x'')] = (fw, Ok ()) \<and>
     read_frames (reader_new (sk_out (fw_writer fw)) 2) =
       ([(FrameStdout, ''ab''), (FrameStdout, ''c''), (FrameStderr, ''x''), (FrameEof, [])], Ok ())"
proof -
  let ?fw = "writer_new \<lparr>sk_out = [], sk_plan = (\<lambda>_. Takes 3), sk_calls = 0\<rparr> 2"
  let ?items = "[(FrameStdout, ''abc''), (FrameStderr, ''x'')]"
  obtain fw where sent: "send_all socket_write (Ok ()) ?fw ?items = (fw, Ok ())"
    using socket_send_all_Ok [of "\<lambda>_. Takes 3" 2 ?items ?fw]
    by (auto simp: writer_new_def numeral_3_eq_3)
  from frames_roundtrip [OF this] sent show ?thesis
    by (auto simp: frames_of_def chunks_of.simps)
qed

end
