(* ===== verification/Channel.thy ===== *)
theory Channel
  imports Frames "HOL-Library.AList" "HOL-Library.Multiset"
begin

section \<open>Data channels: expectation, admission, hand-over (channel.rs)\<close>

text \<open>
  The host's listener. An operation registers an expectation and sends the plugin its channel
  id and one-use token; the plugin connects, is checked against the trusted peer, presents the
  token in its first frame, and the connection is handed to the waiting receiver. Admission
  runs in tasks of its own with two atomic parts, the locked look-up of the expectation and
  the hand-over, and anything may happen in between: the receiver may give up, the task may be
  aborted, the listener may fail.

  Three budgets bound this: active I/O, pending opens and unauthenticated handshakes. The
  permit of an operation's I/O is shared (an \<open>Arc\<close>): by the expectation, by the receiver and
  by both halves of the connection. The model keeps the references of every shared permit as a
  multiset of expectation numbers; a permit goes back when its last reference is dropped.
\<close>

subsection \<open>Who may connect\<close>

datatype trusted_peer = Process nat | User nat

record credentials =
  cd_pid :: "int option"
  cd_uid :: nat

definition trusted :: "trusted_peer \<Rightarrow> credentials \<Rightarrow> bool" where
  "trusted peer cred =
     (case peer of
        Process pid \<Rightarrow>
          (case cd_pid cred of
             None \<Rightarrow> False
           | Some v \<Rightarrow> 0 \<le> v \<and> v < 2 ^ 32 \<and> nat v = pid)
      | User uid \<Rightarrow> cd_uid cred = uid)"

record channel_request =
  rq_channel_id :: nat
  rq_token :: string

record open_frame =
  of_request :: channel_request
  of_acknowledge :: bool

definition hex_digit :: "nat \<Rightarrow> byte" where
  "hex_digit n = byte_of (if n < 10 then 48 + n else 87 + n)"

definition random_token :: "bytes \<Rightarrow> string" where
  "random_token bytes = concat (map (\<lambda>b. [hex_digit (byte_val b div 16), hex_digit (byte_val b mod 16)]) bytes)"

subsection \<open>The listener\<close>

record channel =
  ch_reader :: frame_reader
  ch_writer :: "socket frame_writer"

definition from_stream :: "bytes \<Rightarrow> socket \<Rightarrow> nat \<Rightarrow> channel" where
  "from_stream input sk m = \<lparr>ch_reader = reader_new input m, ch_writer = writer_new sk m\<rparr>"

text \<open>Each expectation has a serial number: it names its one-shot channel and its shared
  permit.\<close>

record pending =
  pn_started :: duration
  pn_token :: string
  pn_serial :: nat
  pn_progress_timeout :: duration

record receiver =
  rc_channel_id :: nat
  rc_inbox :: "channel option"

datatype task = Reading | Claimed pending channel bool

record listener =
  li_limits :: transport_limits
  li_next_channel :: nat
  li_serial :: nat
  li_pending :: "(nat \<times> pending) list"
  li_receivers :: "(nat \<times> receiver) list"
  li_next_task :: nat
  li_tasks :: "(nat \<times> task) list"
  li_halves :: "nat multiset"
  li_refs :: "nat multiset"
  li_io :: semaphore
  li_open :: semaphore
  li_handshake :: semaphore
  li_finished :: bool
  li_failed :: bool
  li_backoffs :: nat
  li_opened :: nat
  li_lost :: nat
  li_setup_us :: "nat list"

definition bind_with_limits :: "transport_limits \<Rightarrow> (error, listener) result" where
  "bind_with_limits l =
     bind_result (validate_limits l) (\<lambda>_. Ok
       \<lparr>li_limits = l, li_next_channel = 1, li_serial = 0, li_pending = [], li_receivers = [],
        li_next_task = 0, li_tasks = [], li_halves = {#}, li_refs = {#}, li_io = active_io l,
        li_open = pending_opens l, li_handshake = unauthenticated_handshakes l,
        li_finished = False, li_failed = False, li_backoffs = 0, li_opened = 0, li_lost = 0,
        li_setup_us = []\<rparr>)"

subsection \<open>Shared permits\<close>

definition arc_clone :: "nat \<Rightarrow> listener \<Rightarrow> listener" where
  "arc_clone p l = l\<lparr>li_refs := add_mset p (li_refs l)\<rparr>"

definition arc_drop :: "nat \<Rightarrow> listener \<Rightarrow> listener" where
  "arc_drop p l =
     (let refs = li_refs l - {#p#} in
      l\<lparr>li_refs := refs, li_io := (if p \<in># refs then li_io l else release_many 1 (li_io l))\<rparr>)"

definition drop_pending :: "pending \<Rightarrow> listener \<Rightarrow> listener" where
  "drop_pending e l = arc_drop (pn_serial e) (l\<lparr>li_open := release_many 1 (li_open l)\<rparr>)"

definition remove_pending :: "nat \<Rightarrow> listener \<Rightarrow> listener" where
  "remove_pending c l =
     (case map_of (li_pending l) c of
        None \<Rightarrow> l
      | Some e \<Rightarrow> drop_pending e (l\<lparr>li_pending := AList.delete c (li_pending l)\<rparr>))"

fun clear_entries :: "(nat \<times> pending) list \<Rightarrow> listener \<Rightarrow> listener" where
  "clear_entries [] l = l"
| "clear_entries ((c, e) # rest) l = clear_entries rest (drop_pending e (l\<lparr>li_pending := rest\<rparr>))"

definition clear_pending :: "listener \<Rightarrow> listener" where
  "clear_pending l = clear_entries (li_pending l) l"

text \<open>Dropping a connection drops its reader's and its writer's reference.\<close>

definition drop_channel :: "nat \<Rightarrow> listener \<Rightarrow> listener" where
  "drop_channel p l = arc_drop p (arc_drop p l)"

text \<open>An admission task that ends, whatever the reason, drops what it holds.\<close>

definition end_task :: "nat \<Rightarrow> listener \<Rightarrow> listener" where
  "end_task t l =
     (case map_of (li_tasks l) t of
        None \<Rightarrow> l
      | Some task \<Rightarrow>
          (let l' = l\<lparr>li_tasks := AList.delete t (li_tasks l),
                      li_handshake := release_many 1 (li_handshake l)\<rparr> in
           case task of
             Reading \<Rightarrow> l'
           | Claimed e ch ack \<Rightarrow>
               drop_channel (pn_serial e) (l'\<lparr>li_open := release_many 1 (li_open l')\<rparr>)))"

fun end_tasks :: "nat list \<Rightarrow> listener \<Rightarrow> listener" where
  "end_tasks [] l = l"
| "end_tasks (t # ts) l = end_tasks ts (end_task t l)"

subsection \<open>Operations\<close>

definition expect :: "bytes \<Rightarrow> duration \<Rightarrow> listener \<Rightarrow> listener \<times> (error, nat \<times> channel_request) result" where
  "expect random now l =
     (if li_finished l then (l, Err (transport ''data listener failed''))
      else case acquire ''active_io'' (li_io l) of
        Err e \<Rightarrow> (l, Err e)
      | Ok io \<Rightarrow>
          (case acquire ''pending_opens'' (li_open l) of
             Err e \<Rightarrow> (l, Err e)
           | Ok op \<Rightarrow>
               (let channel_id = li_next_channel l;
                    token = random_token random;
                    s = li_serial l;
                    l1 = l\<lparr>li_io := io, li_open := op,
                           li_next_channel := (channel_id + 1) mod 2 ^ 64, li_serial := Suc s,
                           li_refs := add_mset s (li_refs l),
                           li_receivers := (s, \<lparr>rc_channel_id = channel_id, rc_inbox = None\<rparr>) # li_receivers l\<rparr>;
                    l2 = arc_clone s (remove_pending channel_id l1);
                    entry = \<lparr>pn_started = now, pn_token = token, pn_serial = s,
                             pn_progress_timeout = output_progress_timeout (li_limits l)\<rparr>
                in (l2\<lparr>li_pending := (channel_id, entry) # li_pending l2\<rparr>,
                    Ok (s, \<lparr>rq_channel_id = channel_id, rq_token = token\<rparr>)))))"

text \<open>What the accept loop does with the result of one accept: a transient error (descriptors
  exhausted, interrupted, would block) backs off; any other ends the loop, which drops the
  admission tasks still running.\<close>

datatype accept_error = Errno nat | Interrupted | WouldBlock | OtherError

definition transient :: "accept_error \<Rightarrow> bool" where
  "transient e = (case e of Errno n \<Rightarrow> n = 23 \<or> n = 24 | Interrupted \<Rightarrow> True | WouldBlock \<Rightarrow> True
     | OtherError \<Rightarrow> False)"

definition accept_failed :: "accept_error \<Rightarrow> listener \<Rightarrow> listener" where
  "accept_failed e l =
     (if transient e then l\<lparr>li_backoffs := li_backoffs l + 1\<rparr>
      else let l' = clear_pending (l\<lparr>li_failed := True\<rparr>) in
        (end_tasks (map fst (li_tasks l')) l')\<lparr>li_finished := True\<rparr>)"

definition accept_stream :: "listener \<Rightarrow> listener" where
  "accept_stream l =
     (if li_finished l then l
      else case try_acquire_many 1 (li_handshake l) of
        None \<Rightarrow> l
      | Some h \<Rightarrow> l\<lparr>li_handshake := h, li_tasks := (li_next_task l, Reading) # li_tasks l,
                   li_next_task := Suc (li_next_task l)\<rparr>)"

text \<open>
  Everything \<open>admit\<close> checks before it looks at the expectations. \<open>cred\<close> is what the socket
  says of its peer, \<open>input\<close> what the peer sends, \<open>late\<close> whether the first frame outlasts the
  open timeout; \<open>parse_open\<close> is the JSON decoder of an open frame, with the position of its
  error.
\<close>

definition admit_check ::
    "trusted_peer \<Rightarrow> (bytes \<Rightarrow> (nat \<times> nat, open_frame) result) \<Rightarrow> (string, credentials) result \<Rightarrow>
     bytes \<Rightarrow> socket \<Rightarrow> bool \<Rightarrow> (error, open_frame \<times> channel) result" where
  "admit_check peer parse_open cred input sk late =
     (case cred of
        Err e \<Rightarrow> Err (transport_io ''reading data peer credentials'' e)
      | Ok c \<Rightarrow>
          if \<not> trusted peer c then Err (InvalidSpec ''peer'' ''unexpected data channel peer'')
          else if late then Err (transport ''data channel open timed out'')
          else
            (let ch = from_stream input sk max_frame_bytes;
                 (reader, opened) = frame_read (ch_reader ch) in
             case opened of
               Err e \<Rightarrow> Err e
             | Ok (Some (FrameOpen, payload)) \<Rightarrow>
                 (case parse_open payload of
                    Err (line, column) \<Rightarrow> Err (InvalidSpec ''frame''
                      (''invalid open frame at line '' @ show_nat line @ '' column '' @ show_nat column))
                  | Ok f \<Rightarrow> Ok (f, ch\<lparr>ch_reader := reader\<rparr>))
             | Ok _ \<Rightarrow> Err (InvalidSpec ''frame'' ''the first frame on a data channel must be open'')))"

text \<open>The locked look-up: the expectation is taken out when the token is its own, and its
  permit moves into both halves of the connection.\<close>

definition claim :: "nat \<Rightarrow> open_frame \<Rightarrow> channel \<Rightarrow> listener \<Rightarrow> listener \<times> (error, nat) result" where
  "claim t f ch l =
     (let c = rq_channel_id (of_request f) in
      case map_of (li_pending l) c of
        None \<Rightarrow> (end_task t l, Err (InvalidSpec ''channel_id''
                  (''no operation is waiting on channel '' @ show_nat c)))
      | Some e \<Rightarrow>
          if pn_token e \<noteq> rq_token (of_request f)
          then (end_task t l, Err (InvalidSpec ''token'' ''data channel token mismatch''))
          else ((arc_clone (pn_serial e) (l\<lparr>li_pending := AList.delete c (li_pending l)\<rparr>))
                  \<lparr>li_tasks := AList.update t (Claimed e ch (of_acknowledge f)) (li_tasks l)\<rparr>,
                Ok (pn_serial e)))"

definition admit_open ::
    "trusted_peer \<Rightarrow> (bytes \<Rightarrow> (nat \<times> nat, open_frame) result) \<Rightarrow> nat \<Rightarrow> (string, credentials) result \<Rightarrow>
     bytes \<Rightarrow> socket \<Rightarrow> bool \<Rightarrow> listener \<Rightarrow> listener \<times> (error, nat \<times> channel_request) result" where
  "admit_open peer parse_open t cred input sk late l =
     (case admit_check peer parse_open cred input sk late of
        Err e \<Rightarrow> (end_task t l, Err e)
      | Ok (f, ch) \<Rightarrow>
          (case claim t f ch l of
             (l', Err e) \<Rightarrow> (l', Err e)
           | (l', Ok s) \<Rightarrow> (l', Ok (s, of_request f))))"

definition setup_samples :: nat where
  "setup_samples = 4096"

definition record_setup :: "nat \<Rightarrow> listener \<Rightarrow> listener" where
  "record_setup elapsed l =
     (let l1 = l\<lparr>li_opened := li_opened l + 1\<rparr>;
          l2 = (if length (li_setup_us l1) = setup_samples
                then l1\<lparr>li_setup_us := tl (li_setup_us l1), li_lost := li_lost l1 + 1\<rparr> else l1)
      in l2\<lparr>li_setup_us := li_setup_us l2 @ [elapsed]\<rparr>)"

text \<open>The second part: the acknowledgement, the hand-over through the one-shot channel, which
  fails when its receiver is gone, and the measurement.\<close>

definition admit_finish ::
    "nat \<Rightarrow> pending \<Rightarrow> channel \<Rightarrow> bool \<Rightarrow> duration \<Rightarrow> listener \<Rightarrow> listener \<times> (error, nat) result" where
  "admit_finish t e ch acknowledge now l =
     (let (writer, acked) = (if acknowledge then frame_write socket_write (ch_writer ch) FrameOpen []
                             else (ch_writer ch, Ok ())) in
      case acked of
        Err err \<Rightarrow> (end_task t l, Err err)
      | Ok _ \<Rightarrow>
          (let elapsed = min ((now - pn_started e) div 1000) (2 ^ 64 - 1) in
           case map_of (li_receivers l) (pn_serial e) of
             None \<Rightarrow> (end_task t l,
                      Err (transport ''the operation stopped waiting for its data channel''))
           | Some rc \<Rightarrow>
               (record_setup elapsed
                  (l\<lparr>li_tasks := AList.delete t (li_tasks l),
                     li_handshake := release_many 1 (li_handshake l),
                     li_open := release_many 1 (li_open l),
                     li_receivers := AList.update (pn_serial e)
                        (rc\<lparr>rc_inbox := Some (ch\<lparr>ch_writer := writer\<rparr>)\<rparr>) (li_receivers l)\<rparr>),
                Ok (pn_serial e))))"

text \<open>Dropping a receiver forgets its expectation, its own reference and a connection it
  never took.\<close>

definition drop_receiver :: "nat \<Rightarrow> listener \<Rightarrow> listener" where
  "drop_receiver s l =
     (case map_of (li_receivers l) s of
        None \<Rightarrow> l
      | Some rc \<Rightarrow>
          (let l1 = remove_pending (rc_channel_id rc) l;
               l2 = arc_drop s (l1\<lparr>li_receivers := AList.delete s (li_receivers l1)\<rparr>)
           in case rc_inbox rc of None \<Rightarrow> l2 | Some _ \<Rightarrow> drop_channel s l2))"

definition sender_alive :: "nat \<Rightarrow> listener \<Rightarrow> bool" where
  "sender_alive s l \<longleftrightarrow>
     list_ex (\<lambda>(_, e). pn_serial e = s) (li_pending l) \<or>
     list_ex (\<lambda>(_, t). case t of Claimed e _ _ \<Rightarrow> pn_serial e = s | Reading \<Rightarrow> False) (li_tasks l)"

text \<open>\<open>None\<close>: still waiting. A connection that is there, or a sender that is gone, is seen
  before the deadline is.\<close>

definition accept :: "bool \<Rightarrow> nat \<Rightarrow> listener \<Rightarrow> (listener \<times> (error, channel) result) option" where
  "accept late s l =
     (case map_of (li_receivers l) s of
        None \<Rightarrow> None
      | Some rc \<Rightarrow>
          (case rc_inbox rc of
             Some ch \<Rightarrow>
               (let l1 = l\<lparr>li_receivers := AList.update s (rc\<lparr>rc_inbox := None\<rparr>) (li_receivers l),
                           li_halves := add_mset s (add_mset s (li_halves l))\<rparr>
                in Some (drop_receiver s l1, Ok ch))
           | None \<Rightarrow>
               if \<not> sender_alive s l then Some (drop_receiver s l,
                 Err (transport ''the data channel was dropped before the plugin connected''))
               else if late then Some (drop_receiver s l, Err (transport ''data channel open timed out''))
               else None))"

definition accept_soon ::
    "bool \<Rightarrow> bool \<Rightarrow> nat \<Rightarrow> listener \<Rightarrow> (listener \<times> (error, channel) result) option" where
  "accept_soon outer late s l =
     (case accept late s l of
        Some done \<Rightarrow> Some done
      | None \<Rightarrow> if outer \<and> map_of (li_receivers l) s \<noteq> None
                then Some (drop_receiver s l, Err (transport
                  ''the plugin answered an operation without opening its data channel''))
                else None)"

text \<open>The operation that took the connection lets go of one half.\<close>

definition drop_half :: "nat \<Rightarrow> listener \<Rightarrow> listener" where
  "drop_half s l =
     (if s \<in># li_halves l then arc_drop s (l\<lparr>li_halves := li_halves l - {#s#}\<rparr>) else l)"

definition drop_listener :: "listener \<Rightarrow> listener" where
  "drop_listener l =
     clear_pending ((end_tasks (map fst (li_tasks l)) l)\<lparr>li_finished := True\<rparr>)"

definition diagnostics :: "listener \<Rightarrow> nat \<times> nat \<times> nat" where
  "diagnostics l =
     (active_io (li_limits l) - li_io l, pending_opens (li_limits l) - li_open l,
      unauthenticated_handshakes (li_limits l) - li_handshake l)"

definition take_setup_samples_us :: "listener \<Rightarrow> listener \<times> nat list" where
  "take_setup_samples_us l = (l\<lparr>li_setup_us := []\<rparr>, li_setup_us l)"

text \<open>
  The plugin's side. \<open>connected\<close> is the outcome of connecting to the host's socket: what the host
  will send on it, and the socket to write to; \<open>late\<close> whether the acknowledgement takes more
  than ten seconds; \<open>render_open\<close> is the JSON encoder of an open frame.
\<close>

definition open_channel ::
    "(open_frame \<Rightarrow> bytes) \<Rightarrow> nat \<Rightarrow> bool \<Rightarrow> (string, bytes \<times> socket) result \<Rightarrow> bool \<Rightarrow> channel_request \<Rightarrow>
     (error, channel) result" where
  "open_channel render_open max_frame open_ack connected late request =
     (case connected of
        Err e \<Rightarrow> Err (transport_io ''connecting to the host data socket'' e)
      | Ok (input, sk) \<Rightarrow>
          (let ch = from_stream input sk max_frame;
               payload = render_open \<lparr>of_request = request, of_acknowledge = open_ack\<rparr>;
               (writer, res) = frame_write socket_write (ch_writer ch) FrameOpen payload;
               ch = ch\<lparr>ch_writer := writer\<rparr> in
           case res of
             Err e \<Rightarrow> Err e
           | Ok _ \<Rightarrow>
               if \<not> open_ack then Ok ch
               else
                 (let (reader, got) = frame_read (ch_reader ch) in
                  if \<not> late \<and> got = Ok (Some (FrameOpen, [])) then Ok (ch\<lparr>ch_reader := reader\<rparr>)
                  else Err (transport ''data channel authentication was not acknowledged''))))"

subsection \<open>Everything that can happen\<close>

datatype channel_action =
    Expect bytes duration
  | AcceptError accept_error
  | AcceptStream
  | AdmitOpen nat "(string, credentials) result" bytes socket bool
  | AdmitFinish nat duration
  | AbortTask nat
  | Accept bool nat
  | AcceptSoon bool bool nat
  | DropReceiver nat
  | DropHalf nat
  | DropListener
  | TakeSamples

datatype channel_event =
    Expected nat channel_request
  | Admitted nat "(string, credentials) result" channel_request
  | HandedOver nat
  | Connected nat
  | Failed error

definition failed :: "listener \<times> (error, 'a) result \<Rightarrow> ('a \<Rightarrow> channel_event) \<Rightarrow> listener \<times> channel_event list" where
  "failed r ev = (fst r, [case snd r of Err e \<Rightarrow> Failed e | Ok a \<Rightarrow> ev a])"

fun channel_do ::
    "trusted_peer \<Rightarrow> (bytes \<Rightarrow> (nat \<times> nat, open_frame) result) \<Rightarrow> listener \<Rightarrow> channel_action \<Rightarrow>
     listener \<times> channel_event list" where
  "channel_do peer po l (Expect random now) = failed (expect random now l) (\<lambda>(s, r). Expected s r)"
| "channel_do peer po l (AcceptError e) = (if li_finished l then (l, []) else (accept_failed e l, []))"
| "channel_do peer po l AcceptStream = (accept_stream l, [])"
| "channel_do peer po l (AdmitOpen t cred input sk late) =
     (if map_of (li_tasks l) t = Some Reading
      then failed (admit_open peer po t cred input sk late l) (\<lambda>(s, r). Admitted s cred r)
      else (l, []))"
| "channel_do peer po l (AdmitFinish t now) =
     (case map_of (li_tasks l) t of
        Some (Claimed e ch ack) \<Rightarrow> failed (admit_finish t e ch ack now l) HandedOver
      | _ \<Rightarrow> (l, []))"
| "channel_do peer po l (AbortTask t) = (end_task t l, [])"
| "channel_do peer po l (Accept late s) =
     (case accept late s l of None \<Rightarrow> (l, []) | Some r \<Rightarrow> failed r (\<lambda>_. Connected s))"
| "channel_do peer po l (AcceptSoon outer late s) =
     (case accept_soon outer late s l of None \<Rightarrow> (l, []) | Some r \<Rightarrow> failed r (\<lambda>_. Connected s))"
| "channel_do peer po l (DropReceiver s) = (drop_receiver s l, [])"
| "channel_do peer po l (DropHalf s) = (drop_half s l, [])"
| "channel_do peer po l DropListener = (drop_listener l, [])"
| "channel_do peer po l TakeSamples = (fst (take_setup_samples_us l), [])"


subsection \<open>The books\<close>

text \<open>Who holds references to shared permits, and the state of the three budgets. \<open>books X n l\<close>
  allows for references \<open>X\<close> and \<open>n\<close> open permits that an operation has taken out of the
  tables and not yet given back.\<close>

fun task_refs :: "nat \<times> task \<Rightarrow> nat multiset" where
  "task_refs (_, Reading) = {#}"
| "task_refs (_, Claimed e _ _) = {#pn_serial e, pn_serial e#}"

definition inbox_refs :: "nat \<times> receiver \<Rightarrow> nat multiset" where
  "inbox_refs x = (case rc_inbox (snd x) of None \<Rightarrow> {#} | Some _ \<Rightarrow> {#fst x, fst x#})"

definition owners :: "listener \<Rightarrow> nat multiset" where
  "owners l =
     image_mset (pn_serial \<circ> snd) (mset (li_pending l)) + image_mset fst (mset (li_receivers l)) +
     sum_mset (image_mset task_refs (mset (li_tasks l))) +
     sum_mset (image_mset inbox_refs (mset (li_receivers l))) + li_halves l"

definition held_io :: "listener \<Rightarrow> nat" where
  "held_io l = card (set_mset (li_refs l))"

definition held_opens :: "listener \<Rightarrow> nat" where
  "held_opens l = length (li_pending l) + size (filter_mset (\<lambda>x. snd x \<noteq> Reading) (mset (li_tasks l)))"

definition held_handshakes :: "listener \<Rightarrow> nat" where
  "held_handshakes l = length (li_tasks l)"

definition keyed :: "('a \<times> 'b) list \<Rightarrow> bool" where
  "keyed xs \<longleftrightarrow> distinct (map fst xs)"

definition books :: "nat multiset \<Rightarrow> nat \<Rightarrow> listener \<Rightarrow> bool" where
  "books X n l \<longleftrightarrow>
     li_refs l = owners l + X \<and>
     li_io l + held_io l = active_io (li_limits l) \<and>
     li_open l + held_opens l + n = pending_opens (li_limits l) \<and>
     li_handshake l + held_handshakes l = unauthenticated_handshakes (li_limits l) \<and>
     keyed (li_pending l) \<and> keyed (li_receivers l) \<and> keyed (li_tasks l) \<and>
     (\<forall>p\<in>#li_refs l. p < li_serial l) \<and> (\<forall>t\<in>fst ` set (li_tasks l). t < li_next_task l)"

declare release_many_def [simp]

lemma keyed_Nil [simp]: "keyed []"
  by (simp add: keyed_def)

lemma keyed_delete [simp]: "keyed xs \<Longrightarrow> keyed (AList.delete k xs)"
  by (simp add: keyed_def distinct_delete)

lemma keyed_update [simp]: "keyed xs \<Longrightarrow> keyed (AList.update k v xs)"
  by (simp add: keyed_def distinct_update)

lemma set_delete_keys: "set (AList.delete k xs) \<subseteq> set xs"
  by (induction xs) auto

lemma delete_keys_gone [simp]: "k \<notin> fst ` set (AList.delete k xs)"
  by (induction xs) auto

lemma update_keys_same: "map_of xs k = Some v \<Longrightarrow> fst ` set (AList.update k w xs) = fst ` set xs"
  by (induction xs) (auto split: if_splits)

lemma mset_delete:
  "keyed xs \<Longrightarrow> map_of xs k = Some v \<Longrightarrow> mset xs = add_mset (k, v) (mset (AList.delete k xs))"
  by (induction xs) (auto simp: keyed_def)

lemma mset_update:
  "keyed xs \<Longrightarrow> map_of xs k = Some v \<Longrightarrow>
   mset (AList.update k w xs) = add_mset (k, w) (mset (AList.delete k xs))"
  by (induction xs) (auto simp: keyed_def)

lemma length_delete:
  "keyed xs \<Longrightarrow> map_of xs k = Some v \<Longrightarrow> length xs = Suc (length (AList.delete k xs))"
  using mset_delete [of xs k v] by (metis size_add_mset size_mset)

lemma length_update: "keyed xs \<Longrightarrow> map_of xs k = Some v \<Longrightarrow> length (AList.update k w xs) = length xs"
  using mset_update [of xs k v w] length_delete [of xs k v] by (metis size_add_mset size_mset)

lemma books_arc_drop:
  assumes "books (add_mset p X) n l" shows "books X n (arc_drop p l)"
proof -
  define S where "S = owners l + X"
  from assms have R: "li_refs l = add_mset p S" by (simp add: books_def S_def)
  then have drop: "arc_drop p l = l\<lparr>li_refs := S, li_io := (if p \<in># S then li_io l else Suc (li_io l))\<rparr>"
    (is "_ = ?l") by (simp add: arc_drop_def Let_def)
  have "owners ?l = owners l" by (simp add: owners_def)
  moreover have "li_io ?l + held_io ?l = li_io l + held_io l"
    by (simp add: held_io_def R insert_absorb)
  moreover have "held_opens ?l = held_opens l" "held_handshakes ?l = held_handshakes l"
    by (simp_all add: held_opens_def held_handshakes_def)
  moreover have "\<forall>q\<in>#S. q < li_serial l" using assms R by (simp add: books_def)
  ultimately show ?thesis using assms unfolding drop books_def by (simp add: S_def)
qed

lemma books_arc_clone: "books X n l \<Longrightarrow> p \<in># li_refs l \<Longrightarrow> books (add_mset p X) n (arc_clone p l)"
  by (auto simp: books_def arc_clone_def held_io_def held_opens_def held_handshakes_def
      owners_def insert_absorb)

lemma books_open_release: "books X (Suc n) l \<Longrightarrow> books X n (l\<lparr>li_open := Suc (li_open l)\<rparr>)"
  by (auto simp: books_def held_io_def held_opens_def held_handshakes_def owners_def)

lemma books_drop_channel: "books (add_mset p (add_mset p X)) n l \<Longrightarrow> books X n (drop_channel p l)"
  by (simp add: drop_channel_def books_arc_drop)

lemma books_drop_pending: "books (add_mset (pn_serial e) X) (Suc n) l \<Longrightarrow> books X n (drop_pending e l)"
  by (simp add: drop_pending_def books_arc_drop books_open_release)

lemma books_take_pending:
  assumes "books X n l" "map_of (li_pending l) c = Some e"
  shows "books (add_mset (pn_serial e) X) (Suc n) (l\<lparr>li_pending := AList.delete c (li_pending l)\<rparr>)"
  using assms mset_delete [of "li_pending l" c e] length_delete [of "li_pending l" c e]
  by (auto simp: books_def held_io_def held_opens_def held_handshakes_def owners_def)

lemma books_remove_pending: "books X n l \<Longrightarrow> books X n (remove_pending c l)"
  by (auto simp: remove_pending_def intro: books_drop_pending books_take_pending split: option.split)

lemma books_clear_entries: "books X n l \<Longrightarrow> li_pending l = es \<Longrightarrow> books X n (clear_entries es l)"
proof (induction es arbitrary: l)
  case Nil
  then show ?case by simp
next
  case (Cons x es)
  obtain c e where x: "x = (c, e)" by (cases x)
  with Cons.prems have "AList.delete c (li_pending l) = es"
    by (auto simp: books_def keyed_def)
  with books_take_pending [of X n l c e] Cons.prems x
  have "books X n (drop_pending e (l\<lparr>li_pending := es\<rparr>))"
    by (auto intro: books_drop_pending)
  with Cons.IH x show ?case by (simp add: drop_pending_def arc_drop_def Let_def)
qed

lemma books_clear_pending: "books X n l \<Longrightarrow> books X n (clear_pending l)"
  by (simp add: clear_pending_def books_clear_entries)

lemma books_take_task:
  assumes "books X n l" "map_of (li_tasks l) t = Some k"
  shows "books (task_refs (t, k) + X) (if k = Reading then n else Suc n)
    (l\<lparr>li_tasks := AList.delete t (li_tasks l), li_handshake := release_many 1 (li_handshake l)\<rparr>)"
  using assms mset_delete [of "li_tasks l" t k] length_delete [of "li_tasks l" t k]
    set_delete_keys [of t "li_tasks l"]
  by (auto simp: books_def held_io_def held_opens_def held_handshakes_def owners_def ac_simps)

lemma books_end_task:
  assumes "books X n l" shows "books X n (end_task t l)"
proof (cases "map_of (li_tasks l) t")
  case (Some k)
  let ?l = "l\<lparr>li_tasks := AList.delete t (li_tasks l), li_handshake := Suc (li_handshake l)\<rparr>"
  show ?thesis
  proof (cases k)
    case Reading
    with books_take_task [OF assms Some] Some show ?thesis by (simp add: end_task_def)
  next
    case (Claimed e ch ack)
    with books_take_task [OF assms Some]
    have "books (add_mset (pn_serial e) (add_mset (pn_serial e) X)) (Suc n) ?l" by simp
    from books_drop_channel [OF books_open_release [OF this]] Some Claimed show ?thesis
      by (simp add: end_task_def)
  qed
qed (use assms in \<open>simp add: end_task_def\<close>)

lemma books_end_tasks: "books X n l \<Longrightarrow> books X n (end_tasks ts l)"
  by (induction ts arbitrary: l) (auto intro: books_end_task)


lemma drop_simps [simp]:
  "li_pending (arc_drop p l) = li_pending l" "li_tasks (arc_drop p l) = li_tasks l"
  "li_receivers (arc_drop p l) = li_receivers l" "li_serial (arc_drop p l) = li_serial l"
  "li_pending (drop_pending e l) = li_pending l" "li_tasks (drop_pending e l) = li_tasks l"
  "li_receivers (drop_pending e l) = li_receivers l" "li_serial (drop_pending e l) = li_serial l"
  "li_pending (drop_channel p l) = li_pending l" "li_tasks (drop_channel p l) = li_tasks l"
  "li_receivers (drop_channel p l) = li_receivers l" "li_serial (drop_channel p l) = li_serial l"
  by (simp_all add: arc_drop_def drop_pending_def drop_channel_def Let_def)

lemma books_irrelevant [simp]:
  "books X n (l\<lparr>li_failed := b\<rparr>) = books X n l"
  "books X n (l\<lparr>li_finished := b\<rparr>) = books X n l"
  "books X n (l\<lparr>li_backoffs := k\<rparr>) = books X n l"
  "books X n (l\<lparr>li_setup_us := us\<rparr>) = books X n l"
  "books X n (l\<lparr>li_opened := k\<rparr>) = books X n l"
  "books X n (l\<lparr>li_lost := k\<rparr>) = books X n l"
  "books X n (l\<lparr>li_next_channel := k\<rparr>) = books X n l"
  by (simp_all add: books_def owners_def held_io_def held_opens_def held_handshakes_def)

lemma books_record_setup: "books X n (record_setup us l) = books X n l"
  by (simp add: record_setup_def Let_def)

lemma refs_remove_pending: "p \<in># li_refs (remove_pending c l) \<Longrightarrow> p \<in># li_refs l"
  by (auto simp: remove_pending_def drop_pending_def arc_drop_def Let_def dest: in_diffD
      split: option.splits)

lemma books_new_receiver:
  assumes "books {#} 0 l" "li_io l = Suc io" "li_open l = Suc op"
  shows "books {#} 1 (l\<lparr>li_io := io, li_open := op, li_next_channel := k,
      li_serial := Suc (li_serial l), li_refs := add_mset (li_serial l) (li_refs l),
      li_receivers := (li_serial l, \<lparr>rc_channel_id = c, rc_inbox = None\<rparr>) # li_receivers l\<rparr>)"
proof -
  from assms have "li_serial l \<notin># li_refs l" by (auto simp: books_def)
  moreover from this assms have "li_serial l \<notin> fst ` set (li_receivers l)"
    by (auto simp: books_def owners_def)
  ultimately show ?thesis using assms
    by (auto simp: books_def owners_def held_io_def held_opens_def held_handshakes_def keyed_def
        inbox_refs_def less_Suc_eq)
qed

lemma books_add_pending:
  assumes "books (add_mset (pn_serial e) X) (Suc n) l" "c \<notin> fst ` set (li_pending l)"
  shows "books X n (l\<lparr>li_pending := (c, e) # li_pending l\<rparr>)"
  using assms
  by (auto simp: books_def owners_def held_io_def held_opens_def held_handshakes_def keyed_def)

lemma remove_pending_simps [simp]:
  "li_receivers (remove_pending c l) = li_receivers l" "li_tasks (remove_pending c l) = li_tasks l"
  "li_serial (remove_pending c l) = li_serial l" "li_halves (remove_pending c l) = li_halves l"
  "li_limits (remove_pending c l) = li_limits l" "li_next_task (remove_pending c l) = li_next_task l"
  "li_pending (remove_pending c l) = AList.delete c (li_pending l)"
  by (auto simp: remove_pending_def drop_pending_def arc_drop_def Let_def map_of_eq_None_iff
      split: option.split)

lemma books_expect: "books {#} 0 l \<Longrightarrow> books {#} 0 (fst (expect random now l))"
proof -
  assume b: "books {#} 0 l"
  show ?thesis
  proof (cases "\<exists>io op. li_io l = Suc io \<and> li_open l = Suc op \<and> \<not> li_finished l")
    case False
    with b show ?thesis
      by (auto simp: expect_def acquire_def try_acquire_many_def gr0_conv_Suc Suc_le_eq
          split: if_splits option.splits)
  next
    case True
    then obtain io op where av: "li_io l = Suc io" "li_open l = Suc op" "\<not> li_finished l" by blast
    let ?s = "li_serial l" and ?c = "li_next_channel l"
    let ?e = "\<lparr>pn_started = now, pn_token = random_token random, pn_serial = ?s,
        pn_progress_timeout = output_progress_timeout (li_limits l)\<rparr>"
    let ?l1 = "l\<lparr>li_io := io, li_open := op, li_next_channel := (?c + 1) mod 2 ^ 64,
        li_serial := Suc ?s, li_refs := add_mset ?s (li_refs l),
        li_receivers := (?s, \<lparr>rc_channel_id = ?c, rc_inbox = None\<rparr>) # li_receivers l\<rparr>"
    have "books {#} 1 ?l1" by (rule books_new_receiver [OF b av(1,2)])
    then have r: "books {#} 1 (remove_pending ?c ?l1)" by (rule books_remove_pending)
    then have "?s \<in># li_refs (remove_pending ?c ?l1)" by (simp add: books_def owners_def)
    with r have "books {#?s#} 1 (arc_clone ?s (remove_pending ?c ?l1))" by (rule books_arc_clone)
    then have "books {#} 0 ((arc_clone ?s (remove_pending ?c ?l1))
        \<lparr>li_pending := (?c, ?e) # li_pending (arc_clone ?s (remove_pending ?c ?l1))\<rparr>)"
      by (intro books_add_pending) (simp_all add: arc_clone_def)
    with av show ?thesis
      by (simp add: expect_def acquire_def try_acquire_many_def Let_def)
  qed
qed

lemma books_claim_task:
  assumes b: "books {#pn_serial e, pn_serial e#} 1 l" and t: "map_of (li_tasks l) t = Some Reading"
  shows "books {#} 0 (l\<lparr>li_tasks := AList.update t (Claimed e ch ack) (li_tasks l)\<rparr>)"
proof -
  let ?T = "AList.update t (Claimed e ch ack) (li_tasks l)"
  have k: "keyed (li_tasks l)" using b by (simp add: books_def)
  then have "mset ?T = add_mset (t, Claimed e ch ack) (mset (AList.delete t (li_tasks l)))"
    "mset (li_tasks l) = add_mset (t, Reading) (mset (AList.delete t (li_tasks l)))"
    using t by (simp_all add: mset_update mset_delete)
  then show ?thesis using b
    by (auto simp: books_def owners_def held_io_def held_opens_def held_handshakes_def
        length_update [OF k t] update_keys_same [OF t])
qed

lemma books_claim:
  assumes b: "books {#} 0 l" and t: "map_of (li_tasks l) t = Some Reading"
  shows "books {#} 0 (fst (claim t f ch l))"
proof (cases "map_of (li_pending l) (rq_channel_id (of_request f))")
  case None
  with b show ?thesis by (simp add: claim_def Let_def books_end_task)
next
  case (Some e)
  let ?l = "l\<lparr>li_pending := AList.delete (rq_channel_id (of_request f)) (li_pending l)\<rparr>"
  from books_take_pending [OF b Some] have "books {#pn_serial e#} 1 ?l" by simp
  then have "books {#pn_serial e, pn_serial e#} 1 (arc_clone (pn_serial e) ?l)"
    by (intro books_arc_clone) (simp_all add: books_def)
  from books_claim_task [OF this, of t ch "of_acknowledge f"] t Some b show ?thesis
    by (simp add: claim_def Let_def books_end_task arc_clone_def)
qed

lemma books_admit_open:
  "books {#} 0 l \<Longrightarrow> map_of (li_tasks l) t = Some Reading \<Longrightarrow>
   books {#} 0 (fst (admit_open peer po t cred input sk late l))"
  using books_claim [of l t]
  by (auto simp: admit_open_def books_end_task split: sum.split prod.split) (metis fst_conv)+

lemma books_set_inbox:
  assumes b: "books {#s, s#} n l" and rc: "map_of (li_receivers l) s = Some rc" and "rc_inbox rc = None"
  shows "books {#} n (l\<lparr>li_receivers := AList.update s (rc\<lparr>rc_inbox := Some ch\<rparr>) (li_receivers l)\<rparr>)"
  using b mset_update [OF _ rc, of "rc\<lparr>rc_inbox := Some ch\<rparr>"] mset_delete [OF _ rc] assms(3)
  by (auto simp: books_def owners_def held_io_def held_opens_def held_handshakes_def inbox_refs_def)

lemma books_take_inbox:
  assumes b: "books X n l" and rc: "map_of (li_receivers l) s = Some rc" and "rc_inbox rc = Some ch"
  shows "books X n (l\<lparr>li_receivers := AList.update s (rc\<lparr>rc_inbox := None\<rparr>) (li_receivers l),
      li_halves := add_mset s (add_mset s (li_halves l))\<rparr>)"
  using b mset_update [OF _ rc, of "rc\<lparr>rc_inbox := None\<rparr>"] mset_delete [OF _ rc] assms(3)
  by (auto simp: books_def owners_def held_io_def held_opens_def held_handshakes_def inbox_refs_def)

lemma books_take_receiver:
  assumes b: "books X n l" and rc: "map_of (li_receivers l) s = Some rc"
  shows "books (inbox_refs (s, rc) + add_mset s X) n (l\<lparr>li_receivers := AList.delete s (li_receivers l)\<rparr>)"
  using b mset_delete [OF _ rc]
  by (auto simp: books_def owners_def held_io_def held_opens_def held_handshakes_def ac_simps)

lemma books_drop_receiver:
  assumes b: "books X n l" shows "books X n (drop_receiver s l)"
proof (cases "map_of (li_receivers l) s")
  case (Some rc)
  let ?l = "remove_pending (rc_channel_id rc) l"
  from books_take_receiver [OF books_remove_pending [OF b], where s = s and rc = rc] Some
  have "books (inbox_refs (s, rc) + add_mset s X) n (?l\<lparr>li_receivers := AList.delete s (li_receivers ?l)\<rparr>)"
    by simp
  then show ?thesis using Some
    by (cases "rc_inbox rc")
      (simp_all add: drop_receiver_def Let_def inbox_refs_def books_arc_drop books_drop_channel)
qed (use b in \<open>simp add: drop_receiver_def\<close>)

lemma books_accept: "books {#} 0 l \<Longrightarrow> accept late s l = Some r \<Longrightarrow> books {#} 0 (fst r)"
  by (auto simp: accept_def Let_def intro!: books_drop_receiver books_take_inbox
      split: option.splits if_splits)

lemma books_accept_soon: "books {#} 0 l \<Longrightarrow> accept_soon outer late s l = Some r \<Longrightarrow> books {#} 0 (fst r)"
  by (auto simp: accept_soon_def intro: books_accept books_drop_receiver split: option.splits if_splits)

lemma books_drop_half: "books X n l \<Longrightarrow> books X n (drop_half s l)"
  by (auto simp: drop_half_def intro!: books_arc_drop)
    (auto simp: books_def owners_def held_io_def held_opens_def held_handshakes_def)

lemma books_accept_stream: "books X n l \<Longrightarrow> books X n (accept_stream l)"
  by (auto simp: accept_stream_def try_acquire_many_def books_def owners_def held_io_def
      held_opens_def held_handshakes_def keyed_def split: option.split)

lemma books_accept_failed: "books X n l \<Longrightarrow> books X n (accept_failed e l)"
  by (auto simp: accept_failed_def Let_def intro!: books_end_tasks books_clear_pending)

lemma books_drop_listener: "books X n l \<Longrightarrow> books X n (drop_listener l)"
  by (auto simp: drop_listener_def intro!: books_clear_pending books_end_tasks)


lemma books_hand_over:
  assumes b: "books {#} 0 l" and t: "map_of (li_tasks l) t = Some (Claimed e ch ack)"
    and rc: "map_of (li_receivers l) (pn_serial e) = Some rc" "rc_inbox rc = None"
  shows "books {#} 0 (l\<lparr>li_tasks := AList.delete t (li_tasks l), li_handshake := Suc (li_handshake l),
      li_open := Suc (li_open l),
      li_receivers := AList.update (pn_serial e) (rc\<lparr>rc_inbox := Some ch'\<rparr>) (li_receivers l)\<rparr>)"
proof -
  let ?l = "l\<lparr>li_tasks := AList.delete t (li_tasks l), li_handshake := Suc (li_handshake l)\<rparr>"
  from books_take_task [OF b t] have "books {#pn_serial e, pn_serial e#} 1 ?l" by simp
  then have "books {#pn_serial e, pn_serial e#} 0 (?l\<lparr>li_open := Suc (li_open ?l)\<rparr>)"
    by (intro books_open_release) simp
  from books_set_inbox [OF this, of rc ch'] rc show ?thesis by simp
qed

text \<open>An inbox is filled once: while an admission task holds an expectation's sender, the
  receiver of that expectation has nothing in its inbox. An expectation has one sender: it is
  in the pending table, in one task, or gone.\<close>

fun task_serial :: "nat \<times> task \<Rightarrow> nat multiset" where
  "task_serial (_, Reading) = {#}"
| "task_serial (_, Claimed e _ _) = {#pn_serial e#}"

definition pending_serials :: "listener \<Rightarrow> nat multiset" where
  "pending_serials l = image_mset (pn_serial \<circ> snd) (mset (li_pending l))"

definition task_serials :: "listener \<Rightarrow> nat multiset" where
  "task_serials l = sum_mset (image_mset task_serial (mset (li_tasks l)))"

definition full_inboxes :: "listener \<Rightarrow> nat multiset" where
  "full_inboxes l = image_mset fst (filter_mset (\<lambda>x. rc_inbox (snd x) \<noteq> None) (mset (li_receivers l)))"

definition senders :: "listener \<Rightarrow> nat multiset" where
  "senders l = pending_serials l + task_serials l + full_inboxes l"

definition one_sender :: "listener \<Rightarrow> bool" where
  "one_sender l \<longleftrightarrow> (\<forall>s. count (senders l) s \<le> (if s < li_serial l then 1 else 0))"

text \<open>Dropping things only takes entries out of the tables.\<close>

definition shrinks :: "listener \<Rightarrow> listener \<Rightarrow> bool" where
  "shrinks l l' \<longleftrightarrow>
     mset (li_pending l') \<subseteq># mset (li_pending l) \<and> mset (li_tasks l') \<subseteq># mset (li_tasks l) \<and>
     full_inboxes l' \<subseteq># full_inboxes l \<and> li_serial l' = li_serial l"

lemma shrinks_refl [intro, simp]: "shrinks l l"
  by (simp add: shrinks_def)

lemma shrinks_trans [trans]: "shrinks l l' \<Longrightarrow> shrinks l' l'' \<Longrightarrow> shrinks l l''"
  by (auto simp: shrinks_def intro: subset_mset.order_trans)

lemma delete_subset [simp]: "mset (AList.delete k xs) \<subseteq># mset xs"
  by (simp add: AList.delete_eq)

lemma inboxes_delete [simp]:
  "image_mset fst (filter_mset P (mset (AList.delete k xs))) \<subseteq># image_mset fst (filter_mset P (mset xs))"
  by (intro image_mset_subseteq_mono multiset_filter_mono) simp

lemma shrinks_arc_drop [simp]: "shrinks l (arc_drop p l')= shrinks l l'"
  by (simp add: arc_drop_def Let_def shrinks_def full_inboxes_def)

lemma shrinks_drop_pending [simp]: "shrinks l (drop_pending e l') = shrinks l l'"
  by (simp add: drop_pending_def) (simp add: shrinks_def full_inboxes_def)

lemma shrinks_drop_channel [simp]: "shrinks l (drop_channel p l') = shrinks l l'"
  by (simp add: drop_channel_def)

lemma shrinks_irrelevant [simp]:
  "shrinks l (l'\<lparr>li_failed := b\<rparr>) = shrinks l l'" "shrinks l (l'\<lparr>li_finished := b\<rparr>) = shrinks l l'"
  "shrinks l (l'\<lparr>li_backoffs := k\<rparr>) = shrinks l l'" "shrinks l (l'\<lparr>li_setup_us := us\<rparr>) = shrinks l l'"
  "shrinks l (l'\<lparr>li_opened := k\<rparr>) = shrinks l l'" "shrinks l (l'\<lparr>li_lost := k\<rparr>) = shrinks l l'"
  "shrinks l (l'\<lparr>li_open := k\<rparr>) = shrinks l l'" "shrinks l (l'\<lparr>li_handshake := k\<rparr>) = shrinks l l'"
  "shrinks l (l'\<lparr>li_halves := X\<rparr>) = shrinks l l'"
  by (simp_all add: shrinks_def full_inboxes_def)

lemma shrinks_remove_pending [simp]: "shrinks l (remove_pending c l)"
  by (auto simp: remove_pending_def shrinks_def full_inboxes_def split: option.split)

lemma shrinks_clear_entries: "li_pending l = es \<Longrightarrow> shrinks l (clear_entries es l)"
proof (induction es arbitrary: l)
  case (Cons x es)
  obtain c e where x: "x = (c, e)" by (cases x)
  let ?l = "drop_pending e (l\<lparr>li_pending := es\<rparr>)"
  have "shrinks l ?l" using Cons.prems by (simp add: shrinks_def full_inboxes_def)
  also have "shrinks ?l (clear_entries es ?l)"
    by (rule Cons.IH) (simp add: drop_pending_def arc_drop_def Let_def)
  finally show ?case by (simp add: x)
qed simp

lemma shrinks_clear_pending [simp]: "shrinks l (clear_pending l)"
  by (simp add: clear_pending_def shrinks_clear_entries)

lemma shrinks_end_task [simp]: "shrinks l (end_task t l)"
  by (auto simp: end_task_def Let_def shrinks_def full_inboxes_def split: option.split task.split)

lemma shrinks_end_tasks [simp]: "shrinks l (end_tasks ts l)"
  by (induction ts arbitrary: l) (auto intro: shrinks_trans [OF shrinks_end_task])

lemma shrinks_drop_receiver [simp]: "shrinks l (drop_receiver s l)"
proof (cases "map_of (li_receivers l) s")
  case (Some rc)
  let ?l = "remove_pending (rc_channel_id rc) l"
  have "shrinks l ?l" by simp
  also have "shrinks ?l (?l\<lparr>li_receivers := AList.delete s (li_receivers l)\<rparr>)"
    by (simp add: shrinks_def full_inboxes_def)
  finally show ?thesis using Some by (simp add: drop_receiver_def Let_def split: option.split)
qed (simp add: drop_receiver_def)

lemma shrinks_accept_failed [simp]: "shrinks l (accept_failed e l)"
proof -
  let ?l = "l\<lparr>li_failed := True\<rparr>"
  have "shrinks l ?l" by simp
  also have "shrinks ?l (clear_pending ?l)" by simp
  also have "shrinks (clear_pending ?l) (end_tasks ts (clear_pending ?l))" for ts by simp
  finally show ?thesis by (simp add: accept_failed_def Let_def)
qed

lemma shrinks_drop_listener [simp]: "shrinks l (drop_listener l)"
  unfolding drop_listener_def by (rule shrinks_trans [OF _ shrinks_clear_pending]) simp

lemma sum_image_subset: "A \<subseteq># B \<Longrightarrow> sum_mset (image_mset f A) \<subseteq># sum_mset (image_mset f B)"
  by (auto simp: mset_subset_eq_exists_conv)

lemma shrinks_senders: "shrinks l l' \<Longrightarrow> senders l' \<subseteq># senders l"
  unfolding shrinks_def senders_def pending_serials_def task_serials_def
  by (intro mset_subset_eq_mono_add image_mset_subseteq_mono sum_image_subset) auto


lemma one_sender_shrinks:
  assumes "shrinks l l'" "one_sender l" shows "one_sender l'"
proof -
  have "count (senders l') s \<le> count (senders l) s" for s
    using shrinks_senders [OF assms(1)] by (rule mset_subset_eq_count)
  with assms show ?thesis unfolding one_sender_def shrinks_def by (metis le_trans)
qed

subsection \<open>The history of a listener\<close>

definition admitted :: "channel_event list \<Rightarrow> nat list" where
  "admitted evs = concat (map (\<lambda>e. case e of Admitted s _ _ \<Rightarrow> [s] | _ \<Rightarrow> []) evs)"

lemma admitted_append [simp]: "admitted (a @ b) = admitted a @ admitted b"
  by (simp add: admitted_def)

lemma admitted_simps [simp]:
  "admitted [] = []" "admitted [Admitted s c r] = [s]" "admitted [Failed e] = []"
  "admitted [HandedOver s] = []" "admitted [Connected s] = []" "admitted [Expected s r] = []"
  by (simp_all add: admitted_def)

text \<open>\<open>log_ok\<close>: no expectation was admitted twice, whoever was admitted was trusted and presented
  what an expectation was given, and only the admitted were handed on. \<open>log_of\<close>: the state
  agrees with the log.\<close>

definition log_ok :: "trusted_peer \<Rightarrow> channel_event list \<Rightarrow> bool" where
  "log_ok peer evs \<longleftrightarrow>
     distinct (admitted evs) \<and>
     (\<forall>s cred r. Admitted s cred r \<in> set evs \<longrightarrow>
        (\<exists>c. cred = Ok c \<and> trusted peer c) \<and> Expected s r \<in> set evs) \<and>
     (\<forall>s. Connected s \<in> set evs \<longrightarrow> s \<in> set (admitted evs))"

definition expected_entry :: "channel_event list \<Rightarrow> nat \<times> pending \<Rightarrow> bool" where
  "expected_entry evs x \<longleftrightarrow>
     Expected (pn_serial (snd x)) \<lparr>rq_channel_id = fst x, rq_token = pn_token (snd x)\<rparr> \<in> set evs"

lemma expected_entry_append: "expected_entry (a @ b) x \<longleftrightarrow> expected_entry a x \<or> expected_entry b x"
  by (auto simp: expected_entry_def)

definition log_of :: "listener \<Rightarrow> channel_event list \<Rightarrow> bool" where
  "log_of l evs \<longleftrightarrow>
     (\<forall>s\<in>set (admitted evs). s \<notin># pending_serials l \<and> s < li_serial l) \<and>
     set_mset (task_serials l) \<subseteq> set (admitted evs) \<and> set_mset (full_inboxes l) \<subseteq> set (admitted evs) \<and>
     (\<forall>x\<in>set (li_pending l). expected_entry evs x)"

definition quiet :: "channel_event list \<Rightarrow> bool" where
  "quiet es \<longleftrightarrow> (\<forall>e\<in>set es. (\<exists>x. e = Failed x) \<or> (\<exists>s. e = HandedOver s))"

lemma quiet_simps [simp]: "quiet []" "quiet [Failed e]" "quiet [HandedOver s]"
  by (auto simp: quiet_def)

lemma admitted_quiet: "quiet es \<Longrightarrow> admitted es = []"
  by (auto simp: quiet_def admitted_def)

lemma shrinks_sets:
  assumes "shrinks l l'"
  shows "set (li_pending l') \<subseteq> set (li_pending l)" "set_mset (pending_serials l') \<subseteq> set_mset (pending_serials l)"
    "set_mset (task_serials l') \<subseteq> set_mset (task_serials l)"
    "set_mset (full_inboxes l') \<subseteq> set_mset (full_inboxes l)" "li_serial l' = li_serial l"
proof -
  have p: "set (li_pending l') \<subseteq> set (li_pending l)" and t: "set (li_tasks l') \<subseteq> set (li_tasks l)"
    using assms by (auto simp: shrinks_def dest!: set_mset_mono)
  show "set (li_pending l') \<subseteq> set (li_pending l)" by (fact p)
  show "set_mset (pending_serials l') \<subseteq> set_mset (pending_serials l)"
    using p by (auto simp: pending_serials_def)
  show "set_mset (task_serials l') \<subseteq> set_mset (task_serials l)"
    using t by (auto simp: task_serials_def)
  show "set_mset (full_inboxes l') \<subseteq> set_mset (full_inboxes l)" "li_serial l' = li_serial l"
    using assms by (auto simp: shrinks_def dest!: set_mset_mono)
qed

lemma log_ok_quiet: "log_ok peer evs \<Longrightarrow> quiet es \<Longrightarrow> log_ok peer (evs @ es)"
  using admitted_quiet [of es] by (auto simp: log_ok_def quiet_def)

lemma log_of_shrinks: "log_of l evs \<Longrightarrow> shrinks l l' \<Longrightarrow> quiet es \<Longrightarrow> log_of l' (evs @ es)"
  using shrinks_sets [of l l'] admitted_quiet [of es]
  unfolding log_of_def expected_entry_append admitted_append by auto

lemma log_of_more: "log_of l evs \<Longrightarrow> admitted es = [] \<Longrightarrow> log_of l (evs @ es)"
  unfolding log_of_def expected_entry_append by simp

definition sound :: "trusted_peer \<Rightarrow> listener \<Rightarrow> channel_event list \<Rightarrow> bool" where
  "sound peer l evs \<longleftrightarrow> books {#} 0 l \<and> one_sender l \<and> log_ok peer evs \<and> log_of l evs"

lemma sound_shrinks:
  "sound peer l evs \<Longrightarrow> shrinks l l' \<Longrightarrow> books {#} 0 l' \<Longrightarrow> quiet es \<Longrightarrow> sound peer l' (evs @ es)"
  by (auto simp: sound_def intro: log_ok_quiet log_of_shrinks one_sender_shrinks)


lemma expect_Ok:
  assumes "expect random now l = (l', Ok (s, r))"
  shows "s = li_serial l" "li_serial l' = Suc s" "li_tasks l' = li_tasks l"
    "full_inboxes l' = full_inboxes l"
    "\<exists>e. li_pending l' = (rq_channel_id r, e) # AList.delete (rq_channel_id r) (li_pending l) \<and>
       pn_serial e = s \<and> pn_token e = rq_token r"
  using assms
  by (auto simp: expect_def acquire_def Let_def arc_clone_def full_inboxes_def
      split: if_splits option.splits)

lemma expect_Err: "expect random now l = (l', Err e) \<Longrightarrow> l' = l"
  by (auto simp: expect_def Let_def split: if_splits sum.splits)

lemma senders_count_0: "one_sender l \<Longrightarrow> li_serial l \<notin># senders l"
  unfolding one_sender_def not_in_iff by (metis (full_types) le_zero_eq less_irrefl)

lemma sound_expect:
  assumes "sound peer l evs"
  shows "sound peer (fst (expect random now l))
    (evs @ [case snd (expect random now l) of Err e \<Rightarrow> Failed e | Ok (s, r) \<Rightarrow> Expected s r])"
proof (cases "snd (expect random now l)")
  case (Inl e)
  then have "fst (expect random now l) = l" by (metis expect_Err prod.collapse)
  moreover have "books {#} 0 l" using assms by (simp add: sound_def)
  ultimately show ?thesis using sound_shrinks [OF assms, of l "[Failed e]"] Inl by simp
next
  case (Inr sr)
  obtain s r where sr: "sr = (s, r)" by (cases sr)
  let ?l = "fst (expect random now l)"
  have "expect random now l = (?l, Ok (s, r))" using Inr sr by (metis prod.collapse)
  note ok = expect_Ok [OF this]
  then obtain e where e: "li_pending ?l = (rq_channel_id r, e) # AList.delete (rq_channel_id r) (li_pending l)"
    "pn_serial e = s" "pn_token e = rq_token r" by blast
  let ?p = "l\<lparr>li_pending := AList.delete (rq_channel_id r) (li_pending l)\<rparr>"
  have sh: "shrinks l ?p" by (simp add: shrinks_def full_inboxes_def)
  have send: "senders ?l = add_mset s (senders ?p)"
    using ok e by (simp add: senders_def pending_serials_def task_serials_def full_inboxes_def)
  have "one_sender ?p" using one_sender_shrinks [OF sh] assms by (simp add: sound_def)
  then have "one_sender ?l"
    using senders_count_0 [of ?p] ok unfolding one_sender_def send
    by (auto simp: not_in_iff less_Suc_eq split: if_splits)
  moreover have "log_ok peer (evs @ [Expected s r])"
    using assms by (auto simp: sound_def log_ok_def)
  moreover have "log_of ?p (evs @ [])"
    using assms by (intro log_of_shrinks [OF _ sh]) (auto simp: sound_def)
  then have "log_of ?l (evs @ [Expected s r])"
    using ok e by (auto simp: log_of_def pending_serials_def task_serials_def expected_entry_def
        full_inboxes_def)
  ultimately show ?thesis using books_expect [of l random now] assms Inr sr by (simp add: sound_def)
qed


lemma claim_Ok:
  assumes "claim t f ch l = (l', Ok s)" "keyed (li_pending l)" "keyed (li_tasks l)"
    and "map_of (li_tasks l) t = Some Reading"
  shows "pending_serials l = add_mset s (pending_serials l')"
    "task_serials l' = add_mset s (task_serials l)"
    "full_inboxes l' = full_inboxes l" "li_serial l' = li_serial l"
    "set (li_pending l') \<subseteq> set (li_pending l)"
    "\<exists>e. (rq_channel_id (of_request f), e) \<in> set (li_pending l) \<and> pn_serial e = s \<and>
       pn_token e = rq_token (of_request f)"
proof -
  let ?c = "rq_channel_id (of_request f)"
  from assms(1) obtain e where e: "map_of (li_pending l) ?c = Some e" "s = pn_serial e"
      "pn_token e = rq_token (of_request f)"
    and l': "l' = (arc_clone (pn_serial e) (l\<lparr>li_pending := AList.delete ?c (li_pending l)\<rparr>))
       \<lparr>li_tasks := AList.update t (Claimed e ch (of_acknowledge f)) (li_tasks l)\<rparr>"
    by (auto simp: claim_def Let_def split: option.splits if_splits)
  from e(2) show "pending_serials l = add_mset s (pending_serials l')"
    by (simp add: pending_serials_def l' arc_clone_def mset_delete [OF assms(2) e(1)])
  show "task_serials l' = add_mset s (task_serials l)"
    using mset_update [OF assms(3,4), of "Claimed e ch (of_acknowledge f)"] mset_delete [OF assms(3,4)] e(2)
    by (simp add: task_serials_def l')
  show "full_inboxes l' = full_inboxes l" "li_serial l' = li_serial l"
    by (simp_all add: l' arc_clone_def full_inboxes_def)
  show "set (li_pending l') \<subseteq> set (li_pending l)"
    using set_delete_keys by (simp add: l' arc_clone_def)
  show "\<exists>e. (?c, e) \<in> set (li_pending l) \<and> pn_serial e = s \<and> pn_token e = rq_token (of_request f)"
    using e map_of_SomeD by fast
qed

lemma claim_Err: "claim t f ch l = (l', Err e) \<Longrightarrow> l' = end_task t l"
  by (auto simp: claim_def Let_def split: option.splits if_splits)

lemma admit_check_Ok:
  "admit_check peer po cred input sk late = Ok (f, ch) \<Longrightarrow> \<exists>c. cred = Ok c \<and> trusted peer c"
  by (auto simp: admit_check_def split: sum.splits if_splits)

lemma sound_claim:
  assumes "sound peer l evs" "claim t f ch l = (l', Ok s)" "map_of (li_tasks l) t = Some Reading"
    and cred: "\<exists>c. cred = Ok c \<and> trusted peer c"
  shows "sound peer l' (evs @ [Admitted s cred (of_request f)])"
proof -
  have b: "books {#} 0 l" and o: "one_sender l" and lo: "log_ok peer evs" and lf: "log_of l evs"
    using assms(1) by (simp_all add: sound_def)
  have keyed: "keyed (li_pending l)" "keyed (li_tasks l)" using b by (simp_all add: books_def)
  note ok = claim_Ok [OF assms(2) keyed assms(3)]
  then obtain e where e: "(rq_channel_id (of_request f), e) \<in> set (li_pending l)" "pn_serial e = s"
    "pn_token e = rq_token (of_request f)" by blast
  have "senders l' = senders l" using ok by (simp add: senders_def)
  with o ok have o': "one_sender l'" by (simp add: one_sender_def)
  have s: "s \<notin> set (admitted evs)" "s < li_serial l" "s \<notin># pending_serials l'"
  proof -
    show "s \<notin> set (admitted evs)" using lf ok(1) by (auto simp: log_of_def)
    have "count (senders l) s \<le> (if s < li_serial l then 1 else 0)" using o by (simp add: one_sender_def)
    then show "s < li_serial l" "s \<notin># pending_serials l'"
      using ok(1) by (auto simp: senders_def not_in_iff split: if_splits)
  qed
  have "Expected s (of_request f) \<in> set evs"
    using lf e by (cases "of_request f") (auto simp: log_of_def expected_entry_def)
  with lo s cred have "log_ok peer (evs @ [Admitted s cred (of_request f)])"
    by (auto simp: log_ok_def)
  moreover have "log_of l' (evs @ [Admitted s cred (of_request f)])"
    using lf ok s unfolding log_of_def expected_entry_append by auto
  moreover have "books {#} 0 l'" using books_claim [OF b assms(3), of f ch] assms(2) by simp
  ultimately show ?thesis using o' by (simp add: sound_def)
qed

lemma sound_admit_open:
  assumes "sound peer l evs" "map_of (li_tasks l) t = Some Reading"
  shows "sound peer (fst (admit_open peer po t cred input sk late l))
    (evs @ [case snd (admit_open peer po t cred input sk late l) of Err e \<Rightarrow> Failed e
       | Ok (s, r) \<Rightarrow> Admitted s cred r])"
proof -
  have ended: "sound peer (end_task t l) (evs @ [Failed e])" for e
    using assms by (intro sound_shrinks) (auto simp: sound_def intro: books_end_task)
  show ?thesis
  proof (cases "admit_check peer po cred input sk late")
    case (Inl e)
    with ended show ?thesis by (simp add: admit_open_def)
  next
    case (Inr fc)
    obtain f ch where fc: "fc = (f, ch)" by (cases fc)
    obtain l' res where cl: "claim t f ch l = (l', res)" by (cases "claim t f ch l")
    show ?thesis
    proof (cases res)
      case (Inl e)
      with claim_Err [of t f ch l l' e] cl Inr fc ended show ?thesis by (simp add: admit_open_def)
    next
      case ok: (Inr s)
      from sound_claim [OF assms(1) cl [unfolded ok] assms(2) admit_check_Ok [OF Inr [unfolded fc]]]
      show ?thesis using Inr fc cl ok by (simp add: admit_open_def)
    qed
  qed
qed


lemma inbox_empty:
  assumes "one_sender l" "books {#} 0 l" "map_of (li_tasks l) t = Some (Claimed e ch ack)"
    and "map_of (li_receivers l) (pn_serial e) = Some rc"
  shows "rc_inbox rc = None"
proof (rule ccontr)
  assume "rc_inbox rc \<noteq> None"
  with assms(4) have "pn_serial e \<in># full_inboxes l"
    by (force simp: full_inboxes_def dest: map_of_SomeD)
  moreover have "pn_serial e \<in># task_serials l"
    using map_of_SomeD [OF assms(3)] by (force simp: task_serials_def)
  ultimately have "0 < count (full_inboxes l) (pn_serial e)" "0 < count (task_serials l) (pn_serial e)"
    by simp_all
  moreover have "count (senders l) (pn_serial e) \<le> 1"
    using assms(1) unfolding one_sender_def by (metis (full_types) le_zero_eq linorder_linear)
  ultimately show False unfolding senders_def count_union by linarith
qed

lemma sound_hand_over:
  assumes "sound peer l evs" and t: "map_of (li_tasks l) t = Some (Claimed e ch ack)"
    and rc: "map_of (li_receivers l) (pn_serial e) = Some rc"
  shows "sound peer (l\<lparr>li_tasks := AList.delete t (li_tasks l), li_handshake := Suc (li_handshake l),
      li_open := Suc (li_open l),
      li_receivers := AList.update (pn_serial e) (rc\<lparr>rc_inbox := Some ch'\<rparr>) (li_receivers l)\<rparr>)
    (evs @ [HandedOver (pn_serial e)])" (is "sound peer ?l _")
proof -
  have b: "books {#} 0 l" and o: "one_sender l" and lo: "log_ok peer evs" and lf: "log_of l evs"
    using assms(1) by (simp_all add: sound_def)
  have keyed: "keyed (li_receivers l)" "keyed (li_tasks l)" using b by (simp_all add: books_def)
  have empty: "rc_inbox rc = None" by (rule inbox_empty [OF o b t rc])
  have tasks: "task_serials l = add_mset (pn_serial e) (task_serials ?l)"
    by (simp add: task_serials_def mset_delete [OF keyed(2) t])
  have inboxes: "full_inboxes ?l = add_mset (pn_serial e) (full_inboxes l)"
    using empty by (simp add: full_inboxes_def mset_delete [OF keyed(1) rc]
        mset_update [OF keyed(1) rc])
  have pend: "pending_serials ?l = pending_serials l" by (simp add: pending_serials_def)
  have "senders ?l = senders l" by (simp add: senders_def tasks inboxes pend)
  with o have "one_sender ?l" by (simp add: one_sender_def)
  moreover have "log_of ?l (evs @ [HandedOver (pn_serial e)])"
    using lf unfolding log_of_def tasks inboxes pend expected_entry_append by auto
  ultimately show ?thesis
    using books_hand_over [OF b t rc empty, of ch'] log_ok_quiet [OF lo] by (simp add: sound_def)
qed

lemma sound_record_setup: "sound peer (record_setup us l) evs = sound peer l evs"
  by (simp add: sound_def books_record_setup)
    (simp add: record_setup_def Let_def one_sender_def senders_def pending_serials_def
      task_serials_def full_inboxes_def log_of_def)

lemma sound_admit_finish:
  assumes "sound peer l evs" and t: "map_of (li_tasks l) t = Some (Claimed e ch ack)"
  shows "sound peer (fst (admit_finish t e ch ack now l))
    (evs @ [case snd (admit_finish t e ch ack now l) of Err e \<Rightarrow> Failed e | Ok s \<Rightarrow> HandedOver s])"
proof -
  have ended: "sound peer (end_task t l) (evs @ [Failed e])" for e
    using assms by (intro sound_shrinks) (auto simp: sound_def intro: books_end_task)
  show ?thesis
    by (auto simp: admit_finish_def Let_def ended sound_record_setup sound_hand_over [OF assms]
        split: prod.split sum.split option.split)
qed

lemma sound_accept:
  assumes "sound peer l evs" "accept late s l = Some r"
  shows "sound peer (fst r) (evs @ [case snd r of Err e \<Rightarrow> Failed e | Ok _ \<Rightarrow> Connected s])"
proof -
  have b: "books {#} 0 l" using assms by (simp add: sound_def)
  have dropped: "sound peer (drop_receiver s l) (evs @ [Failed e])" for e
    using assms(1) b by (intro sound_shrinks) (auto intro: books_drop_receiver)
  from assms(2) obtain rc where rc: "map_of (li_receivers l) s = Some rc"
    by (auto simp: accept_def split: option.splits)
  show ?thesis
  proof (cases "rc_inbox rc")
    case None
    with assms(2) rc dropped show ?thesis by (auto simp: accept_def split: if_splits)
  next
    case (Some ch)
    let ?l = "l\<lparr>li_receivers := AList.update s (rc\<lparr>rc_inbox := None\<rparr>) (li_receivers l),
        li_halves := add_mset s (add_mset s (li_halves l))\<rparr>"
    have r: "r = (drop_receiver s ?l, Ok ch)" using assms(2) rc Some by (simp add: accept_def Let_def)
    have keyed: "keyed (li_receivers l)" using b by (simp add: books_def)
    have inboxes: "full_inboxes l = add_mset s (full_inboxes ?l)"
      using Some by (simp add: full_inboxes_def mset_delete [OF keyed rc] mset_update [OF keyed rc])
    have sh: "shrinks l ?l" by (simp add: shrinks_def inboxes)
    have "shrinks l (drop_receiver s ?l)" by (rule shrinks_trans [OF sh]) simp
    moreover have "books {#} 0 (drop_receiver s ?l)"
      using books_accept [OF b assms(2)] r by simp
    ultimately have snd': "sound peer (drop_receiver s ?l) evs"
      using sound_shrinks [OF assms(1), of "drop_receiver s ?l" "[]"] by simp
    have "s \<in> set (admitted evs)"
      using assms(1) inboxes by (auto simp: sound_def log_of_def)
    with snd' have "log_ok peer (evs @ [Connected s])" by (auto simp: sound_def log_ok_def)
    moreover have "log_of (drop_receiver s ?l) (evs @ [Connected s])"
      using snd' by (intro log_of_more) (simp_all add: sound_def)
    ultimately show ?thesis using snd' r by (simp add: sound_def)
  qed
qed

lemma sound_accept_soon:
  assumes "sound peer l evs" "accept_soon outer late s l = Some r"
  shows "sound peer (fst r) (evs @ [case snd r of Err e \<Rightarrow> Failed e | Ok _ \<Rightarrow> Connected s])"
proof (cases "accept late s l")
  case None
  have "sound peer (drop_receiver s l) (evs @ [Failed e])" for e
    using assms(1) by (intro sound_shrinks) (auto simp: sound_def intro: books_drop_receiver)
  with None assms show ?thesis by (auto simp: accept_soon_def split: if_splits)
next
  case (Some r')
  with assms sound_accept [OF assms(1) Some] show ?thesis by (simp add: accept_soon_def)
qed

lemma sound_accept_stream:
  assumes "sound peer l evs" shows "sound peer (accept_stream l) evs"
proof -
  have "task_serials (accept_stream l) = task_serials l" "full_inboxes (accept_stream l) = full_inboxes l"
    "pending_serials (accept_stream l) = pending_serials l" "li_serial (accept_stream l) = li_serial l"
    "li_pending (accept_stream l) = li_pending l"
    by (auto simp: accept_stream_def task_serials_def full_inboxes_def pending_serials_def
        split: option.split)
  with assms show ?thesis
    by (simp add: sound_def books_accept_stream one_sender_def senders_def log_of_def)
qed

lemma shrinks_drop_half [simp]: "shrinks l (drop_half s l)"
  by (simp add: drop_half_def)

lemma sound_step:
  assumes "sound peer l evs"
  shows "sound peer (fst (channel_do peer po l a)) (evs @ snd (channel_do peer po l a))"
proof -
  have b: "books {#} 0 l" using assms by (simp add: sound_def)
  have quietly: "shrinks l l' \<Longrightarrow> books {#} 0 l' \<Longrightarrow> sound peer l' evs" for l'
    using sound_shrinks [OF assms, of l' "[]"] by simp
  show ?thesis
    by (cases a)
      (auto simp: failed_def assms sound_accept_stream sound_accept [OF assms] sound_accept_soon [OF assms]
        sound_expect [OF assms, simplified case_prod_unfold] sound_admit_open [OF assms, simplified case_prod_unfold]
        sound_admit_finish [OF assms] take_setup_samples_us_def case_prod_unfold
        intro!: quietly books_end_task books_drop_receiver books_drop_half books_drop_listener
          books_accept_failed b
        split: option.split task.split)
qed

lemma sound_run:
  "sound peer l evs \<Longrightarrow> run_steps (channel_do peer po) l as = (l', evs') \<Longrightarrow> sound peer l' (evs @ evs')"
proof (induction as arbitrary: l evs l' evs')
  case (Cons a as)
  obtain l1 e1 where 1: "channel_do peer po l a = (l1, e1)" by (cases "channel_do peer po l a")
  obtain l2 e2 where 2: "run_steps (channel_do peer po) l1 as = (l2, e2)"
    by (cases "run_steps (channel_do peer po) l1 as")
  have "sound peer l1 (evs @ e1)" using sound_step [OF Cons.prems(1), of po a] 1 by simp
  from Cons.IH [OF this 2] Cons.prems(2) 1 2 show ?case by simp
qed simp

lemma sound_bind: "bind_with_limits lim = Ok l \<Longrightarrow> sound peer l []"
  by (auto simp: bind_with_limits_def bind_result_Ok_iff sound_def books_def owners_def held_io_def
      held_opens_def held_handshakes_def one_sender_def senders_def pending_serials_def
      task_serials_def full_inboxes_def log_ok_def log_of_def)


subsection \<open>The three budgets are ledgers\<close>

lemma limits_kept [simp]:
  "li_limits (arc_drop p l) = li_limits l" "li_limits (arc_clone p l) = li_limits l"
  "li_limits (drop_pending e l) = li_limits l" "li_limits (drop_channel p l) = li_limits l"
  "li_limits (end_task t l) = li_limits l" "li_limits (record_setup us l) = li_limits l"
  "li_limits (drop_receiver s l) = li_limits l" "li_limits (drop_half s l) = li_limits l"
  by (auto simp: arc_drop_def arc_clone_def drop_pending_def drop_channel_def end_task_def
      record_setup_def drop_receiver_def drop_half_def Let_def split: option.split task.split)

lemma limits_kept_loops [simp]:
  "li_limits (end_tasks ts l) = li_limits l" "li_limits (clear_pending l) = li_limits l"
proof -
  show "li_limits (end_tasks ts l) = li_limits l" by (induction ts arbitrary: l) auto
  have "li_limits (clear_entries es l) = li_limits l" for es
    by (induction es l rule: clear_entries.induct) auto
  then show "li_limits (clear_pending l) = li_limits l" by (simp add: clear_pending_def)
qed

lemma limits_kept_ops [simp]:
  "li_limits (fst (expect random now l)) = li_limits l" "li_limits (accept_failed e l) = li_limits l"
  "li_limits (accept_stream l) = li_limits l" "li_limits (drop_listener l) = li_limits l"
  "li_limits (fst (claim t f ch l)) = li_limits l"
  "li_limits (fst (admit_open peer po t cred input sk late l)) = li_limits l"
  "li_limits (fst (admit_finish t e' ch ack now l)) = li_limits l"
proof -
  show cl: "li_limits (fst (claim t f ch l)) = li_limits l" for t f ch l
    by (auto simp: claim_def Let_def split: option.split)
  show "li_limits (fst (admit_open peer po t cred input sk late l)) = li_limits l"
    using cl by (auto simp: admit_open_def split: sum.split prod.split) (metis fst_conv)+
qed (auto simp: expect_def accept_failed_def accept_stream_def drop_listener_def admit_finish_def Let_def
    split: option.split sum.split prod.split)

lemma limits_step: "li_limits (fst (channel_do peer po l a)) = li_limits l"
  by (cases a)
    (auto simp: failed_def accept_def accept_soon_def take_setup_samples_us_def Let_def
      split: option.split task.split if_splits)

definition channel_step ::
    "trusted_peer \<Rightarrow> (bytes \<Rightarrow> (nat \<times> nat, open_frame) result) \<Rightarrow> listener \<Rightarrow> listener \<Rightarrow> bool" where
  "channel_step peer po l l' \<longleftrightarrow> (\<exists>a. l' = fst (channel_do peer po l a))"

definition sound_state :: "trusted_peer \<Rightarrow> listener \<Rightarrow> bool" where
  "sound_state peer l \<longleftrightarrow> (\<exists>evs. sound peer l evs)"

lemma sound_state_step: "sound_state peer l \<Longrightarrow> channel_step peer po l l' \<Longrightarrow> sound_state peer l'"
  unfolding sound_state_def channel_step_def using sound_step by blast

lemma budgets_step:
  assumes "sound_state peer l" "channel_step peer po l l'"
  shows "li_io l' + held_io l' = li_io l + held_io l" "li_open l' + held_opens l' = li_open l + held_opens l"
    "li_handshake l' + held_handshakes l' = li_handshake l + held_handshakes l"
proof -
  have "li_limits l' = li_limits l" using assms(2) limits_step by (auto simp: channel_step_def)
  moreover have "books {#} 0 l" "books {#} 0 l'"
    using assms sound_state_step [OF assms] by (auto simp: sound_state_def sound_def)
  ultimately show "li_io l' + held_io l' = li_io l + held_io l"
    "li_open l' + held_opens l' = li_open l + held_opens l"
    "li_handshake l' + held_handshakes l' = li_handshake l + held_handshakes l"
    by (simp_all add: books_def)
qed

interpretation io_ledger: ledger "channel_step peer po" "sound_state peer" li_io held_io
  for peer :: trusted_peer and po :: "bytes \<Rightarrow> (nat \<times> nat, open_frame) result"
  by unfold_locales (auto intro: sound_state_step budgets_step)

interpretation open_ledger: ledger "channel_step peer po" "sound_state peer" li_open held_opens
  for peer :: trusted_peer and po :: "bytes \<Rightarrow> (nat \<times> nat, open_frame) result"
  by unfold_locales (auto intro: sound_state_step budgets_step)

interpretation handshake_ledger: ledger "channel_step peer po" "sound_state peer" li_handshake held_handshakes
  for peer :: trusted_peer and po :: "bytes \<Rightarrow> (nat \<times> nat, open_frame) result"
  by unfold_locales (auto intro: sound_state_step budgets_step)

lemma run_reaches: "(channel_step peer po)\<^sup>*\<^sup>* l (fst (run_steps (channel_do peer po) l as))"
proof (induction as arbitrary: l)
  case (Cons a as)
  have "channel_step peer po l (fst (channel_do peer po l a))" by (auto simp: channel_step_def)
  with Cons [of "fst (channel_do peer po l a)"] show ?case
    by (auto simp: case_prod_unfold Let_def intro: converse_rtranclp_into_rtranclp)
qed simp

lemma bind_fresh:
  assumes "bind_with_limits lim = Ok l"
  shows "li_io l = active_io lim" "li_open l = pending_opens lim"
    "li_handshake l = unauthenticated_handshakes lim" "held_io l = 0" "held_opens l = 0"
    "held_handshakes l = 0" "li_limits l = lim"
  using assms by (auto simp: bind_with_limits_def bind_result_Ok_iff held_io_def held_opens_def held_handshakes_def)


text \<open>
  C4. A channel is opened at most once and only by whom it is meant for: over any run of the
  listener no expectation is admitted twice; every admitted connection came from the trusted
  peer and presented in its first frame the channel id and the token that one expectation was
  given; and what an operation receives is an admitted connection.
\<close>

theorem channel_admission:
  assumes "bind_with_limits lim = Ok l0" "run_steps (channel_do peer po) l0 as = (l, evs)"
  shows "distinct (admitted evs) \<and>
    (\<forall>s cred r. Admitted s cred r \<in> set evs \<longrightarrow>
       (\<exists>c. cred = Ok c \<and> trusted peer c) \<and> Expected s r \<in> set evs) \<and>
    (\<forall>s. Connected s \<in> set evs \<longrightarrow> s \<in> set (admitted evs))"
  using sound_run [OF sound_bind [OF assms(1)] assms(2)] by (auto simp: sound_def log_ok_def)


theorem channel_admission_witness:
  "\<exists>l evs. run_steps (channel_do (User 7) (\<lambda>_. Err (1, 1)))
       \<lparr>li_limits = default_limits, li_next_channel = 1, li_serial = 0, li_pending = [], li_receivers = [],
        li_next_task = 0, li_tasks = [], li_halves = {#}, li_refs = {#}, li_io = active_io default_limits,
        li_open = pending_opens default_limits, li_handshake = unauthenticated_handshakes default_limits,
        li_finished = False, li_failed = False, li_backoffs = 0, li_opened = 0, li_lost = 0,
        li_setup_us = []\<rparr> [Expect ''k'' 0, AcceptStream] = (l, evs) \<and> distinct (admitted evs)"
  (is "\<exists>l evs. run_steps ?do ?l0 ?as = (l, evs) \<and> _")
proof -
  have bind: "bind_with_limits default_limits = Ok ?l0"
    by (simp add: bind_with_limits_def default_limits_valid)
  obtain l evs where r: "run_steps ?do ?l0 ?as = (l, evs)" by (meson prod.exhaust)
  with channel_admission [OF bind r] show ?thesis by blast
qed


subsection \<open>The two sides of a handshake\<close>

definition accepting :: "socket \<Rightarrow> bool" where
  "accepting sk \<longleftrightarrow> (\<forall>i. \<exists>n. sk_plan sk i = Takes (Suc n))"

lemma write_open_Ok:
  assumes "accepting sk" "length p \<le> max_frame_bytes"
  shows "\<exists>fw. frame_write socket_write (writer_new sk max_frame_bytes) FrameOpen p = (fw, Ok ()) \<and>
    sk_out (fw_writer fw) = sk_out sk @ frame_bytes (FrameOpen, p)"
proof -
  have "0 < max_frame_bytes" by (simp add: max_frame_bytes_def)
  with socket_frame_write_Ok [of "sk_plan sk" "writer_new sk max_frame_bytes" FrameOpen p] assms
  obtain fw where w: "frame_write socket_write (writer_new sk max_frame_bytes) FrameOpen p = (fw, Ok ())"
    by (auto simp: accepting_def writer_new_def)
  have "frames_of max_frame_bytes (FrameOpen, p) = [(FrameOpen, p)]"
    using assms(2) by (simp add: frames_of_def chunks_of.simps [of _ p] chunks_of.simps [of _ "[]"] max_frame_bytes_def)
  with socket_writer.frame_write_out(1) [OF w] w show ?thesis by (simp add: writer_new_def)
qed

text \<open>
  C6. The two sides of a handshake fit together: when the plugin opens a channel with the
  request it was sent, what it writes makes the host, with the expectation still pending,
  claim it and hand the connection to the waiting operation, positioned right after the open
  frame; and what the host writes back is the acknowledgement the plugin waits for.
\<close>

theorem channel_handshake:
  assumes json: "parse_open (render_open \<lparr>of_request = r, of_acknowledge = True\<rparr>) =
      Ok \<lparr>of_request = r, of_acknowledge = True\<rparr>"
    "length (render_open \<lparr>of_request = r, of_acknowledge = True\<rparr>) \<le> max_frame_bytes"
    and peer: "trusted peer c" and sockets: "accepting psk" "accepting hsk" "sk_out psk = []" "sk_out hsk = []"
    and host: "map_of (li_tasks l) t = Some Reading" "map_of (li_pending l) (rq_channel_id r) = Some e"
      "pn_token e = rq_token r" "map_of (li_receivers l) (pn_serial e) = Some rc"
  shows "\<exists>plugin l1 l2 ch.
     open_channel render_open max_frame_bytes True (Ok (sk_out (fw_writer (ch_writer ch)) @ reply, psk)) False r = Ok plugin \<and>
     admit_open peer parse_open t (Ok c) (sk_out (fw_writer (ch_writer plugin)) @ sent) hsk False l =
       (l1, Ok (pn_serial e, r)) \<and>
     admit_finish t e (from_stream sent hsk max_frame_bytes) True now l1 = (l2, Ok (pn_serial e)) \<and>
     map_of (li_tasks l1) t = Some (Claimed e (from_stream sent hsk max_frame_bytes) True) \<and>
     map_of (li_receivers l2) (pn_serial e) = Some (rc\<lparr>rc_inbox := Some ch\<rparr>) \<and>
     fr_input (ch_reader ch) = sent \<and> fr_input (ch_reader plugin) = reply"
proof -
  let ?p = "render_open \<lparr>of_request = r, of_acknowledge = True\<rparr>"
  obtain pw where pw: "frame_write socket_write (writer_new psk max_frame_bytes) FrameOpen ?p = (pw, Ok ())"
    "sk_out (fw_writer pw) = frame_bytes (FrameOpen, ?p)"
    using write_open_Ok [OF sockets(1) json(2)] sockets(3) by auto
  obtain hw where hw: "frame_write socket_write (writer_new hsk max_frame_bytes) FrameOpen [] = (hw, Ok ())"
    "sk_out (fw_writer hw) = frame_bytes (FrameOpen, [])"
    using write_open_Ok [OF sockets(2), of "[]"] sockets(4) by auto
  have read: "frame_read (reader_new (frame_bytes (FrameOpen, q) @ rest) max_frame_bytes) =
      (reader_new rest max_frame_bytes, Ok (Some (FrameOpen, q)))"
    if "length q \<le> max_frame_bytes" for q rest
    using frame_read_frame [of "reader_new (frame_bytes (FrameOpen, q) @ rest) max_frame_bytes" FrameOpen q rest] that
    by (simp add: reader_new_def max_frame_bytes_def)
  let ?ch = "\<lparr>ch_reader = reader_new sent max_frame_bytes, ch_writer = hw\<rparr>"
  let ?plugin = "\<lparr>ch_reader = reader_new reply max_frame_bytes, ch_writer = pw\<rparr>"
  let ?l1 = "fst (claim t \<lparr>of_request = r, of_acknowledge = True\<rparr> (from_stream sent hsk max_frame_bytes) l)"
  have "open_channel render_open max_frame_bytes True
      (Ok (sk_out (fw_writer (ch_writer ?ch)) @ reply, psk)) False r = Ok ?plugin"
    by (simp add: open_channel_def from_stream_def pw hw read)
  moreover have "admit_check peer parse_open (Ok c) (sk_out (fw_writer (ch_writer ?plugin)) @ sent) hsk False =
      Ok (\<lparr>of_request = r, of_acknowledge = True\<rparr>, from_stream sent hsk max_frame_bytes)"
    by (simp add: admit_check_def from_stream_def peer pw read json)
  then have "admit_open peer parse_open t (Ok c) (sk_out (fw_writer (ch_writer ?plugin)) @ sent) hsk False l =
      (?l1, Ok (pn_serial e, r))"
    using host by (simp add: admit_open_def claim_def)
  moreover have l1: "map_of (li_tasks ?l1) t = Some (Claimed e (from_stream sent hsk max_frame_bytes) True)"
    "li_receivers ?l1 = li_receivers l"
    using host by (simp_all add: claim_def update_conv' arc_clone_def)
  moreover have "\<exists>l2. admit_finish t e (from_stream sent hsk max_frame_bytes) True now ?l1 = (l2, Ok (pn_serial e)) \<and>
      map_of (li_receivers l2) (pn_serial e) = Some (rc\<lparr>rc_inbox := Some ?ch\<rparr>)"
    using hw host l1
    by (simp add: admit_finish_def from_stream_def record_setup_def Let_def update_conv')
  moreover have "fr_input (ch_reader ?ch) = sent" "fr_input (ch_reader ?plugin) = reply"
    by (simp_all add: reader_new_def)
  ultimately show ?thesis by blast
qed


theorem channel_handshake_witness:
  "\<exists>plugin l1 (ch :: channel).
     open_channel (\<lambda>_. ''{}'') max_frame_bytes True (Ok (sk_out (fw_writer (ch_writer ch)) @ ''ok'',
        \<lparr>sk_out = [], sk_plan = (\<lambda>_. Takes 2), sk_calls = 0\<rparr>)) False
        \<lparr>rq_channel_id = 1, rq_token = ''61''\<rparr> = Ok plugin \<and>
     admit_open (User 7) (\<lambda>_. Ok \<lparr>of_request = \<lparr>rq_channel_id = 1, rq_token = ''61''\<rparr>, of_acknowledge = True\<rparr>) 0
        (Ok \<lparr>cd_pid = None, cd_uid = 7\<rparr>) (sk_out (fw_writer (ch_writer plugin)) @ ''in'')
        \<lparr>sk_out = [], sk_plan = (\<lambda>_. Takes 2), sk_calls = 0\<rparr> False
        \<lparr>li_limits = default_limits, li_next_channel = 2, li_serial = 1,
         li_pending = [(1, \<lparr>pn_started = 0, pn_token = ''61'', pn_serial = 0, pn_progress_timeout = from_secs 30\<rparr>)],
         li_receivers = [(0, \<lparr>rc_channel_id = 1, rc_inbox = None\<rparr>)],
         li_next_task = 1, li_tasks = [(0, Reading)], li_halves = {#}, li_refs = {#0, 0#}, li_io = 1023,
         li_open = 1023, li_handshake = 63, li_finished = False, li_failed = False, li_backoffs = 0,
         li_opened = 0, li_lost = 0, li_setup_us = []\<rparr> = (l1, Ok (0, \<lparr>rq_channel_id = 1, rq_token = ''61''\<rparr>))"
  (is "\<exists>plugin l1 (ch :: channel). ?open plugin ch \<and> admit_open _ _ _ _ _ _ _ ?l = _")
proof -
  let ?sk = "\<lparr>sk_out = [], sk_plan = (\<lambda>_. Takes 2), sk_calls = 0\<rparr>"
  let ?r = "\<lparr>rq_channel_id = 1, rq_token = ''61''\<rparr>"
  let ?e = "\<lparr>pn_started = 0, pn_token = ''61'', pn_serial = 0, pn_progress_timeout = from_secs 30\<rparr>"
  have sk: "accepting ?sk" by (simp add: accepting_def numeral_2_eq_2)
  note fits = channel_handshake [where render_open = "\<lambda>_. ''{}''" and r = ?r and peer = "User 7"
      and parse_open = "\<lambda>_. Ok \<lparr>of_request = ?r, of_acknowledge = True\<rparr>" and l = ?l and t = 0
      and c = "\<lparr>cd_pid = None, cd_uid = 7\<rparr>" and psk = ?sk and hsk = ?sk and e = ?e
      and rc = "\<lparr>rc_channel_id = 1, rc_inbox = None\<rparr>" and reply = "''ok''" and sent = "''in''" and now = 0]
  have "length ''{}'' \<le> max_frame_bytes" "trusted (User 7) \<lparr>cd_pid = None, cd_uid = 7\<rparr>"
    by (simp_all add: max_frame_bytes_def trusted_def)
  note fits = fits [OF refl this sk sk]
  have h: "sk_out ?sk = []" "map_of (li_tasks ?l) 0 = Some Reading"
    "map_of (li_pending ?l) (rq_channel_id ?r) = Some ?e" "pn_token ?e = rq_token ?r"
    "map_of (li_receivers ?l) (pn_serial ?e) = Some \<lparr>rc_channel_id = 1, rc_inbox = None\<rparr>"
    by simp_all
  from fits [OF h(1) h(1) h(2) h(3) h(4) h(5)] show ?thesis
    unfolding pending.simps by (elim exE conjE) (intro exI conjI, assumption+)
qed

end
