(* ===== verification/Docker_Output.thy ===== *)
theory Docker_Output
  imports Sanitize Grace Capture "HOL-Library.Sublist"
begin

section \<open>Output of a Docker command (sandbox-driver-docker/src/output.rs)\<close>

text \<open>
  Docker delivers a command's output as chunks tagged with their stream. Each stream has a
  sanitizer whose output goes to a capture buffer and, while it accepts, to the caller's sink.
  The locale of the prelude for a transducer feeding a sink is interpreted on the two; the end
  result is then a statement about whole streams, whatever the chunks were.
\<close>

datatype log_output = StdOut bytes | StdErr bytes | StdIn bytes | Console bytes

type_synonym stream_lane = "sanitizer \<times> capture_buffer"

record stream_output =
  so_stdout :: stream_lane
  so_stderr :: stream_lane

definition stream_output_new :: "output_sanitization \<Rightarrow> nat option \<Rightarrow> stream_output" where
  "stream_output_new p limit =
     \<lparr>so_stdout = (sanitizer_new p, capture_new limit), so_stderr = (sanitizer_new p, capture_new limit)\<rparr>"

text \<open>What has been given to the sink, and the token that says it failed. A sink decides on
  each call from what it was given before.\<close>

type_synonym output_sink = "(output_stream \<times> bytes) list \<Rightarrow> output_stream \<Rightarrow> bytes \<Rightarrow> bool"

record emitted =
  em_given :: "(output_stream \<times> bytes) list"
  em_failed :: bool

definition emit :: "output_sink option \<Rightarrow> output_stream \<Rightarrow> bytes \<Rightarrow> emitted \<Rightarrow> emitted" where
  "emit sink stream bytes st =
     (if bytes \<noteq> [] \<and> \<not> em_failed st
      then case sink of
        None \<Rightarrow> st
      | Some accepts \<Rightarrow>
          (let st' = st\<lparr>em_given := em_given st @ [(stream, bytes)]\<rparr> in
           if accepts (em_given st) stream bytes then st' else st'\<lparr>em_failed := True\<rparr>)
      else st)"

definition lane_of :: "output_stream \<Rightarrow> stream_output \<Rightarrow> stream_lane" where
  "lane_of i so = (case i of Stdout \<Rightarrow> so_stdout so | Stderr \<Rightarrow> so_stderr so)"

definition set_lane :: "output_stream \<Rightarrow> stream_lane \<Rightarrow> stream_output \<Rightarrow> stream_output" where
  "set_lane i lane so =
     (case i of Stdout \<Rightarrow> so\<lparr>so_stdout := lane\<rparr> | Stderr \<Rightarrow> so\<lparr>so_stderr := lane\<rparr>)"

definition lane_push ::
    "output_sink option \<Rightarrow> output_stream \<Rightarrow> bytes \<Rightarrow> stream_output \<times> emitted \<Rightarrow> stream_output \<times> emitted" where
  "lane_push sink i message x =
     (let (sanitizer, capture) = lane_of i (fst x);
          (sanitizer, bytes) = san_push sanitizer message in
      (set_lane i (sanitizer, capture_push capture bytes) (fst x), emit sink i bytes (snd x)))"

definition lane_finish ::
    "output_sink option \<Rightarrow> output_stream \<Rightarrow> stream_output \<times> emitted \<Rightarrow> stream_output \<times> emitted" where
  "lane_finish sink i x =
     (let (sanitizer, capture) = lane_of i (fst x);
          (sanitizer, bytes) = san_finish sanitizer in
      (set_lane i (sanitizer, capture_push capture bytes) (fst x), emit sink i bytes (snd x)))"

fun stream_drain ::
    "output_sink option \<Rightarrow> ('e, log_output) result list \<Rightarrow> stream_output \<times> emitted \<Rightarrow>
     (stream_output \<times> emitted) \<times> ('e, unit) result" where
  "stream_drain sink [] x = (lane_finish sink Stderr (lane_finish sink Stdout x), Ok ())"
| "stream_drain sink (Err e # chunks) x = (x, Err e)"
| "stream_drain sink (Ok (StdOut message) # chunks) x = stream_drain sink chunks (lane_push sink Stdout message x)"
| "stream_drain sink (Ok (Console message) # chunks) x = stream_drain sink chunks (lane_push sink Stdout message x)"
| "stream_drain sink (Ok (StdErr message) # chunks) x = stream_drain sink chunks (lane_push sink Stderr message x)"
| "stream_drain sink (Ok (StdIn message) # chunks) x = stream_drain sink chunks x"

definition into_result ::
    "stream_output \<Rightarrow> termination_kind \<Rightarrow> int option \<Rightarrow> duration \<Rightarrow> bool \<Rightarrow> streaming_result" where
  "into_result so termination code elapsed trunc =
     (let (stdout, stdout_stats) = into_parts (snd (so_stdout so));
          (stderr, stderr_stats) = into_parts (snd (so_stderr so));
          result = (from_shell_status termination code elapsed)\<lparr>res_stdout := stdout, res_stderr := stderr\<rparr>
      in (streaming_new result)
           \<lparr>str_streams_separated := True, str_live_streaming := True,
            stdout_capture := stdout_stats\<lparr>truncated := trunc\<rparr>,
            stderr_capture := stderr_stats\<lparr>truncated := trunc\<rparr>\<rparr>)"

text \<open>The wrapper around the stop race: a drain the grace abandoned is truncated, with its
  stream counted as intact.\<close>

definition kill_drain_grace :: duration where
  "kill_drain_grace = from_secs 10"

record 'e docker_outcome =
  do_termination :: termination_kind
  do_truncated :: bool
  do_stream :: "('e, unit) result"

definition docker_drain_outcome :: "('e, unit) result drain_outcome \<Rightarrow> 'e docker_outcome" where
  "docker_drain_outcome out =
     (case drained out of
        Some stream \<Rightarrow> \<lparr>do_termination = outcome_termination out, do_truncated = False, do_stream = stream\<rparr>
      | None \<Rightarrow> \<lparr>do_termination = outcome_termination out, do_truncated = True, do_stream = Ok ()\<rparr>)"

subsection \<open>One stream\<close>

interpretation stream_pipe: chunk_pipeline san_push capture_push
  by unfold_locales

definition bytes_on :: "output_stream \<Rightarrow> log_output list \<Rightarrow> bytes" where
  "bytes_on i chunks =
     concat (map (\<lambda>c. case c of StdOut m \<Rightarrow> if i = Stdout then m else []
                             | Console m \<Rightarrow> if i = Stdout then m else []
                             | StdErr m \<Rightarrow> if i = Stderr then m else [] | StdIn m \<Rightarrow> []) chunks)"

definition given :: "output_stream \<Rightarrow> emitted \<Rightarrow> bytes" where
  "given i st = concat (map snd (filter (\<lambda>x. fst x = i) (em_given st)))"

lemma lane_of_set [simp]: "lane_of i (set_lane j lane so) = (if i = j then lane else lane_of i so)"
  by (cases i; cases j) (simp_all add: lane_of_def set_lane_def)

lemma lane_push_lanes:
  "lane_of i (fst (lane_push sink j m x)) =
     (if i = j then pipe san_push capture_push (lane_of i (fst x)) m else lane_of i (fst x))"
  by (simp add: lane_push_def pipe_def Let_def split: prod.splits)

text \<open>What a stream's sanitizer releases is given to the sink, or the sink has failed and got a
  prefix.\<close>

definition delivered :: "output_stream \<Rightarrow> bytes \<Rightarrow> emitted \<Rightarrow> bool" where
  "delivered i w st \<longleftrightarrow> (if em_failed st then prefix (given i st) w else given i st = w)"

lemma delivered_emit:
  "delivered i w st \<Longrightarrow> delivered i (if i = j then w @ bs else w) (emit (Some sink) j bs st)"
  by (auto simp: delivered_def emit_def Let_def given_def prefix_def split: if_splits)

text \<open>\<open>fed\<close>: both streams have consumed exactly \<open>w\<close>. \<open>ended\<close>: and they are finished.\<close>

definition fed :: "output_sanitization \<Rightarrow> nat option \<Rightarrow> (output_stream \<Rightarrow> bytes) \<Rightarrow> stream_output \<times> emitted \<Rightarrow> bool" where
  "fed p limit w x \<longleftrightarrow>
     (\<forall>i. lane_of i (fst x) = pipe san_push capture_push (sanitizer_new p, capture_new limit) (w i) \<and>
          delivered i (snd (san_push (sanitizer_new p) (w i))) (snd x))"

lemma san_push_more:
  "snd (san_push s (xs @ ys)) = snd (san_push s xs) @ snd (san_push (fst (san_push s xs)) ys)"
  by (simp add: sanitizer_machine.push_append Let_def split: prod.splits)

lemma fed_push:
  assumes "fed p limit w x"
  shows "fed p limit (w(j := w j @ m)) (lane_push (Some sink) j m x)"
proof -
  let ?start = "(sanitizer_new p, capture_new limit)"
  have lane: "lane_of j (fst x) = pipe san_push capture_push ?start (w j)"
    using assms by (simp add: fed_def)
  then have san: "fst (lane_of j (fst x)) = fst (san_push (sanitizer_new p) (w j))"
    by (simp add: stream_pipe.pipe_fst)
  have lanes: "lane_of i (fst (lane_push (Some sink) j m x)) =
      pipe san_push capture_push ?start ((w(j := w j @ m)) i)" for i
    using assms lane by (simp add: fed_def lane_push_lanes stream_pipe.piped.absorb_append)
  have "snd (lane_push (Some sink) j m x) = emit (Some sink) j
      (snd (san_push (fst (san_push (sanitizer_new p) (w j))) m)) (snd x)"
    by (simp add: lane_push_def Let_def san [symmetric] split: prod.splits)
  then have "delivered i (snd (san_push (sanitizer_new p) ((w(j := w j @ m)) i)))
      (snd (lane_push (Some sink) j m x))" for i
    using assms delivered_emit [of i "snd (san_push (sanitizer_new p) (w i))" "snd x" j
        "snd (san_push (fst (san_push (sanitizer_new p) (w j))) m)" sink]
    by (auto simp: fed_def san_push_more)
  with lanes show ?thesis by (simp add: fed_def)
qed

lemma bytes_on_Cons:
  "bytes_on i (StdOut m # cs) = (if i = Stdout then m else []) @ bytes_on i cs"
  "bytes_on i (Console m # cs) = (if i = Stdout then m else []) @ bytes_on i cs"
  "bytes_on i (StdErr m # cs) = (if i = Stderr then m else []) @ bytes_on i cs"
  "bytes_on i (StdIn m # cs) = bytes_on i cs"
  by (simp_all add: bytes_on_def)

definition finished :: "output_sink option \<Rightarrow> stream_output \<times> emitted \<Rightarrow> stream_output \<times> emitted" where
  "finished sink x = lane_finish sink Stderr (lane_finish sink Stdout x)"

lemma stream_drain_fed:
  "fed p limit w x \<Longrightarrow>
   \<exists>y. stream_drain (Some sink) (map Ok chunks :: ('e, log_output) result list) x =
         (finished (Some sink) y, Ok ()) \<and>
       fed p limit (\<lambda>i. w i @ bytes_on i chunks) y"
proof (induction chunks arbitrary: w x)
  case Nil
  then show ?case by (intro exI [of _ x]) (simp add: finished_def bytes_on_def)
next
  case (Cons c chunks)
  have append: "(\<lambda>i. (w(j := w j @ m)) i @ bytes_on i chunks) =
      (\<lambda>i. w i @ (if i = j then m else []) @ bytes_on i chunks)" for j m by auto
  have step: "\<exists>y. stream_drain (Some sink) (map Ok chunks :: ('e, log_output) result list) (lane_push (Some sink) j m x) =
      (finished (Some sink) y, Ok ()) \<and>
      fed p limit (\<lambda>i. w i @ (if i = j then m else []) @ bytes_on i chunks) y" for j m
    using Cons.IH [OF fed_push [OF Cons.prems, of j m sink]] unfolding append .
  show ?case
    using step Cons.IH [OF Cons.prems] by (cases c) (simp_all add: bytes_on_Cons)
qed

lemma sanitize_split:
  "sanitize p w = snd (san_push (sanitizer_new p) w) @ snd (san_finish (fst (san_push (sanitizer_new p) w)))"
  by (simp add: sanitize_def Let_def split: prod.splits)

lemma finished_fed:
  assumes "fed p limit w x"
  shows "snd (lane_of i (fst (finished (Some sink) x))) = capture_push (capture_new limit) (sanitize p (w i))"
    and "delivered i (sanitize p (w i)) (snd (finished (Some sink) x))"
proof -
  let ?s = "\<lambda>i. fst (san_push (sanitizer_new p) (w i))" and ?o = "\<lambda>i. snd (san_push (sanitizer_new p) (w i))"
  have lanes: "lane_of i (fst x) = (?s i, capture_push (capture_new limit) (?o i))" for i
    using assms by (simp add: fed_def prod_eq_iff stream_pipe.pipe_fst stream_pipe.pipe_snd)
  have given: "delivered i (?o i) (snd x)" for i using assms by (simp add: fed_def)
  define y where "y = lane_finish (Some sink) Stdout x"
  have y: "lane_of Stdout (fst y) = (fst (san_finish (?s Stdout)), capture_push (capture_new limit) (sanitize p (w Stdout)))"
    "lane_of Stderr (fst y) = lane_of Stderr (fst x)"
    by (simp_all add: y_def lane_finish_def lanes Let_def sanitize_split capture_push_append split: prod.splits)
  have "snd y = emit (Some sink) Stdout (snd (san_finish (?s Stdout))) (snd x)"
    by (simp add: y_def lane_finish_def lanes Let_def split: prod.splits)
  then have gy: "delivered i (if i = Stdout then sanitize p (w i) else ?o i) (snd y)" for i
    using delivered_emit [OF given, of i Stdout "snd (san_finish (?s Stdout))" sink]
    by (auto simp: sanitize_split)
  have fin: "finished (Some sink) x = lane_finish (Some sink) Stderr y" by (simp add: finished_def y_def)
  show "snd (lane_of i (fst (finished (Some sink) x))) = capture_push (capture_new limit) (sanitize p (w i))"
    by (cases i) (simp_all add: fin lane_finish_def y lanes Let_def sanitize_split capture_push_append
        split: prod.splits)
  have "snd (finished (Some sink) x) = emit (Some sink) Stderr (snd (san_finish (?s Stderr))) (snd y)"
    by (simp add: fin lane_finish_def y lanes Let_def split: prod.splits)
  then show "delivered i (sanitize p (w i)) (snd (finished (Some sink) x))"
    using delivered_emit [OF gy, of i Stderr "snd (san_finish (?s Stderr))" sink]
    by (cases i) (auto simp: sanitize_split)
qed

lemma fed_new: "fed p limit (\<lambda>_. []) (stream_output_new p limit, \<lparr>em_given = [], em_failed = False\<rparr>)"
  by (auto simp: fed_def stream_output_new_def lane_of_def pipe_def delivered_def given_def
      sanitizer_machine.push_Nil capture_push_Nil split: output_stream.split)

lemma into_parts_sanitized:
  "into_parts (capture_push (capture_new c) w) =
     (let kept = retained (case c of None \<Rightarrow> 0 | Some n \<Rightarrow> n) w in
      (kept, \<lparr>observed_bytes = length w, retained_bytes = length kept,
              omitted_bytes = length w - length kept, truncated = False\<rparr>))"
  using holds_stream_parts [OF holds_stream_push [OF holds_stream_new, of c w]] by (simp add: Let_def)



text \<open>So the Docker provider satisfies what the stop grace ladder relies on.\<close>

lemma docker_reports_outcome:
  "reports_outcome (\<lambda>out. Ok (into_result so (do_termination (docker_drain_outcome out)) code elapsed
     (do_truncated (docker_drain_outcome out))))"
  by (auto simp: reports_outcome_def into_result_def docker_drain_outcome_def Let_def streaming_new_def
      split: prod.splits option.splits)

end
