(* ===== verification/Encoded_Exec.thy ===== *)
theory Encoded_Exec
  imports Docker_Output
begin

section \<open>Exact output over a text transport (sandbox-driver-daytona/src/encoded_exec.rs)\<close>

text \<open>
  Daytona returns a command's output as text. A Bash wrapper writes both streams as short
  records of printable characters, and the provider decodes the records before anything else
  sees the bytes. The decoder is shown to refine a specification over whole lines, so that it
  resynchronises at every newline and counts exactly what it drops; and the wrapper's records
  are shown to decode to the bytes they were made from.
\<close>

subsection \<open>The wrapper\<close>

abbreviation nl :: byte where "nl \<equiv> CHR 0x0A"
abbreviation bslash :: byte where "bslash \<equiv> CHR 0x5C"
abbreviation quote1 :: byte where "quote1 \<equiv> CHR 0x27"

definition nul_record :: bytes where
  "nul_record = [CHR ''$'', quote1, bslash, CHR ''0'', quote1]"

definition record_line :: "byte \<Rightarrow> bytes \<Rightarrow> bytes" where
  "record_line tag body = tag # body @ [nl]"

text \<open>
  The loop of \<open>encode\<close>. \<open>q\<close> is the shell's \<open>printf %q\<close>; the input is the bytes read, each with
  the answer of the readiness check that follows it.
\<close>

fun encode :: "(bytes \<Rightarrow> bytes) \<Rightarrow> nat \<Rightarrow> byte \<Rightarrow> bytes \<Rightarrow> (byte \<times> bool) list \<Rightarrow> bytes list" where
  "encode q count tag chunk [] = (if chunk \<noteq> [] then [record_line tag (q chunk)] else [])"
| "encode q count tag chunk ((byte, ready) # input) =
     (if byte = CHR 0x00
      then (if chunk \<noteq> [] then [record_line tag (q chunk)] else []) @
           record_line tag nul_record # encode q count tag [] input
      else let chunk = chunk @ [byte] in
        if count \<le> length chunk \<or> \<not> ready
        then record_line tag (q chunk) # encode q count tag [] input
        else encode q count tag chunk input)"

definition encode_count :: "nat \<Rightarrow> nat" where
  "encode_count bash_major = (if bash_major < 4 then 1 else 96)"

subsection \<open>Records\<close>

definition max_frame_bytes :: nat where
  "max_frame_bytes = 512"

definition stream_tag :: "byte \<Rightarrow> output_stream option" where
  "stream_tag tag =
     (if tag = CHR ''O'' then Some Stdout else if tag = CHR ''E'' then Some Stderr else None)"

definition printable :: "byte \<Rightarrow> (string, byte) result" where
  "printable byte = (if byte_in 0x20 0x7e byte then Ok byte else Err ''non-ASCII output frame'')"

fun decode_plain :: "bytes \<Rightarrow> (string, bytes) result" where
  "decode_plain [] = Ok []"
| "decode_plain (byte # rest) =
     (if byte = bslash
      then case rest of
        [] \<Rightarrow> Err ''incomplete output escape''
      | c # rest' \<Rightarrow> bind_result (decode_plain rest') (\<lambda>ds. Ok (c # ds))
      else bind_result (printable byte) (\<lambda>c. bind_result (decode_plain rest) (\<lambda>ds. Ok (c # ds))))"

text \<open>Up to \<open>n\<close> further octal digits; the value stays below 512.\<close>

fun octal_digits :: "nat \<Rightarrow> nat \<Rightarrow> bytes \<Rightarrow> nat \<times> bytes" where
  "octal_digits (Suc n) v (c # cs) =
     (if byte_in 48 55 c then octal_digits n (v * 8 + (byte_val c - 48)) cs else (v, c # cs))"
| "octal_digits n v cs = (v, cs)"

definition simple_escape :: "byte \<Rightarrow> byte option" where
  "simple_escape c =
     (if c = CHR ''a'' then Some (byte_of 7) else if c = CHR ''b'' then Some (byte_of 8)
      else if c = CHR ''t'' then Some (byte_of 9) else if c = CHR ''n'' then Some (byte_of 10)
      else if c = CHR ''v'' then Some (byte_of 11) else if c = CHR ''f'' then Some (byte_of 12)
      else if c = CHR ''r'' then Some (byte_of 13)
      else if c = CHR ''e'' \<or> c = CHR ''E'' then Some (byte_of 27)
      else if c = bslash \<or> c = quote1 \<or> c = CHR 0x22 then Some c else None)"

definition decode_escape :: "byte \<Rightarrow> bytes \<Rightarrow> (string, byte \<times> bytes) result" where
  "decode_escape c rest =
     (case simple_escape c of
        Some b \<Rightarrow> Ok (b, rest)
      | None \<Rightarrow>
          if byte_in 48 55 c
          then (let (v, rest') = octal_digits 2 (byte_val c - 48) rest in
                if v < 256 then Ok (byte_of v, rest') else Err ''output escape exceeds a byte'')
          else Err ''unknown output escape'')"

lemma octal_digits_shorter: "octal_digits n v cs = (v', cs') \<Longrightarrow> length cs' \<le> length cs"
  by (induction n v cs rule: octal_digits.induct) (auto split: if_splits)

lemma decode_escape_shorter: "decode_escape c rest = Ok (b, rest') \<Longrightarrow> length rest' \<le> length rest"
  by (auto simp: decode_escape_def octal_digits_shorter split: option.splits if_splits prod.splits)

function decode_ansi_c :: "bytes \<Rightarrow> (string, bytes) result" where
  "decode_ansi_c [] = Ok []"
| "decode_ansi_c (byte # rest) =
     (if byte \<noteq> bslash
      then bind_result (printable byte) (\<lambda>c. bind_result (decode_ansi_c rest) (\<lambda>ds. Ok (c # ds)))
      else case rest of
        [] \<Rightarrow> Err ''incomplete output escape''
      | c # rest' \<Rightarrow>
          (case decode_escape c rest' of
             Err e \<Rightarrow> Err e
           | Ok (b, rest'') \<Rightarrow> bind_result (decode_ansi_c rest'') (\<lambda>ds. Ok (b # ds))))"
  by pat_completeness auto
termination
  by (relation "measure length") (auto dest: decode_escape_shorter)

definition decode_quoted :: "bytes \<Rightarrow> (string, bytes) result" where
  "decode_quoted input =
     (if input = [quote1, quote1] then Ok []
      else case strip_prefix [CHR ''$'', quote1] input of
        Some body \<Rightarrow>
          bind_result (ok_or (strip_suffix [quote1] body) ''unterminated quoted output'') decode_ansi_c
      | None \<Rightarrow> decode_plain input)"

subsection \<open>The framed output\<close>

text \<open>A sink answers from what it was given before; \<open>fo_given\<close> is that history.\<close>

type_synonym checked_sink = "(output_stream \<times> bytes) list \<Rightarrow> output_stream \<Rightarrow> bytes \<Rightarrow> (error, unit) result"

record framed_output =
  fo_pending :: bytes
  fo_discarding :: bool
  fo_loss :: output_loss
  fo_streams :: stream_output
  fo_given :: "(output_stream \<times> bytes) list"

definition framed_new :: "output_sanitization \<Rightarrow> nat option \<Rightarrow> framed_output" where
  "framed_new p limit =
     \<lparr>fo_pending = [], fo_discarding = False, fo_loss = no_loss,
      fo_streams = stream_output_new p limit, fo_given = []\<rparr>"

definition lose :: "nat \<Rightarrow> nat \<Rightarrow> framed_output \<Rightarrow> framed_output" where
  "lose records bytes fo = fo\<lparr>fo_loss := \<lparr>dropped_frames = dropped_frames (fo_loss fo) + of_nat records,
     dropped_bytes = dropped_bytes (fo_loss fo) + of_nat bytes\<rparr>\<rparr>"

definition framed_discard :: "nat \<Rightarrow> framed_output \<Rightarrow> framed_output" where
  "framed_discard bytes fo = lose 1 bytes fo"

definition call_sink ::
    "checked_sink option \<Rightarrow> output_stream \<Rightarrow> bytes \<Rightarrow> framed_output \<Rightarrow> framed_output \<times> (error, unit) result" where
  "call_sink sink i bytes fo =
     (case sink of
        Some s \<Rightarrow>
          if bytes \<noteq> [] then (fo\<lparr>fo_given := fo_given fo @ [(i, bytes)]\<rparr>, s (fo_given fo) i bytes)
          else (fo, Ok ())
      | None \<Rightarrow> (fo, Ok ()))"

definition framed_emit ::
    "checked_sink option \<Rightarrow> output_stream \<Rightarrow> bytes \<Rightarrow> framed_output \<Rightarrow> framed_output \<times> (error, unit) result" where
  "framed_emit sink i raw fo =
     (let (sanitizer, capture) = lane_of i (fo_streams fo);
          (sanitizer, bytes) = san_push sanitizer raw in
      call_sink sink i bytes
        (fo\<lparr>fo_streams := set_lane i (sanitizer, capture_push capture bytes) (fo_streams fo)\<rparr>))"

text \<open>A complete record is in \<open>pending\<close>, its newline included.\<close>

definition take_record :: "checked_sink option \<Rightarrow> framed_output \<Rightarrow> framed_output \<times> (error, unit) result" where
  "take_record sink fo =
     (let pending = fo_pending fo; fo' = fo\<lparr>fo_pending := []\<rparr> in
      if pending = [nl] then (fo', Ok ())
      else case (case pending of [] \<Rightarrow> None | tag # _ \<Rightarrow> stream_tag tag) of
        None \<Rightarrow> (framed_discard (length pending) fo', Ok ())
      | Some i \<Rightarrow>
          (case decode_quoted (butlast (tl pending)) of
             Ok raw \<Rightarrow> framed_emit sink i raw fo'
           | Err reason \<Rightarrow> (framed_discard (length pending) fo', Ok ())))"

definition push_segment ::
    "checked_sink option \<Rightarrow> bytes \<Rightarrow> bool \<Rightarrow> framed_output \<Rightarrow> framed_output \<times> (error, unit) result" where
  "push_segment sink segment ended fo =
     (if fo_discarding fo then ((lose 0 (length segment) fo)\<lparr>fo_discarding := \<not> ended\<rparr>, Ok ())
      else if max_frame_bytes < length (fo_pending fo) + length segment
      then ((framed_discard (length (fo_pending fo) + length segment) fo)
              \<lparr>fo_pending := [], fo_discarding := \<not> ended\<rparr>, Ok ())
      else let fo = fo\<lparr>fo_pending := fo_pending fo @ segment\<rparr> in
        if \<not> ended then (fo, Ok ()) else take_record sink fo)"

lemma split_once_shorter: "split_once c xs = Some (a, b) \<Longrightarrow> length b < length xs"
  by (auto simp: split_once_Some)

function push_stdout ::
    "checked_sink option \<Rightarrow> bytes \<Rightarrow> framed_output \<Rightarrow> framed_output \<times> (error, unit) result" where
  "push_stdout sink [] fo = (fo, Ok ())"
| "push_stdout sink (b # bs) fo =
     (case split_once nl (b # bs) of
        None \<Rightarrow> push_segment sink (b # bs) False fo
      | Some (line, rest) \<Rightarrow>
          (case push_segment sink (line @ [nl]) True fo of
             (fo, Err e) \<Rightarrow> (fo, Err e)
           | (fo, Ok _) \<Rightarrow> push_stdout sink rest fo))"
  by pat_completeness auto
termination
  by (relation "measure (\<lambda>(_, bs, _). length bs)") (auto dest!: split_once_shorter simp del: split_once.simps)

definition framed_push ::
    "checked_sink option \<Rightarrow> output_stream \<Rightarrow> bytes \<Rightarrow> framed_output \<Rightarrow> framed_output \<times> (error, unit) result" where
  "framed_push sink stream bytes fo =
     (if stream = Stderr then framed_emit sink Stderr bytes fo else push_stdout sink bytes fo)"

definition framed_flush ::
    "checked_sink option \<Rightarrow> output_stream \<Rightarrow> framed_output \<Rightarrow> framed_output \<times> (error, unit) result" where
  "framed_flush sink i fo =
     (let (sanitizer, capture) = lane_of i (fo_streams fo);
          (sanitizer, bytes) = san_finish sanitizer in
      call_sink sink i bytes
        (fo\<lparr>fo_streams := set_lane i (sanitizer, capture_push capture bytes) (fo_streams fo)\<rparr>))"

definition framed_report :: "framed_output \<Rightarrow> streaming_result \<Rightarrow> streaming_result" where
  "framed_report fo result =
     (let trunc = truncated (stdout_capture result) \<or> truncated (stderr_capture result) \<or> is_lossy (fo_loss fo);
          out = snd (lane_of Stdout (fo_streams fo)); err = snd (lane_of Stderr (fo_streams fo)) in
      result\<lparr>str_result := (str_result result)\<lparr>res_stdout := to_bytes out, res_stderr := to_bytes err\<rparr>,
        stdout_capture := (capture_stats out)\<lparr>truncated := truncated (capture_stats out) \<or> trunc\<rparr>,
        stderr_capture := (capture_stats err)\<lparr>truncated := truncated (capture_stats err) \<or> trunc\<rparr>,
        str_output_loss := fo_loss fo, str_streams_separated := True\<rparr>)"

definition framed_close :: "framed_output \<Rightarrow> framed_output" where
  "framed_close fo =
     (if fo_pending fo \<noteq> [] then framed_discard (length (fo_pending fo)) (fo\<lparr>fo_pending := []\<rparr>) else fo)"

definition framed_finish ::
    "checked_sink option \<Rightarrow> framed_output \<Rightarrow> streaming_result \<Rightarrow> framed_output \<times> (error, streaming_result) result" where
  "framed_finish sink fo result =
     (case framed_flush sink Stdout (framed_close fo) of
        (fo, Err e) \<Rightarrow> (fo, Err e)
      | (fo, Ok _) \<Rightarrow>
          (case framed_flush sink Stderr fo of
             (fo, Err e) \<Rightarrow> (fo, Err e)
           | (fo, Ok _) \<Rightarrow> (fo, Ok (framed_report fo result))))"

text \<open>
  \<open>run\<close>. The transport is given by the calls it makes to the decoding sink, when there is one,
  and by what it returns. Its buffered form returns the output in the result.
\<close>

primrec sink_calls ::
    "checked_sink option \<Rightarrow> (output_stream \<times> bytes) list \<Rightarrow> framed_output \<Rightarrow> framed_output" where
  "sink_calls sink [] fo = fo"
| "sink_calls sink (c # cs) fo = sink_calls sink cs (fst (framed_push sink (fst c) (snd c) fo))"

definition encoded_run ::
    "output_sanitization \<Rightarrow> nat option \<Rightarrow> checked_sink option \<Rightarrow> bool \<Rightarrow> (output_stream \<times> bytes) list \<Rightarrow>
     (error, streaming_result) result \<Rightarrow> framed_output \<times> (error, streaming_result) result" where
  "encoded_run p limit sink streaming calls returned =
     (let fo = framed_new p limit in
      if streaming
      then (let fo = sink_calls sink calls fo in
            case returned of Err e \<Rightarrow> (fo, Err e) | Ok result \<Rightarrow> framed_finish sink fo result)
      else case returned of
        Err e \<Rightarrow> (fo, Err e)
      | Ok result \<Rightarrow>
          (case framed_push sink Stdout (res_stdout (str_result result)) fo of
             (fo, Err e) \<Rightarrow> (fo, Err e)
           | (fo, Ok _) \<Rightarrow>
               (case framed_push sink Stderr (res_stderr (str_result result)) fo of
                  (fo, Err e) \<Rightarrow> (fo, Err e)
                | (fo, Ok _) \<Rightarrow> framed_finish sink fo result)))"

declare push_stdout.simps(2) [simp del]

subsection \<open>A chunk boundary carries no information\<close>

lemma split_once_append_left:
  "split_once c xs = Some (a, b) \<Longrightarrow> split_once c (xs @ ys) = Some (a, b @ ys)"
  by (auto simp: split_once_Some)

lemma split_once_append_right:
  "c \<notin> set xs \<Longrightarrow> split_once c (xs @ ys) = map_option (apfst ((@) xs)) (split_once c ys)"
  by (cases "split_once c ys") (auto simp: split_once_Some split_once_notin [THEN iffD2] split_once_notin)

lemma lose_lose [simp]: "lose m n (lose m' n' fo) = lose (m + m') (n + n') fo"
  by (simp add: lose_def algebra_simps)

lemma lose_simps [simp]:
  "fo_pending (lose m n fo) = fo_pending fo" "fo_discarding (lose m n fo) = fo_discarding fo"
  "lose m n (fo\<lparr>fo_pending := ps\<rparr>) = (lose m n fo)\<lparr>fo_pending := ps\<rparr>"
  "lose m n (fo\<lparr>fo_discarding := d\<rparr>) = (lose m n fo)\<lparr>fo_discarding := d\<rparr>"
  by (simp_all add: lose_def)

lemma push_segment_split:
  "push_segment sink (xs @ ys) ended fo = push_segment sink ys ended (fst (push_segment sink xs False fo))"
  "snd (push_segment sink xs False fo) = Ok ()"
  by (auto simp: push_segment_def framed_discard_def Let_def add_ac)

lemma push_stdout_append:
  "push_stdout sink (xs @ ys) fo =
     (case push_stdout sink xs fo of (fo', Err e) \<Rightarrow> (fo', Err e) | (fo', Ok _) \<Rightarrow> push_stdout sink ys fo')"
proof (induction sink xs fo rule: push_stdout.induct)
  case (2 sink b bs fo)
  show ?case
  proof (cases "split_once nl (b # bs)")
    case None
    then have no: "nl \<notin> set (b # bs)" by (rule split_once_notin [THEN iffD1])
    have first: "push_stdout sink (b # bs) fo = push_segment sink (b # bs) False fo"
      using None by (simp add: push_stdout.simps(2) del: split_once.simps)
    obtain fo' where fo': "push_segment sink (b # bs) False fo = (fo', Ok ())"
      using push_segment_split(2) [of sink "b # bs" fo] by (metis prod.collapse)
    have seg: "push_segment sink ((b # bs) @ zs) e fo = push_segment sink zs e fo'" for zs e
      using push_segment_split(1) [of sink "b # bs" zs e fo] fo' by simp
    show ?thesis
    proof (cases ys)
      case Nil
      then show ?thesis by (simp add: first fo')
    next
      case (Cons y zs)
      then show ?thesis
        using None split_once_append_right [OF no, of ys] seg [of ys False] seg [of "_ @ [nl]" True]
        by (auto simp: first fo' push_stdout.simps(2) simp del: split_once.simps split: option.splits)
    qed
  next
    case (Some r)
    obtain line rest where r: "r = (line, rest)" by (cases r)
    show ?thesis
      using 2 [OF Some r [symmetric]] split_once_append_left [OF Some [unfolded r], of ys] Some r
      by (auto simp: push_stdout.simps(2) simp del: split_once.simps split: prod.splits sum.splits)
  qed
qed simp

text \<open>The decoder of standard output as a sink of bytes; a failed sink stops it.\<close>

definition framed_absorb ::
    "checked_sink option \<Rightarrow> framed_output \<times> (error, unit) result \<Rightarrow> bytes \<Rightarrow> framed_output \<times> (error, unit) result" where
  "framed_absorb sink st bytes =
     (case st of (fo, Err e) \<Rightarrow> (fo, Err e) | (fo, Ok _) \<Rightarrow> push_stdout sink bytes fo)"

interpretation framed_sink: chunk_sink "framed_absorb sink"
  by unfold_locales (auto simp: framed_absorb_def push_stdout_append split: prod.splits sum.splits)

subsection \<open>The decoder by lines\<close>

text \<open>What a line, without its newline, is to the decoder.\<close>

datatype line_kind = Blank | Frame output_stream bytes | Torn

definition classify :: "bytes \<Rightarrow> line_kind" where
  "classify l =
     (if max_frame_bytes < length l + 1 then Torn
      else case l of
        [] \<Rightarrow> Blank
      | tag # body \<Rightarrow>
          (case stream_tag tag of
             None \<Rightarrow> Torn
           | Some i \<Rightarrow> (case decode_quoted body of Ok raw \<Rightarrow> Frame i raw | Err _ \<Rightarrow> Torn)))"

abbreviation idle :: "framed_output \<Rightarrow> bool" where
  "idle fo \<equiv> fo_pending fo = [] \<and> \<not> fo_discarding fo"

lemma idle_updates:
  "idle fo \<Longrightarrow> fo\<lparr>fo_pending := [], fo_discarding := False\<rparr> = fo"
  "fo_pending fo = [] \<Longrightarrow> fo\<lparr>fo_pending := []\<rparr> = fo"
  "idle (lose m n fo) \<longleftrightarrow> idle fo"
  by (cases fo; simp)+

lemma push_stdout_ne:
  "bs \<noteq> [] \<Longrightarrow> push_stdout sink bs fo =
     (case split_once nl bs of
        None \<Rightarrow> push_segment sink bs False fo
      | Some (line, rest) \<Rightarrow>
          (case push_segment sink (line @ [nl]) True fo of
             (fo, Err e) \<Rightarrow> (fo, Err e)
           | (fo, Ok _) \<Rightarrow> push_stdout sink rest fo))"
  by (cases bs) (simp only: push_stdout.simps(2) list.distinct simp_thms)+

lemma push_line:
  assumes "nl \<notin> set l" and "idle fo"
  shows "push_stdout sink (l @ [nl]) fo =
    (case classify l of
       Blank \<Rightarrow> (fo, Ok ()) | Torn \<Rightarrow> (lose 1 (length l + 1) fo, Ok ()) | Frame i raw \<Rightarrow> framed_emit sink i raw fo)"
proof -
  have "push_stdout sink (l @ [nl]) fo = push_segment sink (l @ [nl]) True fo"
    using split_once_append [OF assms(1), of "[]"] push_stdout_ne [of "l @ [nl]" sink fo]
    by (auto split: prod.splits sum.splits)
  with assms(2) idle_updates(1) [OF assms(2)] idle_updates(2) [of fo] show ?thesis
    by (cases l) (auto simp: push_segment_def classify_def framed_discard_def take_record_def Let_def
        idle_updates butlast_append split: option.splits sum.splits)
qed

lemma push_partial:
  assumes "nl \<notin> set l" and "idle fo"
  shows "push_stdout sink l fo =
    (if max_frame_bytes < length l then (lose 1 (length l) fo)\<lparr>fo_discarding := True\<rparr>
     else fo\<lparr>fo_pending := l\<rparr>, Ok ())"
proof -
  have "push_stdout sink l fo = push_segment sink l False fo"
    using assms split_once_notin [of nl l] idle_updates(2) [of fo]
    by (cases l) (auto simp: push_stdout.simps(2) push_segment_def max_frame_bytes_def simp del: split_once.simps)
  with assms(2) idle_updates(2) [of "lose 1 (length l) fo"] show ?thesis
    by (auto simp: push_segment_def framed_discard_def)
qed

definition frames_on :: "output_stream \<Rightarrow> bytes list \<Rightarrow> bytes" where
  "frames_on i ls = concat (map (\<lambda>l. case classify l of Frame j raw \<Rightarrow> if i = j then raw else [] | _ \<Rightarrow> []) ls)"

definition torn :: "bytes list \<Rightarrow> bytes list" where
  "torn ls = filter (\<lambda>l. classify l = Torn) ls"

definition given_on :: "output_stream \<Rightarrow> framed_output \<Rightarrow> bytes" where
  "given_on i fo = concat (map snd (filter (\<lambda>x. fst x = i) (fo_given fo)))"

text \<open>The streams have consumed exactly \<open>w\<close>, and a sink was given what they released.\<close>

definition streams_fed ::
    "output_sanitization \<Rightarrow> nat option \<Rightarrow> checked_sink option \<Rightarrow> (output_stream \<Rightarrow> bytes) \<Rightarrow> framed_output \<Rightarrow> bool" where
  "streams_fed p limit sink w fo \<longleftrightarrow>
     (\<forall>i. lane_of i (fo_streams fo) = pipe san_push capture_push (sanitizer_new p, capture_new limit) (w i) \<and>
          (sink \<noteq> None \<longrightarrow> given_on i fo = snd (san_push (sanitizer_new p) (w i))))"

definition accepting :: "checked_sink option \<Rightarrow> bool" where
  "accepting sink \<longleftrightarrow> (\<forall>s. sink = Some s \<longrightarrow> (\<forall>g i bs. s g i bs = Ok ()))"

lemma call_sink_accepting:
  assumes "accepting sink"
  shows "snd (call_sink sink i bs fo) = Ok ()"
    and "fo_streams (fst (call_sink sink i bs fo)) = fo_streams fo"
    and "fo_loss (fst (call_sink sink i bs fo)) = fo_loss fo"
    and "fo_pending (fst (call_sink sink i bs fo)) = fo_pending fo"
    and "fo_discarding (fst (call_sink sink i bs fo)) = fo_discarding fo"
    and "given_on j (fst (call_sink sink i bs fo)) =
      given_on j fo @ (if sink \<noteq> None \<and> j = i then bs else [])"
  using assms by (auto simp: call_sink_def accepting_def given_on_def split: option.splits)

lemma framed_emit_accepting:
  assumes acc: "accepting sink" and fed: "streams_fed p limit sink w fo"
  shows "\<exists>fo'. framed_emit sink j raw fo = (fo', Ok ()) \<and> streams_fed p limit sink (w(j := w j @ raw)) fo' \<and>
    fo_loss fo' = fo_loss fo \<and> fo_pending fo' = fo_pending fo \<and> fo_discarding fo' = fo_discarding fo"
proof -
  let ?start = "(sanitizer_new p, capture_new limit)"
  let ?s = "fst (san_push (sanitizer_new p) (w j))"
  let ?bs = "snd (san_push ?s raw)"
  let ?fo = "fo\<lparr>fo_streams := set_lane j (pipe san_push capture_push (lane_of j (fo_streams fo)) raw) (fo_streams fo)\<rparr>"
  have lane: "lane_of j (fo_streams fo) = pipe san_push capture_push ?start (w j)"
    using fed by (simp add: streams_fed_def)
  then have "fst (lane_of j (fo_streams fo)) = ?s" by (simp add: stream_pipe.pipe_fst)
  then have emit: "framed_emit sink j raw fo = call_sink sink j ?bs ?fo"
    by (cases "lane_of j (fo_streams fo)") (simp add: framed_emit_def pipe_def split: prod.splits)
  have "given_on i ?fo = given_on i fo" for i by (simp add: given_on_def)
  then have "streams_fed p limit sink (w(j := w j @ raw)) (fst (call_sink sink j ?bs ?fo))"
    using fed call_sink_accepting [OF acc, where i = j and bs = ?bs and fo = ?fo] lane
    by (simp add: streams_fed_def san_push_more stream_pipe.piped.absorb_append)
  with call_sink_accepting [OF acc, where i = j and bs = ?bs and fo = ?fo] show ?thesis
    by (intro exI [of _ "fst (call_sink sink j ?bs ?fo)"]) (simp add: emit prod_eq_iff)
qed

definition unlines :: "bytes list \<Rightarrow> bytes" where
  "unlines ls = concat (map (\<lambda>l. l @ [nl]) ls)"

lemma unlines_Cons: "unlines (l # ls) = (l @ [nl]) @ unlines ls"
  by (simp add: unlines_def)

lemma framed_emit_fed:
  assumes "accepting sink" and "streams_fed p limit sink w fo" and "framed_emit sink j raw fo = (fo', r)"
  shows "r = Ok () \<and> streams_fed p limit sink (w(j := w j @ raw)) fo' \<and>
    fo_loss fo' = fo_loss fo \<and> fo_pending fo' = fo_pending fo \<and> fo_discarding fo' = fo_discarding fo"
  using framed_emit_accepting [OF assms(1,2), of j raw] assms(3) by auto

lemma push_lines:
  assumes "accepting sink" and "\<forall>l\<in>set ls. nl \<notin> set l"
    and "idle fo" and "streams_fed p limit sink w fo"
  shows "\<exists>fo'. push_stdout sink (unlines ls) fo = (fo', Ok ()) \<and> idle fo' \<and>
    streams_fed p limit sink (\<lambda>i. w i @ frames_on i ls) fo' \<and>
    fo_loss fo' = fo_loss (lose (length (torn ls)) (length (unlines (torn ls))) fo)"
  using assms(2-)
proof (induction ls arbitrary: w fo)
  case Nil
  then show ?case by (cases fo) (simp add: unlines_def torn_def frames_on_def lose_def)
next
  case (Cons l ls)
  note line = push_line [of l fo sink]
  have rest: "push_stdout sink (unlines (l # ls)) fo = push_stdout sink (unlines ls) fo1"
    if "push_stdout sink (l @ [nl]) fo = (fo1, Ok ())" for fo1
    using that by (simp only: unlines_Cons push_stdout_append prod.case sum.case)
  show ?case
  proof (cases "classify l")
    case Blank
    with Cons.IH [of fo w] Cons.prems rest [of fo] line show ?thesis
      by (simp add: frames_on_def torn_def)
  next
    case (Frame j raw)
    obtain fo1 where fo1: "framed_emit sink j raw fo = (fo1, Ok ())"
      "streams_fed p limit sink (w(j := w j @ raw)) fo1" "fo_loss fo1 = fo_loss fo" "idle fo1"
      using framed_emit_accepting [OF assms(1) Cons.prems(3), of j raw] Cons.prems(2) by auto
    have w: "(\<lambda>i. (w(j := w j @ raw)) i @ frames_on i ls) = (\<lambda>i. w i @ frames_on i (l # ls))"
      by (auto simp: frames_on_def Frame)
    have "torn (l # ls) = torn ls" by (simp add: torn_def Frame)
    moreover have "push_stdout sink (unlines (l # ls)) fo = push_stdout sink (unlines ls) fo1"
      using rest [of fo1] line Cons.prems fo1(1) Frame by simp
    ultimately show ?thesis
      using Cons.IH [OF _ fo1(4,2), unfolded w] Cons.prems(1) fo1(3) by (simp add: lose_def)
  next
    case Torn
    let ?fo1 = "lose 1 (length l + 1) fo"
    have fed: "streams_fed p limit sink w ?fo1"
      using Cons.prems(3) by (simp add: streams_fed_def lose_def given_on_def)
    have "torn (l # ls) = l # torn ls" by (simp add: torn_def Torn)
    with Cons.IH [of ?fo1 w] Cons.prems rest [of ?fo1] line fed Torn show ?thesis
      by (auto simp: frames_on_def unlines_Cons algebra_simps)
  qed
qed

lemma split_on_unlines:
  "bytes = unlines (butlast (split_on nl bytes)) @ last (split_on nl bytes)"
proof (induction bytes)
  case (Cons b bs)
  then show ?case
    by (cases "split_on nl bs") (auto simp: unlines_def)
qed (simp add: unlines_def)

lemma framed_new_fed: "streams_fed p limit sink (\<lambda>_. []) (framed_new p limit)" "idle (framed_new p limit)"
  by (auto simp: streams_fed_def framed_new_def stream_output_new_def lane_of_def pipe_def given_on_def
      sanitizer_machine.push_Nil capture_push_Nil split: output_stream.split)

text \<open>The state the decoder must be in after the bytes: the specification over whole lines.\<close>

definition decodes ::
    "output_sanitization \<Rightarrow> nat option \<Rightarrow> checked_sink option \<Rightarrow> bytes \<Rightarrow> framed_output \<Rightarrow> bool" where
  "decodes p limit sink bytes fo \<longleftrightarrow>
     (let ls = butlast (split_on nl bytes); rest = last (split_on nl bytes);
          over = max_frame_bytes < length rest in
      streams_fed p limit sink (\<lambda>i. frames_on i ls) fo \<and>
      fo_loss fo = \<lparr>dropped_frames = of_nat (length (torn ls) + (if over then 1 else 0)),
                    dropped_bytes = of_nat (length (unlines (torn ls)) + (if over then length rest else 0))\<rparr> \<and>
      fo_pending fo = (if over then [] else rest) \<and> fo_discarding fo = over)"

lemma push_stdout_decodes:
  assumes "accepting sink"
  shows "\<exists>fo. push_stdout sink bytes (framed_new p limit) = (fo, Ok ()) \<and> decodes p limit sink bytes fo"
proof -
  let ?ls = "butlast (split_on nl bytes)" and ?rest = "last (split_on nl bytes)"
  have no: "\<forall>l\<in>set ?ls. nl \<notin> set l"
    by (intro ballI) (rule split_on_pieces [OF in_set_butlastD])
  have part_no: "nl \<notin> set ?rest" by (rule split_on_pieces [OF last_in_set [OF split_on_ne]])
  obtain fo1 where fo1: "push_stdout sink (unlines ?ls) (framed_new p limit) = (fo1, Ok ())" "idle fo1"
    "streams_fed p limit sink (\<lambda>i. [] @ frames_on i ?ls) fo1"
    "fo_loss fo1 = fo_loss (lose (length (torn ?ls)) (length (unlines (torn ?ls))) (framed_new p limit))"
    using push_lines [OF assms no framed_new_fed(2,1), of p limit] by auto
  define fo where "fo = fst (push_stdout sink ?rest fo1)"
  note part = push_partial [OF part_no fo1(2), of sink]
  have "push_stdout sink bytes (framed_new p limit) = push_stdout sink (unlines ?ls @ ?rest) (framed_new p limit)"
    by (simp flip: split_on_unlines)
  also have "\<dots> = push_stdout sink ?rest fo1"
    by (simp only: push_stdout_append fo1(1) prod.case sum.case)
  finally have pushed: "push_stdout sink bytes (framed_new p limit) = (fo, Ok ())"
    using part by (simp add: fo_def)
  have "streams_fed p limit sink (\<lambda>i. frames_on i ?ls) fo"
    using fo1(3) unfolding fo_def part by (simp add: streams_fed_def given_on_def lose_def)
  moreover have "fo_loss fo = (if max_frame_bytes < length ?rest then fo_loss (lose 1 (length ?rest) fo1) else fo_loss fo1)"
    "fo_pending fo = (if max_frame_bytes < length ?rest then [] else ?rest)"
    "fo_discarding fo = (max_frame_bytes < length ?rest)"
    using fo1(2) unfolding fo_def part by simp_all
  ultimately have "decodes p limit sink bytes fo"
    using fo1(4) unfolding decodes_def Let_def
    by (simp add: lose_def framed_new_def no_loss_def algebra_simps)
  with pushed show ?thesis by blast
qed

text \<open>
  C27. The Daytona output decoder refines its specification over whole lines, however the
  transport cuts the text: the two streams receive exactly the payloads of the well-formed
  records, in order; every other line but a blank one is dropped whole and alone, counted as one
  record with all its bytes; an unfinished line is held, or dropped and counted when it can no
  longer be a record.
\<close>

theorem encoded_decoder_refines:
  assumes "accepting sink"
  shows "\<exists>fo. absorb_all (framed_absorb sink) (framed_new p limit, Ok ()) chunks = (fo, Ok ()) \<and>
    decodes p limit sink (concat chunks) fo"
  using push_stdout_decodes [OF assms, of "concat chunks" p limit]
  by (simp add: framed_sink.absorb_all_concat framed_absorb_def)

theorem encoded_decoder_refines_witness:
  "\<exists>fo. absorb_all (framed_absorb None) (framed_new Raw None, Ok ()) [''Ohi'', [nl, CHR ''x'']] = (fo, Ok ()) \<and>
    fo_pending fo = ''x'' \<and> frames_on Stdout [''Ohi''] = ''hi''"
  using encoded_decoder_refines [of None Raw None "[''Ohi'', [nl, CHR ''x'']]"]
  by (auto simp: accepting_def decodes_def Let_def max_frame_bytes_def frames_on_def classify_def
      stream_tag_def decode_quoted_def printable_def byte_in_def)

subsection \<open>The wrapper's records\<close>

text \<open>
  What Bash documents of \<open>printf %q\<close> in the C locale: a word with characters escaped by a
  backslash, or an ANSI-C string with named escapes and three-digit octal codes. No byte of a
  chunk is zero.
\<close>

definition bash_escapes :: "(byte \<times> byte) list" where
  "bash_escapes =
     [(CHR ''a'', byte_of 7), (CHR ''b'', byte_of 8), (CHR ''t'', byte_of 9), (CHR ''n'', byte_of 10),
      (CHR ''v'', byte_of 11), (CHR ''f'', byte_of 12), (CHR ''r'', byte_of 13), (CHR ''E'', byte_of 27),
      (bslash, bslash), (quote1, quote1)]"

definition octal3 :: "byte \<Rightarrow> bytes" where
  "octal3 b = (let v = byte_val b in
     [byte_of (48 + v div 64), byte_of (48 + v div 8 mod 8), byte_of (48 + v mod 8)])"

definition plain_piece :: "bytes \<Rightarrow> byte \<Rightarrow> bool" where
  "plain_piece out b \<longleftrightarrow> byte_in 0x20 0x7e b \<and>
     (out = [b] \<and> b \<noteq> bslash \<and> b \<noteq> quote1 \<and> b \<noteq> CHR ''$'' \<or> out = [bslash, b])"

definition ansi_piece :: "bytes \<Rightarrow> byte \<Rightarrow> bool" where
  "ansi_piece out b \<longleftrightarrow>
     (out = [b] \<and> byte_in 0x20 0x7e b \<and> b \<noteq> bslash \<and> b \<noteq> quote1) \<or>
     (\<exists>c. (c, b) \<in> set bash_escapes \<and> out = [bslash, c]) \<or> out = bslash # octal3 b"

definition quoted :: "bytes \<Rightarrow> bytes \<Rightarrow> bool" where
  "quoted out bs \<longleftrightarrow>
     (\<exists>ps. list_all2 plain_piece ps bs \<and> out = concat ps) \<or>
     (\<exists>ps. list_all2 ansi_piece ps bs \<and> out = [CHR ''$'', quote1] @ concat ps @ [quote1])"

definition printf_q :: "(bytes \<Rightarrow> bytes) \<Rightarrow> bool" where
  "printf_q q \<longleftrightarrow> (\<forall>bs. bs \<noteq> [] \<and> CHR 0x00 \<notin> set bs \<longrightarrow> quoted (q bs) bs)"

lemma decode_plain_pieces: "list_all2 plain_piece ps bs \<Longrightarrow> decode_plain (concat ps) = Ok bs"
  by (induction ps bs rule: list_all2_induct) (auto simp: plain_piece_def printable_def)

lemma octal3_digits: "c \<in> set (octal3 b) \<Longrightarrow> byte_in 48 55 c"
proof -
  have "byte_val b div 64 \<le> 3" using byte_val_lt [of b] by linarith
  then show "c \<in> set (octal3 b) \<Longrightarrow> byte_in 48 55 c" by (auto simp: octal3_def Let_def byte_in_def)
qed

lemma octal_digits_octal3:
  "octal3 b = c # ds \<Longrightarrow> byte_in 48 55 c \<and> octal_digits 2 (byte_val c - 48) (ds @ rest) = (byte_val b, rest)"
proof -
  assume c: "octal3 b = c # ds"
  let ?v = "byte_val b"
  have v: "?v < 256" by simp
  have small: "48 + ?v div 64 < 256" "48 + ?v div 8 mod 8 < 256" "48 + ?v mod 8 < 256" "?v div 64 \<le> 7"
    "?v div 8 mod 8 \<le> 7" "?v mod 8 \<le> 7"
    using v by linarith+
  have parts: "c = byte_of (48 + ?v div 64)" "ds = [byte_of (48 + ?v div 8 mod 8), byte_of (48 + ?v mod 8)]"
    using c by (simp_all add: octal3_def Let_def)
  have "n div 64 = n div 8 div 8" for n :: nat
    using div_mult2_eq [of n 8 8] by simp
  then have "(n div 64 * 8 + n div 8 mod 8) * 8 + n mod 8 = n" for n :: nat
    by (simp only: div_mult_mod_eq)
  then show ?thesis
    using small by (simp add: parts byte_in_def numeral_2_eq_2)
qed

lemma simple_escape_octal: "byte_in 48 55 c \<Longrightarrow> simple_escape c = None"
  unfolding byte_in_def by (elim conjE) (simp add: simple_escape_def byte_eq_iff)

lemma bash_escapes_simple: "(c, b) \<in> set bash_escapes \<Longrightarrow> simple_escape c = Some b"
  by (simp add: bash_escapes_def) (elim disjE; simp add: simple_escape_def)

lemma decode_ansi_piece:
  assumes "ansi_piece p b"
  shows "decode_ansi_c (p @ rest) = bind_result (decode_ansi_c rest) (\<lambda>ds. Ok (b # ds))"
proof -
  obtain c ds where o: "octal3 b = c # ds" by (simp add: octal3_def Let_def)
  from octal_digits_octal3 [OF o] simple_escape_octal [of c]
  have "decode_escape c (ds @ rest) = Ok (b, rest)" by (simp add: decode_escape_def)
  with assms o show ?thesis
    by (auto simp: ansi_piece_def printable_def decode_escape_def bash_escapes_simple)
qed

lemma decode_ansi_pieces: "list_all2 ansi_piece ps bs \<Longrightarrow> decode_ansi_c (concat ps) = Ok bs"
  by (induction ps bs rule: list_all2_induct) (simp_all add: decode_ansi_piece)

lemma plain_first:
  "list_all2 plain_piece ps bs \<Longrightarrow> concat ps = c # cs \<Longrightarrow> c \<noteq> quote1 \<and> c \<noteq> CHR ''$''"
  by (cases ps; cases bs) (auto simp: plain_piece_def)

lemma decode_quoted_ok:
  assumes "quoted out bs"
  shows "decode_quoted out = Ok bs"
  using assms unfolding quoted_def
proof (elim disjE exE conjE)
  fix ps assume ps: "list_all2 plain_piece ps bs" "out = concat ps"
  then show ?thesis
    using plain_first [OF ps(1)] decode_plain_pieces [OF ps(1)]
    by (cases "concat ps") (auto simp: decode_quoted_def)
next
  fix ps assume "list_all2 ansi_piece ps bs" "out = [CHR ''$'', quote1] @ concat ps @ [quote1]"
  then show ?thesis
    using strip_prefix_append [of "[CHR ''$'', quote1]" "concat ps @ [quote1]"]
    by (simp add: decode_quoted_def decode_ansi_pieces del: strip_prefix.simps)
qed

lemma pieces_length: "list_all2 (\<lambda>p b. length p \<le> n) ps bs \<Longrightarrow> length (concat ps) \<le> n * length bs"
  by (induction ps bs rule: list_all2_induct) simp_all

lemma pieces_free: "list_all2 (\<lambda>p b. c \<notin> set p) ps bs \<Longrightarrow> c \<notin> set (concat ps)"
  by (induction ps bs rule: list_all2_induct) simp_all

lemma piece_bounds:
  "plain_piece p b \<Longrightarrow> length p \<le> 4 \<and> nl \<notin> set p"
  "ansi_piece p b \<Longrightarrow> length p \<le> 4 \<and> nl \<notin> set p"
proof -
  have "nl \<notin> set (octal3 b)" using octal3_digits [of nl b] by (auto simp: byte_in_def)
  moreover have "length (octal3 b) = 3" by (simp add: octal3_def Let_def)
  moreover have "nl \<noteq> c" if "(c, b) \<in> set bash_escapes" for c
    using that by (auto simp: bash_escapes_def)
  ultimately show "plain_piece p b \<Longrightarrow> length p \<le> 4 \<and> nl \<notin> set p"
    "ansi_piece p b \<Longrightarrow> length p \<le> 4 \<and> nl \<notin> set p"
    by (auto simp: plain_piece_def ansi_piece_def byte_in_def)
qed

lemma quoted_bounds:
  assumes "quoted out bs"
  shows "length out \<le> 4 * length bs + 3 \<and> nl \<notin> set out"
proof -
  have "length (concat ps) \<le> 4 * length bs \<and> nl \<notin> set (concat ps)"
    if "list_all2 plain_piece ps bs \<or> list_all2 ansi_piece ps bs" for ps
    using that pieces_length [of 4 ps bs] pieces_free [of nl ps bs]
    by (metis (no_types, lifting) list_all2_mono piece_bounds)
  with assms show ?thesis unfolding quoted_def by fastforce
qed

definition tag_byte :: "output_stream \<Rightarrow> byte" where
  "tag_byte i = (case i of Stdout \<Rightarrow> CHR ''O'' | Stderr \<Rightarrow> CHR ''E'')"

text \<open>\<open>writes i ls w\<close>: the lines are records of stream \<open>i\<close> whose payloads join to \<open>w\<close>.\<close>

definition writes :: "output_stream \<Rightarrow> bytes list \<Rightarrow> bytes \<Rightarrow> bool" where
  "writes i ls w \<longleftrightarrow> (\<forall>l\<in>set ls. nl \<notin> set l \<and> (\<exists>raw. classify l = Frame i raw)) \<and> frames_on i ls = w"

lemma stream_tag_byte [simp]: "stream_tag (tag_byte i) = Some i" "tag_byte i \<noteq> nl"
  by (cases i; simp add: tag_byte_def stream_tag_def)+

lemma classify_quoted:
  assumes "quoted out bs" and "length bs \<le> 96"
  shows "classify (tag_byte i # out) = Frame i bs" "nl \<notin> set (tag_byte i # out)"
  using quoted_bounds [OF assms(1)] assms(2) decode_quoted_ok [OF assms(1)]
  by (auto simp: classify_def max_frame_bytes_def stream_tag_byte(2) [symmetric])

lemma byte_of_0: "byte_of 0 = CHR 0x00"
  by (simp add: byte_eq_iff)

lemma classify_nul:
  "classify (tag_byte i # nul_record) = Frame i [CHR 0x00]" "nl \<notin> set (tag_byte i # nul_record)"
  by (simp_all add: classify_def nul_record_def max_frame_bytes_def decode_quoted_def strip_suffix_def
      decode_escape_def simple_escape_def byte_in_def byte_of_0 stream_tag_byte(2) [symmetric])

lemma writes_Cons:
  "classify l = Frame i raw \<Longrightarrow> nl \<notin> set l \<Longrightarrow> writes i ls w \<Longrightarrow> writes i (l # ls) (raw @ w)"
  by (simp add: writes_def frames_on_def)

text \<open>A list of lines as the encoder prints it.\<close>

definition prints :: "output_stream \<Rightarrow> bytes list \<Rightarrow> bytes \<Rightarrow> bool" where
  "prints i out w \<longleftrightarrow> (\<exists>ls. out = map (\<lambda>l. l @ [nl]) ls \<and> writes i ls w)"

lemma prints_record:
  assumes "printf_q q" and "chunk \<noteq> []" "CHR 0x00 \<notin> set chunk" "length chunk \<le> 96" and "prints i out w"
  shows "prints i (record_line (tag_byte i) (q chunk) # out) (chunk @ w)"
proof -
  have "quoted (q chunk) chunk" using assms(1-3) by (simp add: printf_q_def)
  note line = classify_quoted [OF this assms(4), of i]
  obtain ls where "out = map (\<lambda>l. l @ [nl]) ls" "writes i ls w" using assms(5) by (auto simp: prints_def)
  with writes_Cons [OF line] show ?thesis
    unfolding prints_def record_line_def by (intro exI [of _ "(tag_byte i # q chunk) # ls"]) simp
qed

lemma prints_nul:
  assumes "prints i out w"
  shows "prints i (record_line (tag_byte i) nul_record # out) (CHR 0x00 # w)"
proof -
  obtain ls where "out = map (\<lambda>l. l @ [nl]) ls" "writes i ls w" using assms by (auto simp: prints_def)
  with writes_Cons [OF classify_nul] show ?thesis
    unfolding prints_def record_line_def by (intro exI [of _ "(tag_byte i # nul_record) # ls"]) simp
qed

lemma encode_prints:
  assumes q: "printf_q q" and count: "1 \<le> count" "count \<le> 96"
  shows "CHR 0x00 \<notin> set chunk \<Longrightarrow> length chunk < count \<Longrightarrow>
    prints i (encode q count (tag_byte i) chunk input) (chunk @ map fst input)"
proof (induction input arbitrary: chunk)
  case Nil
  have "prints i [] []" by (simp add: prints_def writes_def frames_on_def)
  with prints_record [OF q _ Nil(1), of i "[]" "[]"] Nil(2) count show ?case by auto
next
  case (Cons x input)
  obtain byte ready where x: "x = (byte, ready)" by (cases x)
  have rest: "prints i (encode q count (tag_byte i) [] input) (map fst input)"
    using Cons.IH [of "[]"] count by simp
  note flush = prints_record [OF q, of _ i]
  show ?case
  proof (cases "byte = CHR 0x00")
    case True
    from prints_nul [OF rest] flush [OF _ Cons.prems(1) _ prints_nul [OF rest]] Cons.prems(2) count show ?thesis
      by (auto simp: x True)
  next
    case False
    with Cons.IH [of "chunk @ [byte]"] flush [of "chunk @ [byte]", OF _ _ _ rest] Cons.prems count show ?thesis
      by (auto simp: x Let_def)
  qed
qed

lemma encode_count_bounds: "1 \<le> encode_count v" "encode_count v \<le> 96"
  by (simp_all add: encode_count_def)

subsection \<open>The whole run\<close>

lemma frames_on_shuffles:
  "ls \<in> shuffles xs ys \<Longrightarrow> frames_on i ys = [] \<Longrightarrow> frames_on i ls = frames_on i xs"
  by (induction xs ys arbitrary: ls rule: shuffles.induct) (auto simp: frames_on_def)

lemma writes_other: "writes j ls w \<Longrightarrow> i \<noteq> j \<Longrightarrow> frames_on i ls = []"
  by (fastforce simp: writes_def frames_on_def)

lemma shuffles_map_obtain:
  "zs \<in> shuffles (map f xs) (map f ys) \<Longrightarrow> \<exists>ws. ws \<in> shuffles xs ys \<and> zs = map f ws"
proof (induction xs ys arbitrary: zs rule: shuffles.induct)
  case (3 x xs y ys)
  from 3(3) consider ws where "zs = f x # ws" "ws \<in> shuffles (map f xs) (map f (y # ys))"
    | ws where "zs = f y # ws" "ws \<in> shuffles (map f (x # xs)) (map f ys)" by auto
  then show ?case
  proof cases
    case 1
    with 3(1) [OF 1(2)] show ?thesis by (metis Cons_in_shuffles_leftI list.simps(9))
  next
    case 2
    with 3(2) [OF 2(2)] show ?thesis by (metis Cons_in_shuffles_rightI list.simps(9))
  qed
qed simp_all

lemma shuffled_lines:
  assumes "prints Stdout out w" and "prints Stderr err v" and "lines \<in> shuffles out err"
  shows "\<exists>ls. concat lines = unlines ls \<and> (\<forall>l\<in>set ls. nl \<notin> set l) \<and> torn ls = [] \<and>
    frames_on Stdout ls = w \<and> frames_on Stderr ls = v"
proof -
  obtain xs ys where xs: "out = map (\<lambda>l. l @ [nl]) xs" "writes Stdout xs w"
    and ys: "err = map (\<lambda>l. l @ [nl]) ys" "writes Stderr ys v"
    using assms(1,2) by (auto simp: prints_def)
  from assms(3) obtain ls where ls: "lines = map (\<lambda>l. l @ [nl]) ls" "ls \<in> shuffles xs ys"
    using shuffles_map_obtain unfolding xs(1) ys(1) by blast
  have "ls \<in> shuffles ys xs" using ls(2) by (simp add: shuffles_commutes)
  then have "frames_on Stdout ls = w" "frames_on Stderr ls = v"
    using frames_on_shuffles [OF ls(2), of Stdout] frames_on_shuffles [of ls ys xs Stderr]
      writes_other [OF ys(2), of Stdout] writes_other [OF xs(2), of Stderr] xs(2) ys(2)
    by (simp_all add: writes_def)
  moreover have "\<forall>l\<in>set ls. nl \<notin> set l \<and> classify l \<noteq> Torn"
    using set_shuffles [OF ls(2)] xs(2) ys(2) by (fastforce simp: writes_def)
  ultimately show ?thesis using ls(1) by (auto simp: unlines_def torn_def filter_empty_conv)
qed

lemma framed_flush_accepting:
  assumes acc: "accepting sink" and lane: "lane_of i (fo_streams fo) = (s, c)"
  shows "\<exists>fo'. framed_flush sink i fo = (fo', Ok ()) \<and> fo_loss fo' = fo_loss fo \<and>
    (\<forall>j. lane_of j (fo_streams fo') =
        (if j = i then (fst (san_finish s), capture_push c (snd (san_finish s))) else lane_of j (fo_streams fo)) \<and>
      given_on j fo' = given_on j fo @ (if sink \<noteq> None \<and> j = i then snd (san_finish s) else []))"
proof -
  let ?bs = "snd (san_finish s)"
  let ?fo = "fo\<lparr>fo_streams := set_lane i (fst (san_finish s), capture_push c ?bs) (fo_streams fo)\<rparr>"
  have "framed_flush sink i fo = call_sink sink i ?bs ?fo"
    by (simp add: framed_flush_def lane split: prod.splits)
  moreover have "given_on j ?fo = given_on j fo" for j by (simp add: given_on_def)
  ultimately show ?thesis
    using call_sink_accepting [OF acc, where i = i and bs = ?bs and fo = ?fo]
    by (intro exI [of _ "fst (call_sink sink i ?bs ?fo)"]) (simp add: prod_eq_iff)
qed

text \<open>What the caller is told when the streams have consumed \<open>w\<close>.\<close>

definition reported ::
    "output_sanitization \<Rightarrow> nat option \<Rightarrow> checked_sink option \<Rightarrow> (output_stream \<Rightarrow> bytes) \<Rightarrow> output_loss \<Rightarrow>
     streaming_result \<Rightarrow> framed_output \<Rightarrow> streaming_result \<Rightarrow> bool" where
  "reported p limit sink w loss returned fo r \<longleftrightarrow>
     (let kept = (\<lambda>i. retained (case limit of None \<Rightarrow> 0 | Some n \<Rightarrow> n) (sanitize p (w i)));
          trunc = (truncated (stdout_capture returned) \<or> truncated (stderr_capture returned) \<or> is_lossy loss) in
      str_result r = (str_result returned)\<lparr>res_stdout := kept Stdout, res_stderr := kept Stderr\<rparr> \<and>
      str_output_loss r = loss \<and> str_streams_separated r \<and>
      stdout_capture r = \<lparr>observed_bytes = length (sanitize p (w Stdout)), retained_bytes = length (kept Stdout),
        omitted_bytes = length (sanitize p (w Stdout)) - length (kept Stdout), truncated = trunc\<rparr> \<and>
      stderr_capture r = \<lparr>observed_bytes = length (sanitize p (w Stderr)), retained_bytes = length (kept Stderr),
        omitted_bytes = length (sanitize p (w Stderr)) - length (kept Stderr), truncated = trunc\<rparr> \<and>
      (sink \<noteq> None \<longrightarrow> (\<forall>i. given_on i fo = sanitize p (w i))))"

lemma capture_stats_parts: "(to_bytes b, capture_stats b) = into_parts b"
  by (simp add: to_bytes_def capture_stats_def into_parts_def Let_def)

lemma framed_finish_fed:
  assumes acc: "accepting sink" and fed: "streams_fed p limit sink w fo" and empty: "fo_pending fo = []"
  shows "\<exists>fo' r. framed_finish sink fo returned = (fo', Ok r) \<and> reported p limit sink w (fo_loss fo) returned fo' r"
proof -
  let ?s = "\<lambda>i. fst (san_push (sanitizer_new p) (w i))" and ?o = "\<lambda>i. snd (san_push (sanitizer_new p) (w i))"
  let ?c = "\<lambda>i. capture_push (capture_new limit) (?o i)"
  have lanes: "lane_of i (fo_streams fo) = (?s i, ?c i)" for i
    using fed by (simp add: streams_fed_def prod_eq_iff stream_pipe.pipe_fst stream_pipe.pipe_snd)
  obtain f1 where f1: "framed_flush sink Stdout fo = (f1, Ok ())" "fo_loss f1 = fo_loss fo"
    "\<And>j. lane_of j (fo_streams f1) = (if j = Stdout then (fst (san_finish (?s Stdout)),
       capture_push (?c Stdout) (snd (san_finish (?s Stdout)))) else lane_of j (fo_streams fo))"
    "\<And>j. given_on j f1 = given_on j fo @ (if sink \<noteq> None \<and> j = Stdout then snd (san_finish (?s Stdout)) else [])"
    using framed_flush_accepting [OF acc lanes [of Stdout]] by blast
  have "lane_of Stderr (fo_streams f1) = (?s Stderr, ?c Stderr)" by (simp add: f1(3) lanes)
  from framed_flush_accepting [OF acc this]
  obtain f2 where f2: "framed_flush sink Stderr f1 = (f2, Ok ())" "fo_loss f2 = fo_loss f1"
    "\<And>j. lane_of j (fo_streams f2) = (if j = Stderr then (fst (san_finish (?s Stderr)),
       capture_push (?c Stderr) (snd (san_finish (?s Stderr)))) else lane_of j (fo_streams f1))"
    "\<And>j. given_on j f2 = given_on j f1 @ (if sink \<noteq> None \<and> j = Stderr then snd (san_finish (?s Stderr)) else [])"
    by blast
  have held: "snd (lane_of i (fo_streams f2)) = capture_push (capture_new limit) (sanitize p (w i))" for i
    by (cases i) (simp_all add: f2(3) f1(3) sanitize_split capture_push_append)
  have given: "given_on i f2 = sanitize p (w i)" if "sink \<noteq> None" for i
    using that fed by (cases i) (simp_all add: f2(4) f1(4) sanitize_split streams_fed_def)
  have parts: "to_bytes (snd (lane_of i (fo_streams f2))) = fst (into_parts (capture_push (capture_new limit) (sanitize p (w i))))"
    "capture_stats (snd (lane_of i (fo_streams f2))) = snd (into_parts (capture_push (capture_new limit) (sanitize p (w i))))" for i
    by (simp_all flip: held capture_stats_parts)
  have "framed_finish sink fo returned = (f2, Ok (framed_report f2 returned))"
    using empty by (simp add: framed_finish_def framed_close_def f1(1) f2(1))
  moreover have "reported p limit sink w (fo_loss fo) returned f2 (framed_report f2 returned)"
    using given by (simp add: reported_def framed_report_def parts into_parts_sanitized Let_def f1(2) f2(2))
  ultimately show ?thesis by blast
qed

lemma push_stdout_Ok: "accepting sink \<Longrightarrow> snd (push_stdout sink bs fo) = Ok ()"
proof (induction sink bs fo rule: push_stdout.induct)
  case (2 sink b bs fo)
  have emit: "snd (framed_emit sink i raw fo) = Ok ()" for i raw fo
    using 2(2) by (simp add: framed_emit_def call_sink_accepting(1) split: prod.splits)
  have seg: "snd (push_segment sink l e fo) = Ok ()" for l e
    by (auto simp: push_segment_def take_record_def Let_def emit split: option.splits sum.splits)
  show ?case
  proof (cases "split_once nl (b # bs)")
    case None
    then show ?thesis using seg by (simp add: push_stdout.simps(2) del: split_once.simps)
  next
    case (Some r)
    obtain line rest where r: "r = (line, rest)" by (cases r)
    obtain fo' where fo': "push_segment sink (line @ [nl]) True fo = (fo', Ok ())"
      using seg [of "line @ [nl]" True] by (cases "push_segment sink (line @ [nl]) True fo") simp
    with 2(1) [OF Some r [symmetric] fo' [symmetric] _ 2(2)] Some r show ?thesis
      by (simp add: push_stdout.simps(2) del: split_once.simps)
  qed
qed simp

lemma sink_calls_stdout:
  "accepting sink \<Longrightarrow> sink_calls sink (map (Pair Stdout) chunks) fo = fst (push_stdout sink (concat chunks) fo)"
proof (induction chunks arbitrary: fo)
  case (Cons c chunks)
  obtain fo' where "push_stdout sink c fo = (fo', Ok ())"
    using push_stdout_Ok [OF Cons.prems, of c fo] by (metis prod.collapse)
  then show ?case using Cons by (simp add: framed_push_def push_stdout_append)
qed simp

text \<open>How the wrapper's text reaches the provider: through the sink in chunks, or in the result.\<close>

definition carried :: "bool \<Rightarrow> (output_stream \<times> bytes) list \<Rightarrow> streaming_result \<Rightarrow> bytes \<Rightarrow> bool" where
  "carried streaming calls returned text \<longleftrightarrow>
     (if streaming then (\<exists>chunks. calls = map (Pair Stdout) chunks \<and> concat chunks = text)
      else res_stdout (str_result returned) = text \<and> res_stderr (str_result returned) = [])"

lemma encoded_run_carried:
  assumes acc: "accepting sink" and carried: "carried streaming calls returned text"
    and pushed: "push_stdout sink text (framed_new p limit) = (fo, Ok ())"
    and fed: "streams_fed p limit sink w fo" and "idle fo"
  shows "\<exists>fo' r. encoded_run p limit sink streaming calls (Ok returned) = (fo', Ok r) \<and>
    reported p limit sink w (fo_loss fo) returned fo' r"
proof (cases streaming)
  case True
  with carried acc have "sink_calls sink calls (framed_new p limit) = fo"
    using pushed by (auto simp: carried_def sink_calls_stdout)
  with True framed_finish_fed [OF acc fed, of returned] assms(5) show ?thesis
    by (simp add: encoded_run_def Let_def)
next
  case False
  obtain fo1 where fo1: "framed_emit sink Stderr [] fo = (fo1, Ok ())"
    "streams_fed p limit sink (w(Stderr := w Stderr @ [])) fo1" "fo_loss fo1 = fo_loss fo" "fo_pending fo1 = []"
    using framed_emit_accepting [OF acc fed, of Stderr "[]"] assms(5) by auto
  with False carried pushed framed_finish_fed [OF acc fo1(2,4), of returned] show ?thesis
    by (auto simp: encoded_run_def carried_def framed_push_def Let_def)
qed

text \<open>
  C26. Binary output survives Daytona's text transport: whatever bytes a command writes to its two
  streams, however the wrapper's shell batches them, in whatever order the two encoders' records
  are written and however the transport cuts the text, the run returns a result whose streams are
  the bounded copies of the sanitized originals, the caller's sink gets exactly the sanitized
  originals, nothing is counted as lost, and everything else of the transport's result is kept.
\<close>

theorem encoded_exec_exact:
  assumes "printf_q q" and "accepting sink"
    and "lines \<in> shuffles (encode q (encode_count bash) (CHR ''O'') [] outs) (encode q (encode_count bash) (CHR ''E'') [] errs)"
    and "carried streaming calls returned (concat lines)"
  shows "\<exists>fo r. encoded_run p limit sink streaming calls (Ok returned) = (fo, Ok r) \<and>
    reported p limit sink (\<lambda>i. case i of Stdout \<Rightarrow> map fst outs | Stderr \<Rightarrow> map fst errs) no_loss returned fo r"
proof -
  note prints = encode_prints [OF assms(1) encode_count_bounds, of "[]", simplified]
  obtain ls where ls: "concat lines = unlines ls" "\<forall>l\<in>set ls. nl \<notin> set l" "torn ls = []"
    "frames_on Stdout ls = map fst outs" "frames_on Stderr ls = map fst errs"
    using shuffled_lines [OF prints [of bash Stdout outs] prints [of bash Stderr errs], of lines] assms(3) encode_count_bounds [of bash]
    by (auto simp: tag_byte_def)
  obtain fo where fo: "push_stdout sink (unlines ls) (framed_new p limit) = (fo, Ok ())" "idle fo"
    "streams_fed p limit sink (\<lambda>i. [] @ frames_on i ls) fo" "fo_loss fo = no_loss"
    using push_lines [OF assms(2) ls(2) framed_new_fed(2,1), of p limit] ls(3)
    by (auto simp: lose_def framed_new_def no_loss_def unlines_def)
  have "(\<lambda>i. [] @ frames_on i ls) = (\<lambda>i. case i of Stdout \<Rightarrow> map fst outs | Stderr \<Rightarrow> map fst errs)"
    using ls(4,5) by (auto split: output_stream.split)
  with encoded_run_carried [OF assms(2,4) fo(1) [folded ls(1)] fo(3,2)] fo(4) show ?thesis by simp
qed

text \<open>A \<open>printf %q\<close> of the documented kind: every byte as a three-digit code.\<close>

definition octal_q :: "bytes \<Rightarrow> bytes" where
  "octal_q bs = [CHR ''$'', quote1] @ concat (map (\<lambda>b. bslash # octal3 b) bs) @ [quote1]"

lemma octal_q_printf: "printf_q octal_q"
  unfolding printf_q_def quoted_def octal_q_def
  by (intro allI impI disjI2 exI [of _ "map (\<lambda>b. bslash # octal3 b) _"])
    (auto simp: list_all2_map1 ansi_piece_def intro: list.rel_refl)

theorem encoded_exec_exact_witness:
  "\<exists>fo r. encoded_run Raw (Some 64) None False []
      (Ok (streaming_new ((result_new Exited (Some 0) 0)\<lparr>res_stdout :=
         concat (encode octal_q 96 (CHR ''O'') [] [(CHR 0x00, True), (CHR 0xFF, False)])\<rparr>))) = (fo, Ok r) \<and>
    res_stdout (str_result r) = retained 64 (sanitize Raw [CHR 0x00, CHR 0xFF])"
proof -
  let ?lines = "encode octal_q (encode_count 5) (CHR ''O'') [] [(CHR 0x00, True), (CHR 0xFF, False)]"
  have "?lines \<in> shuffles ?lines (encode octal_q (encode_count 5) (CHR ''E'') [] [])" by simp
  from encoded_exec_exact [OF octal_q_printf _ this, of None False "[]"
      "streaming_new ((result_new Exited (Some 0) 0)\<lparr>res_stdout := concat ?lines\<rparr>)" Raw "Some 64"]
  show ?thesis
    by (auto simp: accepting_def carried_def streaming_new_def result_new_def encode_count_def reported_def Let_def
        simp del: encode.simps)
qed

end
