(* ===== verification/Tar_Scanner.thy ===== *)
theory Tar_Scanner
  imports Errors
begin

section \<open>Files through Docker's archive API (sandbox-driver-docker/src/fs/tar.rs)\<close>

text \<open>
  A ranged read of a file in a container scans the tar stream Docker returns, keeping only the
  wanted range of the first regular file; an upload builds such a stream. How a tar header encodes
  the size and the kind of its entry belongs to the tar library and is a parameter.
\<close>

abbreviation tar_block :: nat where "tar_block \<equiv> 512"
definition u64_max :: nat where
  "u64_max = 2 ^ 64 - 1"

datatype entry_kind = Regular | Directory | Symlink | HardLink | OtherEntry

record tar_codec =
  entry_size :: "bytes \<Rightarrow> (io_error, nat) result"
  entry_type :: "bytes \<Rightarrow> entry_kind"

definition padding_for :: "nat \<Rightarrow> nat" where
  "padding_for n = (tar_block - n mod tar_block) mod tar_block"

datatype scan_state = ScanHeader | ScanSkip nat | ScanContent nat nat | ScanDone

datatype scan_step = NeedMore | Continue | Finished

datatype archived = ArchivedFile | NotAFile

text \<open>The part of the header block that has been read is \<open>sc_header\<close>.\<close>

record scanner =
  sc_offset :: nat
  sc_length :: "nat option"
  sc_header :: bytes
  sc_state :: scan_state
  sc_collected :: bytes
  sc_found :: bool

definition scanner_new :: "nat \<Rightarrow> nat option \<Rightarrow> scanner" where
  "scanner_new offset len =
     \<lparr>sc_offset = offset, sc_length = len, sc_header = [], sc_state = ScanHeader, sc_collected = [],
      sc_found = False\<rparr>"

definition scan_end :: "scanner \<Rightarrow> nat" where
  "scan_end s = (case sc_length s of None \<Rightarrow> u64_max | Some n \<Rightarrow> min (sc_offset s + n) u64_max)"

definition padded :: "nat \<Rightarrow> (error, nat) result" where
  "padded n =
     (if n + padding_for n \<le> u64_max then Ok (n + padding_for n)
      else Err (io_failure ''reading download archive'' ''InvalidData'' ''archive entry size overflows''))"

text \<open>A whole header block decides what its entry is and where to go next.\<close>

definition header_block :: "tar_codec \<Rightarrow> scanner \<Rightarrow> bytes \<Rightarrow> scanner \<times> (error, scan_step) result" where
  "header_block tc s block =
     (if list_all (\<lambda>b. b = CHR 0x00) block then (s\<lparr>sc_state := ScanDone\<rparr>, Ok Finished)
      else case entry_size tc block of
        Err e \<Rightarrow> (s, Err (Io ''reading download archive'' e))
      | Ok sz \<Rightarrow>
          (case entry_type tc block of
             Regular \<Rightarrow> (s\<lparr>sc_found := True, sc_state := ScanContent 0 sz\<rparr>, Ok Continue)
           | OtherEntry \<Rightarrow>
               (case padded sz of
                  Err e \<Rightarrow> (s, Err e)
                | Ok remaining \<Rightarrow> (s\<lparr>sc_state := ScanSkip remaining\<rparr>, Ok Continue))
           | _ \<Rightarrow> (s\<lparr>sc_state := ScanDone\<rparr>, Ok Finished)))"

definition feed_header :: "tar_codec \<Rightarrow> scanner \<Rightarrow> bytes \<Rightarrow> scanner \<times> bytes \<times> (error, scan_step) result" where
  "feed_header tc s chunk =
     (let n = min (tar_block - length (sc_header s)) (length chunk);
          block = sc_header s @ take n chunk; rest = drop n chunk in
      if length block < tar_block then (s\<lparr>sc_header := block\<rparr>, rest, Ok NeedMore)
      else case header_block tc (s\<lparr>sc_header := []\<rparr>) block of (s, r) \<Rightarrow> (s, rest, r))"

definition feed_skip :: "scanner \<Rightarrow> bytes \<Rightarrow> nat \<Rightarrow> scanner \<times> bytes \<times> scan_step" where
  "feed_skip s chunk remaining =
     (let n = min remaining (length chunk); rest = drop n chunk; remaining = remaining - n in
      if 0 < remaining then (s\<lparr>sc_state := ScanSkip remaining\<rparr>, rest, NeedMore)
      else (s\<lparr>sc_state := ScanHeader\<rparr>, rest, Continue))"

definition feed_content :: "scanner \<Rightarrow> bytes \<Rightarrow> nat \<Rightarrow> nat \<Rightarrow> scanner \<times> scan_step" where
  "feed_content s chunk position sz =
     (let file_left = sz - position;
          n = min (length chunk) file_left;
          e = scan_end s;
          keep_from = min (sc_offset s - position) n;
          keep_to = min (e - position) n;
          s = (if keep_from < keep_to
               then s\<lparr>sc_collected := sc_collected s @ drop keep_from (take keep_to chunk)\<rparr> else s);
          position = position + n in
      if sz \<le> position \<or> e \<le> position then (s\<lparr>sc_state := ScanDone\<rparr>, Finished)
      else (s\<lparr>sc_state := ScanContent position sz\<rparr>, NeedMore))"

text \<open>One turn of the loop of \<open>feed\<close>. Content never asks for another turn, so the rest of its chunk
  does not matter.\<close>

definition scan_turn :: "tar_codec \<Rightarrow> scanner \<Rightarrow> bytes \<Rightarrow> scanner \<times> bytes \<times> (error, scan_step) result" where
  "scan_turn tc s chunk =
     (case sc_state s of
        ScanDone \<Rightarrow> (s, chunk, Ok Finished)
      | ScanHeader \<Rightarrow> feed_header tc s chunk
      | ScanSkip remaining \<Rightarrow> (case feed_skip s chunk remaining of (s, rest, st) \<Rightarrow> (s, rest, Ok st))
      | ScanContent position sz \<Rightarrow> (case feed_content s chunk position sz of (s, st) \<Rightarrow> (s, [], Ok st)))"

definition scan_rank :: "scanner \<Rightarrow> nat" where
  "scan_rank s = (case sc_state s of ScanSkip _ \<Rightarrow> 1 | _ \<Rightarrow> 0)"

lemma header_block_Ok:
  "header_block tc s block = (s', r) \<Longrightarrow> sc_header s' = sc_header s \<and> r \<noteq> Ok NeedMore"
  by (auto simp: header_block_def split: if_splits sum.splits entry_kind.splits)

lemma feed_header_short:
  "length (sc_header s) + length xs < tar_block \<Longrightarrow>
   feed_header tc s xs = (s\<lparr>sc_header := sc_header s @ xs\<rparr>, [], Ok NeedMore)"
  by (simp add: feed_header_def Let_def)

lemma feed_header_full:
  assumes "tar_block \<le> length (sc_header s) + length xs"
  shows "feed_header tc s xs =
    (case header_block tc (s\<lparr>sc_header := []\<rparr>) (sc_header s @ take (tar_block - length (sc_header s)) xs) of
       (s', r) \<Rightarrow> (s', drop (tar_block - length (sc_header s)) xs, r))"
proof -
  have "min (tar_block - length (sc_header s)) (length xs) = tar_block - length (sc_header s)"
    "\<not> length (sc_header s) + (tar_block - length (sc_header s)) < tar_block"
    using assms by linarith+
  then show ?thesis using assms unfolding feed_header_def Let_def by simp
qed

lemma feed_header_less:
  assumes "feed_header tc s chunk = (s', rest, Ok Continue)"
  shows "length rest + length (sc_header s') < length chunk + length (sc_header s)"
proof -
  let ?n = "min (tar_block - length (sc_header s)) (length chunk)"
  from assms have "rest = drop ?n chunk" "sc_header s' = []" "\<not> length (sc_header s) + ?n < tar_block"
    by (auto simp: feed_header_def Let_def dest: header_block_Ok split: if_splits prod.splits)
  then show ?thesis by auto
qed

lemma feed_skip_less:
  "feed_skip s chunk n = (s', rest, Continue) \<Longrightarrow>
   sc_state s' = ScanHeader \<and> sc_header s' = sc_header s \<and> length rest \<le> length chunk"
  by (auto simp: feed_skip_def Let_def split: if_splits)

lemma feed_content_stops: "feed_content s chunk position sz \<noteq> (s', Continue)"
  by (simp add: feed_content_def Let_def)

lemma scan_turn_less:
  assumes "scan_turn tc s chunk = (s', rest, Ok Continue)"
  shows "length rest + length (sc_header s') < length chunk + length (sc_header s) \<or>
    length rest + length (sc_header s') \<le> length chunk + length (sc_header s) \<and> scan_rank s' < scan_rank s"
proof (cases "sc_state s")
  case ScanHeader
  with assms show ?thesis by (simp add: scan_turn_def feed_header_less)
next
  case (ScanSkip n)
  with assms have "feed_skip s chunk n = (s', rest, Continue)"
    by (simp add: scan_turn_def split: prod.splits)
  from feed_skip_less [OF this] show ?thesis by (simp add: ScanSkip scan_rank_def)
next
  case (ScanContent p n)
  with assms show ?thesis
    using feed_content_stops [of s chunk p n s'] by (simp add: scan_turn_def split: prod.splits)
next
  case ScanDone
  with assms show ?thesis by (simp add: scan_turn_def)
qed

function scan_feed :: "tar_codec \<Rightarrow> scanner \<Rightarrow> bytes \<Rightarrow> scanner \<times> (error, bool) result" where
  "scan_feed tc s chunk =
     (case scan_turn tc s chunk of
        (s, rest, Err e) \<Rightarrow> (s, Err e)
      | (s, rest, Ok NeedMore) \<Rightarrow> (s, Ok False)
      | (s, rest, Ok Finished) \<Rightarrow> (s, Ok True)
      | (s, rest, Ok Continue) \<Rightarrow> scan_feed tc s rest)"
  by pat_completeness auto
termination
  by (relation "(\<lambda>(_, s, chunk). length chunk + length (sc_header s)) <*mlex*> measure (\<lambda>(_, s, _). scan_rank s)")
    (auto simp: mlex_iff intro: wf_mlex dest!: scan_turn_less [OF sym])

declare scan_feed.simps [simp del]

definition scan_finish :: "scanner \<Rightarrow> (error, archived) result" where
  "scan_finish s =
     (if sc_state s \<noteq> ScanDone
      then Err (io_failure ''reading download archive'' ''UnexpectedEof''
             ''archive ended before the requested file data was complete'')
      else Ok (if sc_found s then ArchivedFile else NotAFile))"

subsection \<open>Uploads\<close>

text \<open>
  \<open>send_file_archive\<close>. The source answers a request for at most \<open>wanted\<close> bytes from its state;
  the receiver takes a number of chunks and then stops. What was sent is returned with the result.
\<close>

definition transfer_chunk_bytes :: nat where
  "transfer_chunk_bytes = 64 * 1024"

type_synonym 's byte_source = "'s \<Rightarrow> nat \<Rightarrow> (io_error, bytes) result \<times> 's"

definition send_chunk :: "nat \<Rightarrow> bytes list \<Rightarrow> bytes \<Rightarrow> bytes list \<times> (error, unit) result" where
  "send_chunk takes sent bytes =
     (if length sent < takes then (sent @ [bytes], Ok ())
      else (sent, Err (io_failure ''streaming upload archive'' ''BrokenPipe'' ''upload stopped reading'')))"

function send_body ::
    "'s byte_source \<Rightarrow> nat \<Rightarrow> 's \<Rightarrow> nat \<Rightarrow> bytes list \<Rightarrow> bytes list \<times> (error, unit) result" where
  "send_body read takes src remaining sent =
     (if remaining = 0 then (sent, Ok ())
      else case read src (min remaining transfer_chunk_bytes) of
        (Err e, src) \<Rightarrow> (sent, Err (Io ''reading upload source'' e))
      | (Ok bytes, src) \<Rightarrow>
          if bytes = []
          then (sent, Err (io_failure ''reading upload source'' ''UnexpectedEof''
                       ''source ended before the declared file length''))
          else (case send_chunk takes sent bytes of
            (sent, Err e) \<Rightarrow> (sent, Err e)
          | (sent, Ok _) \<Rightarrow> send_body read takes src (remaining - length bytes) sent))"
  by pat_completeness auto
termination
  by (relation "measure (\<lambda>(_, _, _, remaining, _). remaining)") auto

declare send_body.simps [simp del]

definition send_file_archive ::
    "'s byte_source \<Rightarrow> nat \<Rightarrow> bytes \<Rightarrow> 's \<Rightarrow> nat \<Rightarrow> bytes list \<times> (error, unit) result" where
  "send_file_archive read takes prefix src len =
     (case send_chunk takes [] prefix of
        (sent, Err e) \<Rightarrow> (sent, Err e)
      | (sent, Ok _) \<Rightarrow>
          (case send_body read takes src len sent of
             (sent, Err e) \<Rightarrow> (sent, Err e)
           | (sent, Ok _) \<Rightarrow> send_chunk takes sent (replicate (padding_for len + 2 * tar_block) (CHR 0x00))))"

subsection \<open>A chunk boundary carries no information\<close>

definition wanted_slice :: "scanner \<Rightarrow> nat \<Rightarrow> nat \<Rightarrow> bytes \<Rightarrow> bytes" where
  "wanted_slice s position sz w = drop (sc_offset s - position) (take (scan_end s - position) (take (sz - position) w))"

lemma slice_clip:
  assumes "n = min (length w) m"
  shows "(if min a n < min b n then drop (min a n) (take (min b n) w) else []) = drop a (take b (take m w))"
proof -
  have k: "take b (take m w) = take (min b n) w"
    unfolding assms by (cases "b \<le> m"; cases "length w \<le> m"; cases "length w \<le> b") (simp_all add: min_def)
  show ?thesis
  proof (cases "min a n < min b n")
    case True
    then have "min a n = a" by linarith
    with True k show ?thesis by simp
  next
    case False
    then have "min b n \<le> a" by linarith
    with False k have "length (take b (take m w)) \<le> a" by (simp add: assms)
    with False show ?thesis by (simp only: if_False drop_all)
  qed
qed

lemma feed_content_slice:
  "feed_content s chunk position sz =
     (let position' = position + min (length chunk) (sz - position);
          s' = s\<lparr>sc_collected := sc_collected s @ wanted_slice s position sz chunk\<rparr> in
      if sz \<le> position' \<or> scan_end s \<le> position' then (s'\<lparr>sc_state := ScanDone\<rparr>, Finished)
      else (s'\<lparr>sc_state := ScanContent position' sz\<rparr>, NeedMore))"
proof -
  have keep: "s = s\<lparr>sc_collected := sc_collected s @ []\<rparr>" by simp
  let ?n = "min (length chunk) (sz - position)"
  let ?f = "min (sc_offset s - position) ?n" and ?t = "min (scan_end s - position) ?n"
  have "(if ?f < ?t then drop ?f (take ?t chunk) else []) = wanted_slice s position sz chunk"
    unfolding wanted_slice_def by (rule slice_clip) simp
  then have "(if ?f < ?t then s\<lparr>sc_collected := sc_collected s @ drop ?f (take ?t chunk)\<rparr> else s) =
      s\<lparr>sc_collected := sc_collected s @ wanted_slice s position sz chunk\<rparr>"
    using keep by (cases "?f < ?t") (simp_all only: if_True if_False append_Nil2)
  then show ?thesis by (simp only: feed_content_def Let_def scanner.simps scan_end_def)
qed

lemma feed_header_grow:
  assumes "length (sc_header s) + length xs < tar_block"
  shows "feed_header tc (s\<lparr>sc_header := sc_header s @ xs\<rparr>) ys = feed_header tc s (xs @ ys)"
proof (cases "length (sc_header s) + length (xs @ ys) < tar_block")
  case True
  then show ?thesis by (simp add: feed_header_short)
next
  case False
  then show ?thesis using assms by (simp add: feed_header_full)
qed

lemma feed_skip_append:
  "feed_skip s (xs @ ys) n =
     (if n \<le> length xs then (case feed_skip s xs n of (s', rest, r) \<Rightarrow> (s', rest @ ys, r))
      else feed_skip (s\<lparr>sc_state := ScanSkip (n - length xs)\<rparr>) ys (n - length xs))"
  by (auto simp: feed_skip_def Let_def min_def)

lemma wanted_slice_append:
  "length xs \<le> sz - p \<Longrightarrow> length xs \<le> scan_end s - p \<Longrightarrow>
   wanted_slice s p sz (xs @ ys) = wanted_slice s p sz xs @ wanted_slice s (p + length xs) sz ys"
  by (simp add: wanted_slice_def)

lemma wanted_slice_cut:
  assumes "sz - p \<le> length xs \<or> scan_end s - p \<le> length xs"
  shows "wanted_slice s p sz (xs @ ys) = wanted_slice s p sz xs"
proof -
  have "min (scan_end s - p) (sz - p) - length xs = 0" using assms by linarith
  moreover have "wanted_slice s p sz w = drop (sc_offset s - p) (take (min (scan_end s - p) (sz - p)) w)" for w
    by (simp add: wanted_slice_def)
  ultimately show ?thesis by (simp only: take_append take_0 append_Nil2)
qed

lemma scan_end_update [simp]:
  "scan_end (s\<lparr>sc_collected := c\<rparr>) = scan_end s" "scan_end (s\<lparr>sc_state := st\<rparr>) = scan_end s"
  "wanted_slice (s\<lparr>sc_collected := c\<rparr>) p n w = wanted_slice s p n w"
  "wanted_slice (s\<lparr>sc_state := st\<rparr>) p n w = wanted_slice s p n w"
  by (simp_all add: scan_end_def wanted_slice_def split: option.split)

lemma scan_turn_append:
  assumes turn: "scan_turn tc s xs = (s', rest, r)"
  shows "if r = Ok NeedMore then scan_turn tc s (xs @ ys) = scan_turn tc s' ys
    else \<exists>zs. scan_turn tc s (xs @ ys) = (s', zs, r) \<and> (r = Ok Continue \<longrightarrow> zs = rest @ ys)"
proof (cases "sc_state s")
  case ScanHeader
  show ?thesis
  proof (cases "length (sc_header s) + length xs < tar_block")
    case True
    with turn ScanHeader show ?thesis
      by (auto simp: scan_turn_def feed_header_short feed_header_grow)
  next
    case False
    with turn ScanHeader show ?thesis
      by (auto simp: scan_turn_def feed_header_full dest: header_block_Ok split: prod.splits)
  qed
next
  case (ScanSkip n)
  with turn show ?thesis
    by (auto simp: scan_turn_def feed_skip_append) (auto simp: feed_skip_def Let_def split: if_splits)
next
  case (ScanContent p n)
  show ?thesis
  proof (cases "n - p \<le> length xs \<or> scan_end s - p \<le> length xs")
    case True
    with turn ScanContent show ?thesis
      by (auto simp: scan_turn_def feed_content_slice Let_def wanted_slice_cut split: if_splits)
  next
    case False
    with turn ScanContent show ?thesis
      by (auto simp: scan_turn_def feed_content_slice Let_def wanted_slice_append split: if_splits)
  qed
next
  case ScanDone
  with turn show ?thesis by (auto simp: scan_turn_def)
qed

lemma scan_feed_append:
  "scan_feed tc s (xs @ ys) = (case scan_feed tc s xs of (s', Ok False) \<Rightarrow> scan_feed tc s' ys | r \<Rightarrow> r)"
proof (induction tc s xs rule: scan_feed.induct)
  case (1 tc s xs)
  obtain s' rest r where turn: "scan_turn tc s xs = (s', rest, r)" by (metis prod.exhaust)
  note app = scan_turn_append [OF turn, of ys]
  show ?case
  proof (cases "r = Ok Continue")
    case True
    have "scan_feed tc s xs = scan_feed tc s' rest" "scan_feed tc s (xs @ ys) = scan_feed tc s' (rest @ ys)"
      using app turn True scan_feed.simps [of tc s xs] scan_feed.simps [of tc s "xs @ ys"] by auto
    with 1 [OF turn [symmetric] refl _ refl] True show ?thesis by simp
  next
    case False
    with app turn show ?thesis
      by (cases r) (auto simp: scan_feed.simps [of tc s] scan_feed.simps [of tc s'] split: scan_step.splits)
  qed
qed

text \<open>Once the scanner has answered that it wants nothing more, or has failed, its answer stays.\<close>

definition scan_absorb ::
    "tar_codec \<Rightarrow> (scanner \<times> (error, bool) result) \<Rightarrow> bytes \<Rightarrow> scanner \<times> (error, bool) result" where
  "scan_absorb tc x chunk = (if snd x = Ok False \<and> chunk \<noteq> [] then scan_feed tc (fst x) chunk else x)"

lemma scan_feed_False_Nil:
  "scan_feed tc s xs = (s', Ok False) \<Longrightarrow> scan_feed tc s' [] = (s', Ok False)"
  using scan_feed_append [of tc s xs "[]"] by simp

interpretation tar_sink: chunk_sink "scan_absorb tc"
proof
  fix s xs ys
  show "scan_absorb tc s (xs @ ys) = scan_absorb tc (scan_absorb tc s xs) ys"
    by (cases "scan_feed tc (fst s) xs")
      (auto simp: scan_absorb_def scan_feed_append dest: scan_feed_False_Nil split: sum.splits bool.splits)
qed (simp add: scan_absorb_def)

subsection \<open>What a ranged read returns\<close>

text \<open>An entry the scanner passes over: a header of another kind and its padded data.\<close>

definition skipped_entry :: "tar_codec \<Rightarrow> bytes \<Rightarrow> bool" where
  "skipped_entry tc t \<longleftrightarrow>
     (let block = take tar_block t in
      tar_block \<le> length t \<and> \<not> list_all (\<lambda>b. b = CHR 0x00) block \<and> entry_type tc block = OtherEntry \<and>
      (case entry_size tc block of Err _ \<Rightarrow> False | Ok n \<Rightarrow> padded n = Ok (length t - tar_block)))"

definition file_block :: "tar_codec \<Rightarrow> nat \<Rightarrow> bytes \<Rightarrow> bool" where
  "file_block tc n block \<longleftrightarrow> length block = tar_block \<and> \<not> list_all (\<lambda>b. b = CHR 0x00) block \<and>
     entry_type tc block = Regular \<and> entry_size tc block = Ok n"

lemma scan_feed_skipped:
  assumes "skipped_entry tc t" and "sc_state s = ScanHeader" and "sc_header s = []"
  shows "scan_feed tc s (t @ w) = scan_feed tc s w"
proof -
  let ?block = "take tar_block t" and ?data = "drop tar_block t"
  obtain n where n: "entry_size tc ?block = Ok n" "padded n = Ok (length ?data)"
    using assms(1) by (auto simp: skipped_entry_def Let_def split: sum.splits)
  have block: "\<not> list_all (\<lambda>b. b = CHR 0x00) ?block" "entry_type tc ?block = OtherEntry" "tar_block \<le> length t"
    using assms(1) by (simp_all add: skipped_entry_def Let_def)
  let ?s = "s\<lparr>sc_state := ScanSkip (length ?data)\<rparr>"
  have s: "s\<lparr>sc_header := []\<rparr> = s" "s\<lparr>sc_state := ScanHeader\<rparr> = s" using assms(2,3) by simp_all
  have "scan_turn tc s (t @ w) = (?s, ?data @ w, Ok Continue)"
    using block n by (simp add: scan_turn_def assms s feed_header_full header_block_def)
  moreover have "scan_turn tc ?s (?data @ w) = (s, w, Ok Continue)"
    by (simp add: scan_turn_def feed_skip_def Let_def s)
  ultimately show ?thesis
    using scan_feed.simps [of tc s "t @ w"] scan_feed.simps [of tc ?s "?data @ w"] by simp
qed

lemma scan_feed_skips:
  "list_all (skipped_entry tc) ts \<Longrightarrow> sc_state s = ScanHeader \<Longrightarrow> sc_header s = [] \<Longrightarrow>
   scan_feed tc s (concat ts @ w) = scan_feed tc s w"
  by (induction ts) (simp_all add: scan_feed_skipped)

definition wanted_range :: "nat \<Rightarrow> nat option \<Rightarrow> bytes \<Rightarrow> bytes" where
  "wanted_range offset len content =
     (case len of None \<Rightarrow> drop offset content | Some n \<Rightarrow> take n (drop offset content))"

lemma wanted_slice_range:
  assumes "n \<le> u64_max"
  shows "wanted_slice (scanner_new offset len) 0 n w = wanted_range offset len (take n w)"
proof (cases len)
  case None
  with assms show ?thesis by (simp add: wanted_slice_def wanted_range_def scan_end_def scanner_new_def)
next
  case (Some l)
  have "take (min (offset + l) u64_max) (take n w) = take (offset + l) (take n w)"
    using assms by (simp add: min_def)
  with Some show ?thesis
    by (simp add: wanted_slice_def wanted_range_def scan_end_def scanner_new_def drop_take del: take_take)
qed

lemma scan_feed_file:
  assumes "file_block tc n h" and "n \<le> u64_max"
  shows "scan_feed tc (scanner_new offset len) (h @ data) =
    (let s = (scanner_new offset len)\<lparr>sc_found := True, sc_collected := wanted_range offset len (take n data)\<rparr> in
     if min n (scan_end (scanner_new offset len)) \<le> length data then (s\<lparr>sc_state := ScanDone\<rparr>, Ok True)
     else (s\<lparr>sc_state := ScanContent (length data) n\<rparr>, Ok False))"
proof -
  let ?s = "scanner_new offset len"
  let ?f = "?s\<lparr>sc_found := True, sc_state := ScanContent 0 n\<rparr>"
  have new: "sc_state ?s = ScanHeader" "sc_header ?s = []" "sc_collected ?s = []" "?s\<lparr>sc_header := []\<rparr> = ?s"
    by (simp_all add: scanner_new_def)
  have block: "length h = tar_block" "\<not> list_all (\<lambda>b. b = CHR 0x00) h" "entry_type tc h = Regular" "entry_size tc h = Ok n"
    using assms(1) by (simp_all add: file_block_def)
  have one: "scan_turn tc ?s (h @ data) = (?f, data, Ok Continue)"
    by (simp add: scan_turn_def new feed_header_full block header_block_def)
  have e: "scan_end ?f = scan_end ?s" "wanted_slice ?f p m w = wanted_slice ?s p m w" for p m w
    by (simp_all add: scan_end_def wanted_slice_def split: option.split)
  have iff: "(n \<le> min (length data) n \<or> scan_end ?s \<le> min (length data) n) = (min n (scan_end ?s) \<le> length data)"
    by linarith
  have "scan_turn tc ?f data =
    (let s = ?s\<lparr>sc_found := True, sc_collected := wanted_range offset len (take n data)\<rparr> in
     if min n (scan_end ?s) \<le> length data then (s\<lparr>sc_state := ScanDone\<rparr>, [], Ok Finished)
     else (s\<lparr>sc_state := ScanContent (min (length data) n) n\<rparr>, [], Ok NeedMore))"
    unfolding Let_def iff [symmetric]
    by (simp only: scan_turn_def feed_content_slice e wanted_slice_range [OF assms(2)] Let_def scan_state.case
        add_0 diff_zero scanner.select_convs scanner.update_convs if_distrib [of "case_prod _"] prod.case)
      (auto simp: new wanted_slice_range [OF assms(2)])
  then show ?thesis
    using one scan_feed.simps [of tc ?s "h @ data"] scan_feed.simps [of tc ?f data]
    by (auto simp: Let_def min_def)
qed

text \<open>
  C28. A ranged read through the archive API is exact or refused: whatever extension entries come
  first and however the stream is cut, once the archive holds the wanted part of the file, the
  bytes collected are exactly the requested range of the file's content, and until then finishing
  reports the archive as incomplete rather than returning fewer bytes.
\<close>

theorem tar_range_read:
  assumes "list_all (skipped_entry tc) ts" and "file_block tc n h" and "n \<le> u64_max"
    and "concat chunks = concat ts @ h @ data"
  shows "\<exists>s r. absorb_all (scan_absorb tc) (scanner_new offset len, Ok False) chunks = (s, Ok r) \<and>
    (if min n (scan_end (scanner_new offset len)) \<le> length data
     then r \<and> scan_finish s = Ok ArchivedFile \<and> sc_collected s = wanted_range offset len (take n data)
     else \<not> r \<and> scan_finish s = Err (io_failure ''reading download archive'' ''UnexpectedEof''
            ''archive ended before the requested file data was complete''))"
proof -
  have "h \<noteq> []" using assms(2) by (auto simp: file_block_def)
  then have "absorb_all (scan_absorb tc) (scanner_new offset len, Ok False) chunks =
      scan_feed tc (scanner_new offset len) (h @ data)"
    using scan_feed_skips [OF assms(1), of "scanner_new offset len" "h @ data"]
    by (simp add: tar_sink.absorb_all_concat assms(4) scan_absorb_def) (simp add: scanner_new_def)
  then show ?thesis
    using scan_feed_file [OF assms(2,3), of offset len data] by (auto simp: Let_def scan_finish_def)
qed

text \<open>The smallest codec: the first byte gives the kind, the second the size.\<close>

definition toy_codec :: tar_codec where
  "toy_codec = \<lparr>entry_size = \<lambda>b. Ok (byte_val (b ! 1)),
     entry_type = \<lambda>b. if hd b = CHR ''f'' then Regular else OtherEntry\<rparr>"

abbreviation toy_block :: "byte \<Rightarrow> nat \<Rightarrow> bytes" where
  "toy_block kind n \<equiv> [kind, byte_of n] @ replicate 510 (CHR 0x00)"

lemma toy_file_block: "n < 256 \<Longrightarrow> file_block toy_codec n (toy_block (CHR ''f'') n)"
  by (simp add: file_block_def toy_codec_def)

theorem tar_range_read_witness:
  "\<exists>s r. absorb_all (scan_absorb toy_codec) (scanner_new 1 (Some 2), Ok False) [toy_block (CHR ''f'') 5, ''hel'', ''lo''] = (s, Ok r) \<and>
    scan_finish s = Ok ArchivedFile \<and> sc_collected s = ''el''"
  using tar_range_read [of toy_codec "[]" 5 "toy_block (CHR ''f'') 5"
      "[toy_block (CHR ''f'') 5, ''hel'', ''lo'']" "''hello''" 1 "Some 2"] toy_file_block [of 5]
  by (auto simp: wanted_range_def scan_end_def scanner_new_def u64_max_def)

subsection \<open>What an upload sends\<close>

text \<open>
  The contract of an asynchronous reader: it returns at most what was asked for, takes it from
  the front of what it has left, and reports the end only when nothing is left.
\<close>

definition reads_from :: "'s byte_source \<Rightarrow> ('s \<Rightarrow> bytes) \<Rightarrow> bool" where
  "reads_from read left \<longleftrightarrow>
     (\<forall>src n. \<exists>bs src'. read src n = (Ok bs, src') \<and> length bs \<le> n \<and> left src = bs @ left src' \<and>
        (bs = [] \<longrightarrow> n = 0 \<or> left src = []))"

lemma send_body_sends:
  assumes reads: "reads_from read left"
  shows "remaining \<le> length (left src) \<Longrightarrow> length sent + remaining < takes \<Longrightarrow>
    \<exists>cs. send_body read takes src remaining sent = (sent @ cs, Ok ()) \<and>
      concat cs = take remaining (left src) \<and> (\<forall>c\<in>set cs. length c \<le> transfer_chunk_bytes) \<and>
      length cs \<le> remaining"
proof (induction remaining arbitrary: src sent rule: less_induct)
  case (less remaining)
  show ?case
  proof (cases "remaining = 0")
    case True
    then show ?thesis by (simp add: send_body.simps)
  next
    case False
    let ?want = "min remaining transfer_chunk_bytes"
    obtain bs src' where bs: "read src ?want = (Ok bs, src')" "length bs \<le> ?want" "left src = bs @ left src'"
      "bs = [] \<longrightarrow> ?want = 0 \<or> left src = []"
      using reads unfolding reads_from_def by blast
    have "left src \<noteq> []" using less.prems(1) False by auto
    with bs(4) False have ne: "bs \<noteq> []" by (auto simp: transfer_chunk_bytes_def)
    have step: "send_body read takes src remaining sent = send_body read takes src' (remaining - length bs) (sent @ [bs])"
      using bs(1) ne False less.prems(2) by (simp add: send_body.simps [of read takes src] send_chunk_def)
    have "length bs \<le> remaining" "length bs \<le> transfer_chunk_bytes" "0 < length bs" using bs(2) ne by auto
    moreover from this have "length (sent @ [bs]) + (remaining - length bs) < takes"
      "remaining - length bs \<le> length (left src')" "remaining - length bs < remaining"
      using less.prems bs(3) by (cases bs; auto)+
    moreover from this obtain cs where "send_body read takes src' (remaining - length bs) (sent @ [bs]) = ((sent @ [bs]) @ cs, Ok ())"
      "concat cs = take (remaining - length bs) (left src')" "\<forall>c\<in>set cs. length c \<le> transfer_chunk_bytes"
      "length cs \<le> remaining - length bs"
      using less.IH [of "remaining - length bs" src' "sent @ [bs]"] by blast
    ultimately show ?thesis
      by (intro exI [of _ "bs # cs"]) (auto simp: step bs(3))
  qed
qed

lemma send_file_archive_sends:
  assumes "reads_from read left" and "len \<le> length (left src)" and "len + 2 < takes"
  shows "\<exists>cs. send_file_archive read takes prefix src len =
      (prefix # cs @ [replicate (padding_for len + 2 * tar_block) (CHR 0x00)], Ok ()) \<and>
    concat cs = take len (left src) \<and> (\<forall>c\<in>set cs. length c \<le> transfer_chunk_bytes)"
proof -
  obtain cs where "send_body read takes src len [prefix] = ([prefix] @ cs, Ok ())"
    "concat cs = take len (left src)" "\<forall>c\<in>set cs. length c \<le> transfer_chunk_bytes" "length cs \<le> len"
    using send_body_sends [OF assms(1,2), of "[prefix]" takes] assms(3) by auto
  then show ?thesis
    using assms(3) by (intro exI [of _ cs]) (simp add: send_file_archive_def send_chunk_def)
qed


text \<open>A source that hands over what it holds.\<close>

definition slice_source :: "bytes byte_source" where
  "slice_source src n = (Ok (take n src), drop n src)"

lemma slice_source_reads: "reads_from slice_source (\<lambda>w. w)"
  by (auto simp: reads_from_def slice_source_def)


end
