(* ===== verification/Shell.thy ===== *)
theory Shell
  imports Rust_Std
begin

section \<open>Quoting for a shell (derived/mod.rs)\<close>

text \<open>
  \<open>shell_quote\<close> of the source, and the rules of a POSIX shell it has to fit: words are
  separated by blanks, single quotes preserve everything up to the next one, a backslash
  preserves the next character (POSIX.1, Shell Command Language, 2.2). The reader accepts
  only text in which every other character is plain, so text it reads is one simple command
  with exactly the words it returns, and nothing in it expands.
\<close>

definition sq :: byte where "sq = CHR 0x27"
definition backslash :: byte where "backslash = CHR 0x5C"

definition quote_char :: "byte \<Rightarrow> string" where
  "quote_char c = (if c = sq then [sq, backslash, sq, sq] else [c])"

definition shell_quote :: "string \<Rightarrow> string" where
  "shell_quote s = [sq] @ concat (map quote_char s) @ [sq]"

subsection \<open>The shell's reading of words\<close>

datatype lex = Blank | InWord string | Quoted string | Escaped string

definition plain :: "byte \<Rightarrow> bool" where
  "plain c \<longleftrightarrow> is_ascii_alphanumeric c \<or> c \<in> set ''-._/=''"

fun lex_step :: "lex \<Rightarrow> byte \<Rightarrow> (lex \<times> string list) option" where
  "lex_step Blank c =
     (if c = CHR '' '' then Some (Blank, [])
      else if c = sq then Some (Quoted [], [])
      else if c = backslash then Some (Escaped [], [])
      else if plain c then Some (InWord [c], []) else None)"
| "lex_step (InWord w) c =
     (if c = CHR '' '' then Some (Blank, [w])
      else if c = sq then Some (Quoted w, [])
      else if c = backslash then Some (Escaped w, [])
      else if plain c then Some (InWord (w @ [c]), []) else None)"
| "lex_step (Quoted w) c = (if c = sq then Some (InWord w, []) else Some (Quoted (w @ [c]), []))"
| "lex_step (Escaped w) c = (if c = CHR 0x0A then None else Some (InWord (w @ [c]), []))"

fun lex_run :: "lex \<Rightarrow> string \<Rightarrow> (lex \<times> string list) option" where
  "lex_run st [] = Some (st, [])"
| "lex_run st (c # cs) =
     (case lex_step st c of
        None \<Rightarrow> None
      | Some (st', ws) \<Rightarrow> map_option (\<lambda>(st'', ws'). (st'', ws @ ws')) (lex_run st' cs))"

fun lex_end :: "lex \<Rightarrow> string list option" where
  "lex_end Blank = Some []"
| "lex_end (InWord w) = Some [w]"
| "lex_end _ = None"

definition shell_words :: "string \<Rightarrow> string list option" where
  "shell_words s =
     (case lex_run Blank s of
        None \<Rightarrow> None
      | Some (st, ws) \<Rightarrow> map_option ((@) ws) (lex_end st))"

lemma lex_run_append:
  "lex_run st (a @ b) =
     (case lex_run st a of
        None \<Rightarrow> None
      | Some (st', ws) \<Rightarrow> map_option (\<lambda>(st'', ws'). (st'', ws @ ws')) (lex_run st' b))"
  by (induction a arbitrary: st) (auto split: option.splits simp: option.map_comp comp_def case_prod_unfold
      option.map_ident)

lemma sq_facts [simp]: "sq \<noteq> CHR '' ''" "CHR '' '' \<noteq> sq" "sq \<noteq> CHR 0x0A" "backslash \<noteq> sq" "sq \<noteq> backslash"
  "backslash \<noteq> CHR '' ''" "CHR '' '' \<noteq> backslash"
  by (simp_all add: sq_def backslash_def)

lemma lex_run_quoted:
  "lex_run (Quoted w) (concat (map quote_char s)) = Some (Quoted (w @ s), [])"
  by (induction s arbitrary: w) (auto simp: quote_char_def)

lemma lex_run_shell_quote:
  "lex_run Blank (shell_quote s) = Some (InWord s, [])"
  "lex_run (InWord w) (shell_quote s) = Some (InWord (w @ s), [])"
  by (simp_all add: shell_quote_def lex_run_append lex_run_quoted)

text \<open>A quoted value after a complete word is one more word.\<close>

definition at_word :: "string \<Rightarrow> string list \<Rightarrow> bool" where
  "at_word s ws \<longleftrightarrow> (\<exists>w vs. ws = vs @ [w] \<and> lex_run Blank s = Some (InWord w, vs))"

lemma at_word_words: "at_word s ws \<Longrightarrow> shell_words s = Some ws"
  by (auto simp: at_word_def shell_words_def)

lemma at_word_quote: "at_word (shell_quote v) [v]"
  by (simp add: at_word_def lex_run_shell_quote)

lemma at_word_snoc: "at_word s ws \<Longrightarrow> at_word (s @ CHR '' '' # shell_quote v) (ws @ [v])"
  by (auto simp: at_word_def lex_run_append lex_run_shell_quote)

lemma shell_quote_word: "shell_words (shell_quote v) = Some [v]"
  by (rule at_word_words [OF at_word_quote])

end
