(* ===== verification/Git_Options.thy ===== *)
theory Git_Options
  imports Errors Git_Retry Shell
begin

section \<open>Options of the git verbs and their validation (git.rs)\<close>

text \<open>
  Everything a caller can pass to a git verb, with the checks the verbs run first. What the
  checks are for is stated as \<open>flag_shaped\<close>: a word that git would read as an option.
\<close>

definition flag_shaped :: "string \<Rightarrow> bool" where
  "flag_shaped w \<longleftrightarrow> starts_with ''-'' w"

subsection \<open>Names\<close>

definition ends_with :: "string \<Rightarrow> string \<Rightarrow> bool" where
  "ends_with q s \<longleftrightarrow> strip_suffix q s \<noteq> None"

definition is_ascii_control :: "byte \<Rightarrow> bool" where
  "is_ascii_control b \<longleftrightarrow> byte_val b \<le> 31 \<or> byte_val b = 127"

definition flag_reason :: string where
  "flag_reason = ''must not be empty or begin with '' @ [sq] @ ''-'' @ [sq]"

definition bad_component :: "string \<Rightarrow> bool" where
  "bad_component c \<longleftrightarrow> c = [] \<or> c = ''.'' \<or> c = ''..'' \<or> strip_suffix ''.lock'' c \<noteq> None"

definition validate_ref_name :: "string \<Rightarrow> string \<Rightarrow> (error, unit) result" where
  "validate_ref_name field name =
     (if name = [] \<or> starts_with ''-'' name
      then Err (InvalidSpec field flag_reason)
      else if list_ex bad_component (split_on (CHR ''/'') name) \<or> ends_with ''.'' name \<or>
              contains ''..'' name \<or> contains [CHR 0x40, CHR 0x7B] name \<or>
              list_ex (\<lambda>c. is_ascii_control c \<or> c \<in> set (backslash # '' ~^:?*['')) name
      then Err (InvalidSpec field ''is not a valid git reference name'')
      else Ok ())"

definition validate_branch_name :: "string \<Rightarrow> (error, unit) result" where
  "validate_branch_name branch = validate_ref_name ''branch'' branch"

definition validate_side :: "string \<Rightarrow> (error, unit) result" where
  "validate_side side = (if side \<noteq> ''HEAD'' then validate_ref_name ''refspec'' side else Ok ())"

definition validate_refspec :: "string \<Rightarrow> (error, unit) result" where
  "validate_refspec refspec =
     (let body = (case strip_prefix ''+'' refspec of None \<Rightarrow> refspec | Some b \<Rightarrow> b);
          (source, destination) =
            (case split_once (CHR '':'') body of Some (s, d) \<Rightarrow> (s, Some d) | None \<Rightarrow> (body, None)) in
      if source = [] then Err (InvalidSpec ''refspec'' ''must name a source; a deletion is not a push'')
      else bind_result (validate_side source) (\<lambda>_.
        case destination of None \<Rightarrow> Ok () | Some d \<Rightarrow> validate_side d))"

definition validate_argument :: "string \<Rightarrow> string \<Rightarrow> (error, unit) result" where
  "validate_argument field v =
     (if v = [] \<or> starts_with ''-'' v
      then Err (InvalidSpec field flag_reason)
      else if list_ex char_is_control (chars v)
      then Err (InvalidSpec field ''must not contain control characters'')
      else Ok ())"

definition validate_object_name :: "string \<Rightarrow> string \<Rightarrow> (error, unit) result" where
  "validate_object_name field v =
     (if \<not> (length v = 40 \<or> length v = 64) \<or> \<not> list_all is_ascii_hexdigit v
      then Err (InvalidSpec field ''must be a full hex object name'') else Ok ())"

definition validate_config_key :: "string \<Rightarrow> (error, unit) result" where
  "validate_config_key key =
     (if CHR ''.'' \<in> set key \<and> \<not> (starts_with ''.'' key \<or> starts_with ''-'' key) \<and> \<not> ends_with ''.'' key \<and>
         list_all (\<lambda>c. is_ascii_alphanumeric c \<or> c \<in> set ''.-_'') key
      then Ok () else Err (InvalidSpec ''key'' ''is not a git configuration key''))"

subsection \<open>Options\<close>

record git_clone_options =
  co_branch :: "string option"
  co_commit :: "string option"
  co_tag :: "string option"
  co_depth :: "nat option"
  co_credentials :: "git_credentials option"

definition check_opt :: "'a option \<Rightarrow> ('a \<Rightarrow> (error, unit) result) \<Rightarrow> (error, unit) result" where
  "check_opt x f = (case x of None \<Rightarrow> Ok () | Some v \<Rightarrow> f v)"

definition validate_clone :: "git_clone_options \<Rightarrow> (error, unit) result" where
  "validate_clone o' =
     bind_result (check_opt (co_commit o') (\<lambda>commit.
        if length commit \<noteq> 40 \<or> \<not> list_all is_ascii_hexdigit commit
        then Err (InvalidSpec ''commit'' ''must be a full 40-character hex commit SHA'') else Ok ())) (\<lambda>_.
     bind_result (check_opt (co_tag o') (\<lambda>tag.
        bind_result (validate_ref_name ''tag'' tag) (\<lambda>_.
        if co_commit o' \<noteq> None
        then Err (InvalidSpec ''tag'' ''cannot be combined with commit; a clone has one pin'') else Ok ()))) (\<lambda>_.
     check_opt (co_branch o') validate_branch_name))"

record git_commit_options =
  ci_message :: string
  ci_author_name :: string
  ci_author_email :: string
  ci_allow_empty :: bool

record git_push_options =
  pu_remote :: "string option"
  pu_branch :: "string option"
  pu_set_upstream :: bool
  pu_refspec :: "string option"
  pu_credentials :: "git_credentials option"
  pu_timeout :: "duration option"

definition validate_push :: "git_push_options \<Rightarrow> (error, unit) result" where
  "validate_push o' =
     bind_result (check_opt (pu_branch o') validate_branch_name) (\<lambda>_.
     bind_result (check_opt (pu_refspec o') (\<lambda>refspec.
        if pu_branch o' \<noteq> None then Err (InvalidSpec ''refspec'' ''cannot be combined with branch'')
        else validate_refspec refspec)) (\<lambda>_.
     if pu_set_upstream o' \<and> pu_branch o' = None
     then Err (InvalidSpec ''set_upstream'' ''requires a branch'') else Ok ()))"

record git_checkout_options =
  ck_branch :: string
  ck_create :: bool
  ck_reset :: bool
  ck_start_point :: "string option"

definition validate_checkout :: "git_checkout_options \<Rightarrow> (error, unit) result" where
  "validate_checkout o' =
     bind_result (validate_branch_name (ck_branch o')) (\<lambda>_.
     if ck_reset o' \<and> \<not> ck_create o' then Err (InvalidSpec ''reset'' ''requires create'')
     else check_opt (ck_start_point o') (\<lambda>p.
       if \<not> ck_create o' then Err (InvalidSpec ''start_point'' ''requires create'')
       else validate_ref_name ''start_point'' p))"

record git_fetch_options =
  fe_remote :: "string option"
  fe_refspecs :: "string list"
  fe_depth :: "nat option"
  fe_credentials :: "git_credentials option"
  fe_timeout :: "duration option"

fun check_list :: "'a list \<Rightarrow> ('a \<Rightarrow> (error, unit) result) \<Rightarrow> (error, unit) result" where
  "check_list [] f = Ok ()"
| "check_list (x # xs) f = bind_result (f x) (\<lambda>_. check_list xs f)"

definition validate_fetch :: "git_fetch_options \<Rightarrow> (error, unit) result" where
  "validate_fetch o' =
     bind_result (check_opt (fe_remote o') (validate_argument ''remote'')) (\<lambda>_.
     check_list (fe_refspecs o') (\<lambda>r. validate_argument ''refspecs'' (trim_start_matches (CHR ''+'') r)))"

record git_revision_range =
  rr_base :: string
  rr_head :: "string option"

definition validate_range :: "git_revision_range \<Rightarrow> (error, unit) result" where
  "validate_range r =
     bind_result (validate_argument ''base'' (rr_base r)) (\<lambda>_.
     check_opt (rr_head r) (validate_argument ''head''))"

definition range_spec :: "git_revision_range \<Rightarrow> string option \<Rightarrow> string" where
  "range_spec r default_head =
     (case (case rr_head r of Some h \<Rightarrow> Some h | None \<Rightarrow> default_head) of
        Some h \<Rightarrow> rr_base r @ ''..'' @ h
      | None \<Rightarrow> rr_base r)"

record git_diff_options =
  di_range :: git_revision_range
  di_find_renames :: "nat option"
  di_timeout :: "duration option"

definition validate_diff :: "git_diff_options \<Rightarrow> (error, unit) result" where
  "validate_diff o' =
     bind_result (validate_range (di_range o')) (\<lambda>_.
     if (case di_find_renames o' of None \<Rightarrow> False | Some p \<Rightarrow> 100 < p)
     then Err (InvalidSpec ''find_renames'' ''is a percentage'') else Ok ())"

record git_log_options =
  lo_range :: git_revision_range
  lo_first_parent :: bool
  lo_reverse :: bool
  lo_max_count :: "nat option"
  lo_timeout :: "duration option"

definition validate_log :: "git_log_options \<Rightarrow> (error, unit) result" where
  "validate_log o' = validate_range (lo_range o')"

record git_branches =
  gb_current :: "string option"
  gb_branches :: "string list"

subsection \<open>What passes is never an option\<close>

lemma check_opt_Ok: "check_opt x f = Ok () \<longleftrightarrow> (\<forall>v. x = Some v \<longrightarrow> f v = Ok ())"
  by (auto simp: check_opt_def split: option.splits)

lemma check_list_Ok: "check_list xs f = Ok () \<longleftrightarrow> (\<forall>x\<in>set xs. f x = Ok ())"
  by (induction xs) (auto simp: bind_result_Ok_iff)

lemma validate_ref_name_plain: "validate_ref_name field name = Ok () \<Longrightarrow> name \<noteq> [] \<and> \<not> flag_shaped name"
  by (auto simp: validate_ref_name_def flag_shaped_def split: if_splits)

lemma validate_argument_plain: "validate_argument field v = Ok () \<Longrightarrow> v \<noteq> [] \<and> \<not> flag_shaped v"
  by (auto simp: validate_argument_def flag_shaped_def split: if_splits)

lemma flag_shaped_append: "w \<noteq> [] \<Longrightarrow> flag_shaped (w @ v) = flag_shaped w"
  by (cases w) (auto simp: flag_shaped_def starts_with_iff)

lemma flag_shaped_Cons [simp]: "flag_shaped (c # v) \<longleftrightarrow> c = CHR ''-''"
  by (auto simp: flag_shaped_def starts_with_iff)

lemma flag_shaped_Nil [simp]: "\<not> flag_shaped []"
  by (auto simp: flag_shaped_def starts_with_iff)

lemma validate_side_plain: "validate_side side = Ok () \<Longrightarrow> side \<noteq> [] \<and> \<not> flag_shaped side"
  using validate_ref_name_plain [of "''refspec''" side] by (auto simp: validate_side_def split: if_splits)

lemma validate_refspec_plain:
  assumes "validate_refspec r = Ok ()" shows "r \<noteq> [] \<and> \<not> flag_shaped r"
proof (cases "strip_prefix ''+'' r")
  case (Some b)
  then have "r = CHR ''+'' # b" by (simp add: strip_prefix_Some)
  then show ?thesis by simp
next
  case None
  show ?thesis
  proof (cases "split_once (CHR '':'') r")
    case None': None
    with None assms validate_side_plain [of r] show ?thesis
      by (auto simp: validate_refspec_def bind_result_Ok_iff split: if_splits)
  next
    case (Some p)
    obtain s d where p: "p = (s, d)" by (cases p)
    with Some have r: "r = s @ CHR '':'' # d" by (simp add: split_once_Some)
    from None Some p assms validate_side_plain [of s] have "s \<noteq> []" "\<not> flag_shaped s"
      by (auto simp: validate_refspec_def bind_result_Ok_iff split: if_splits)
    with r show ?thesis by (simp add: flag_shaped_append)
  qed
qed

lemma trim_plus_plain: "\<not> flag_shaped (trim_start_matches (CHR ''+'') r) \<Longrightarrow> \<not> flag_shaped r"
  by (cases r) (auto simp: trim_start_matches_def)

end
