(* ===== verification/Git_Command.thy ===== *)
theory Git_Command
  imports Git_Options Exec_Types Git_Parse
begin

section \<open>The hardened git invocation (derived/git/command.rs)\<close>

text \<open>
  A git invocation is built from its parts and rendered as one shell command; the first
  theorem is what makes the rendering safe.
\<close>

definition git_timeout :: duration where "git_timeout = from_secs 60"
definition clone_timeout :: duration where "clone_timeout = from_secs 600"
definition network_timeout :: duration where "network_timeout = from_secs 300"

definition git_prefix :: string where
  "git_prefix = ''git -c maintenance.auto=0 -c gc.auto=0 -c core.hooksPath=/dev/null '' @
     ''-c core.fsmonitor=false -c core.quotePath=false -c commit.gpgsign=false -c tag.gpgsign=false''"

definition git_read_prefix :: string where
  "git_read_prefix = ''git -c maintenance.auto=0 -c gc.auto=0 -c core.hooksPath=/dev/null '' @
     ''-c core.fsmonitor=false -c core.quotePath=false -c commit.gpgsign=false -c tag.gpgsign=false '' @
     ''-c protocol.file.allow=never''"

definition git_env :: "(string \<times> string) list" where
  "git_env = [(''GIT_TERMINAL_PROMPT'', ''0'')]"

record git_command =
  gc_label :: string
  gc_timeout :: duration
  gc_read_only :: bool
  gc_configs :: "string list"
  gc_verb :: string
  gc_args :: "string list"

definition command_new :: "string \<Rightarrow> string \<Rightarrow> git_command" where
  "command_new label verb =
     \<lparr>gc_label = label, gc_timeout = git_timeout, gc_read_only = False, gc_configs = [], gc_verb = verb,
      gc_args = []\<rparr>"

definition read_only :: "git_command \<Rightarrow> git_command" where
  "read_only c = c\<lparr>gc_read_only := True\<rparr>"

definition with_config :: "string \<Rightarrow> git_command \<Rightarrow> git_command" where
  "with_config v c = c\<lparr>gc_configs := gc_configs c @ [v]\<rparr>"

definition with_configs :: "string list \<Rightarrow> git_command \<Rightarrow> git_command" where
  "with_configs vs c = c\<lparr>gc_configs := gc_configs c @ vs\<rparr>"

definition with_arg :: "string \<Rightarrow> git_command \<Rightarrow> git_command" where
  "with_arg v c = c\<lparr>gc_args := gc_args c @ [v]\<rparr>"

definition with_args :: "string list \<Rightarrow> git_command \<Rightarrow> git_command" where
  "with_args vs c = c\<lparr>gc_args := gc_args c @ vs\<rparr>"

definition flag_if :: "bool \<Rightarrow> string \<Rightarrow> git_command \<Rightarrow> git_command" where
  "flag_if condition flag c = (if condition then with_arg flag c else c)"

definition with_option :: "string \<Rightarrow> string option \<Rightarrow> git_command \<Rightarrow> git_command" where
  "with_option flag v c = (case v of Some x \<Rightarrow> with_arg x (with_arg flag c) | None \<Rightarrow> c)"

definition with_timeout :: "duration \<Rightarrow> git_command \<Rightarrow> git_command" where
  "with_timeout d c = c\<lparr>gc_timeout := d\<rparr>"

definition opt_list :: "'a option \<Rightarrow> 'a list" where
  "opt_list x = (case x of None \<Rightarrow> [] | Some v \<Rightarrow> [v])"

definition push_quoted :: "string \<Rightarrow> string \<Rightarrow> string" where
  "push_quoted command word = command @ CHR '' '' # shell_quote word"

definition script :: "git_command \<Rightarrow> string" where
  "script c =
     (let command = (if gc_read_only c then git_read_prefix else git_prefix);
          command = fold (\<lambda>config cmd. push_quoted (push_quoted cmd ''-c'') config) (gc_configs c) command;
          command = push_quoted command (gc_verb c)
      in fold (\<lambda>arg cmd. push_quoted cmd arg) (gc_args c) command)"

definition git_spec :: "string \<Rightarrow> string option \<Rightarrow> (string \<times> string) option \<Rightarrow> duration \<Rightarrow> exec_spec" where
  "git_spec text repo secret limit =
     (let spec = (spec_bash text)\<lparr>timeout := Some limit\<rparr>;
          spec = fold (\<lambda>(k, v) s. env_var s k v) git_env spec;
          spec = (case repo of Some r \<Rightarrow> spec\<lparr>working_dir := Some r\<rparr> | None \<Rightarrow> spec)
      in case secret of Some (k, v) \<Rightarrow> env_var spec k v | None \<Rightarrow> spec)"

definition git_failure_of :: "string \<Rightarrow> exec_result \<Rightarrow> error" where
  "git_failure_of label r =
     Git (from_command label (with_duration
       (exec_failure_new label (result_termination r) (exit_code r) (res_stdout r) (res_stderr r))
       (res_duration r)))"

definition feed_object_names :: "string list \<Rightarrow> string" where
  "feed_object_names names =
     fold (\<lambda>name cmd. cmd @ CHR '' '' # shell_quote name) names
       (''printf '' @ [sq] @ ''%s'' @ [backslash] @ ''n'' @ [sq])"

subsection \<open>What the shell makes of it\<close>

definition prefix_words :: "git_command \<Rightarrow> string list" where
  "prefix_words c =
     [''git'', ''-c'', ''maintenance.auto=0'', ''-c'', ''gc.auto=0'', ''-c'', ''core.hooksPath=/dev/null'',
      ''-c'', ''core.fsmonitor=false'', ''-c'', ''core.quotePath=false'', ''-c'', ''commit.gpgsign=false'',
      ''-c'', ''tag.gpgsign=false''] @
     (if gc_read_only c then [''-c'', ''protocol.file.allow=never''] else [])"

definition command_words :: "git_command \<Rightarrow> string list" where
  "command_words c =
     prefix_words c @ concat (map (\<lambda>v. [''-c'', v]) (gc_configs c)) @ [gc_verb c] @ gc_args c"

lemma at_word_push: "at_word s ws \<Longrightarrow> at_word (push_quoted s v) (ws @ [v])"
  by (simp add: push_quoted_def at_word_snoc)

lemma at_word_args: "at_word s ws \<Longrightarrow> at_word (fold (\<lambda>v cmd. push_quoted cmd v) vs s) (ws @ vs)"
proof (induction vs arbitrary: s ws)
  case (Cons v vs)
  from Cons.IH [OF at_word_push [OF Cons.prems, of v]] show ?case by simp
qed simp

lemma at_word_configs:
  "at_word s ws \<Longrightarrow>
   at_word (fold (\<lambda>v cmd. push_quoted (push_quoted cmd ''-c'') v) vs s) (ws @ concat (map (\<lambda>v. [''-c'', v]) vs))"
proof (induction vs arbitrary: s ws)
  case (Cons v vs)
  have "at_word (push_quoted (push_quoted s ''-c'') v) (ws @ [''-c'', v])"
    using at_word_push [OF at_word_push [OF Cons.prems, of "''-c''"], of v] by simp
  from Cons.IH [OF this] show ?case by simp
qed simp

lemma at_word_prefix: "at_word (if gc_read_only c then git_read_prefix else git_prefix) (prefix_words c)"
  unfolding at_word_def prefix_words_def git_prefix_def git_read_prefix_def
  by (cases "gc_read_only c")
    (simp_all add: plain_def ascii_defs sq_def backslash_def)

lemma script_words_eq: "shell_words (script c) = Some (command_words c)"
proof -
  have "at_word (script c) (command_words c)"
    unfolding script_def command_words_def Let_def
    using at_word_args [OF at_word_push [OF at_word_configs [OF at_word_prefix [of c]]]] by simp
  then show ?thesis by (rule at_word_words)
qed

text \<open>
  C34. No injection: whatever the configuration values and arguments of a git invocation are,
  quotes, newlines, substitutions and separators included, the script the shell is given is a
  single command, whose words are the hardened prefix, a \<open>-c\<close> before every configuration
  value, the verb and the arguments, each exactly as given.
\<close>

theorem script_words: "shell_words (script c) = Some (command_words c)"
  by (rule script_words_eq)

end
