(* ===== verification/Git_Credentials.thy ===== *)
theory Git_Credentials
  imports Git_Command
begin

section \<open>Credentials for git (derived/git/credentials.rs)\<close>

text \<open>
  Taking an http(s) URL apart, putting credentials into it, the name of a repository's
  credential store and the scripts that install it. \<open>decode_userinfo\<close> is the percent decoding
  of a URL (RFC 3986, 2.1), the inverse the encoding has to fit.
\<close>

subsection \<open>URLs\<close>

primrec split_once_str :: "string \<Rightarrow> string \<Rightarrow> (string \<times> string) option" where
  "split_once_str pat [] = (if pat = [] then Some ([], []) else None)"
| "split_once_str pat (x # xs) =
     (case strip_prefix pat (x # xs) of
        Some rest \<Rightarrow> Some ([], rest)
      | None \<Rightarrow> map_option (\<lambda>(a, b). (x # a, b)) (split_once_str pat xs))"

record http_url =
  hu_scheme :: string
  hu_host :: string
  hu_rest :: string

definition ends_authority :: "byte \<Rightarrow> bool" where
  "ends_authority c \<longleftrightarrow> c \<in> set ''/?#''"

definition after_last :: "byte \<Rightarrow> string \<Rightarrow> string" where
  "after_last c s = rev (takeWhile (\<lambda>x. x \<noteq> c) (rev s))"

definition http_url_parse :: "string \<Rightarrow> http_url option" where
  "http_url_parse url =
     (case split_once_str ''://'' url of
        None \<Rightarrow> None
      | Some (scheme, after_scheme) \<Rightarrow>
          if scheme \<noteq> ''http'' \<and> scheme \<noteq> ''https'' then None
          else
            (let authority = takeWhile (\<lambda>c. \<not> ends_authority c) after_scheme;
                 rest = dropWhile (\<lambda>c. \<not> ends_authority c) after_scheme
             in Some \<lparr>hu_scheme = scheme, hu_host = after_last (CHR ''@'') authority, hu_rest = rest\<rparr>))"

definition upper_hex :: "nat \<Rightarrow> byte" where
  "upper_hex n = byte_of (if n < 10 then 48 + n else 55 + n)"

definition unreserved :: "byte \<Rightarrow> bool" where
  "unreserved b \<longleftrightarrow> is_ascii_alphanumeric b \<or> b \<in> set ''-._~''"

definition encode_byte :: "byte \<Rightarrow> string" where
  "encode_byte b =
     (if unreserved b then [b]
      else [CHR ''%'', upper_hex (byte_val b div 16), upper_hex (byte_val b mod 16)])"

definition encode_userinfo :: "string \<Rightarrow> string" where
  "encode_userinfo v = concat (map encode_byte v)"

definition origin_with :: "http_url \<Rightarrow> git_credentials \<Rightarrow> string" where
  "origin_with u c =
     hu_scheme u @ ''://'' @ encode_userinfo (username c) @ '':'' @ encode_userinfo (password c) @
     ''@'' @ hu_host u"

definition authed_url :: "string \<Rightarrow> git_credentials \<Rightarrow> string option" where
  "authed_url url c = map_option (\<lambda>u. origin_with u c @ hu_rest u) (http_url_parse url)"

definition store_entry :: "string \<Rightarrow> git_credentials \<Rightarrow> string option" where
  "store_entry url c = map_option (\<lambda>u. origin_with u c) (http_url_parse url)"

subsection \<open>The credential store\<close>

definition store_helper :: "string \<Rightarrow> string" where
  "store_helper path = ''store --file='' @ shell_quote path"

definition fnv1a :: "string \<Rightarrow> 64 word" where
  "fnv1a path =
     fold (\<lambda>b h. (xor h (of_nat (byte_val b))) * 0x100000001b3) path 0xcbf29ce484222325"

definition lower_hex :: "nat \<Rightarrow> byte" where
  "lower_hex n = byte_of (if n < 10 then 48 + n else 87 + n)"

definition hex16 :: "64 word \<Rightarrow> string" where
  "hex16 h = map (\<lambda>i. lower_hex (unat h div 16 ^ (15 - i) mod 16)) [0..<16]"

definition safe_char :: "bytes \<Rightarrow> byte" where
  "safe_char u =
     (case u of
        [b] \<Rightarrow> if is_ascii_alphanumeric b \<or> b \<in> set ''-._'' then b else CHR ''_''
      | _ \<Rightarrow> CHR ''_'')"

definition store_file_name :: "string \<Rightarrow> string" where
  "store_file_name repo =
     (let stem = after_last (CHR ''/'') (trim_end_matches (CHR ''/'') repo);
          stem = (if stem = [] then ''repo'' else stem)
      in map safe_char (take 40 (chars stem)) @ ''-'' @ hex16 (fnv1a repo))"

subsection \<open>Parsing back\<close>

lemma split_once_str_first:
  assumes "\<forall>a b. s \<noteq> a @ pat @ b" "pat \<noteq> []"
  shows "split_once_str pat s = None"
  using assms(1)
proof (induction s)
  case (Cons x s)
  have "strip_prefix pat (x # s) = None"
    using Cons.prems strip_prefix_Some [of pat "x # s"] by (metis append_Nil not_None_eq)
  moreover have "split_once_str pat s = None"
    using Cons.prems by (intro Cons.IH) (metis append_Cons)
  ultimately show ?case by simp
qed (simp add: assms(2))

lemma split_once_str_Some:
  "split_once_str pat s = Some (a, b) \<Longrightarrow> s = a @ pat @ b"
  by (induction s arbitrary: a) (auto simp: strip_prefix_Some split: option.splits if_splits)

text \<open>Behind a scheme, which has no colon, the separator is found first.\<close>

lemma split_once_scheme:
  "CHR '':'' \<notin> set a \<Longrightarrow> split_once_str ''://'' (a @ ''://'' @ b) = Some (a, b)"
  by (induction a) auto

lemma unreserved_not: "unreserved b \<Longrightarrow> b \<notin> set '':@/?#%''"
  by (auto simp: unreserved_def ascii_defs byte_val_def)

lemma upper_hex_val: "n < 16 \<Longrightarrow> byte_val (upper_hex n) = (if n < 10 then 48 + n else 55 + n)"
  by (simp add: upper_hex_def)

lemma upper_hex_not: "n < 16 \<Longrightarrow> upper_hex n \<notin> set '':@/?#%''"
  by (auto simp: byte_eq_iff upper_hex_val split: if_splits)

lemma encode_byte_not: "set (encode_byte b) \<inter> set '':@/?#'' = {}"
proof -
  have "byte_val b div 16 < 16" "byte_val b mod 16 < 16"
    using byte_val_lt [of b] by (simp_all add: div_less_iff_less_mult)
  then show ?thesis
    using upper_hex_not [of "byte_val b div 16"] upper_hex_not [of "byte_val b mod 16"] unreserved_not [of b]
    by (auto simp: encode_byte_def)
qed

lemma encode_userinfo_not: "set (encode_userinfo v) \<inter> set '':@/?#'' = {}"
  using encode_byte_not by (auto simp: encode_userinfo_def)

lemma takeWhile_dropWhile: "takeWhile P (dropWhile P xs) = []"
  by (induction xs) auto

lemma http_url_parse_parts:
  assumes "http_url_parse url = Some u"
  shows "CHR '':'' \<notin> set (hu_scheme u)" "hu_scheme u = ''http'' \<or> hu_scheme u = ''https''"
    "CHR ''@'' \<notin> set (hu_host u)" "list_all (\<lambda>c. \<not> ends_authority c) (hu_host u)"
    "takeWhile (\<lambda>c. \<not> ends_authority c) (hu_rest u) = []"
proof -
  obtain scheme after where s: "split_once_str ''://'' url = Some (scheme, after)"
    "scheme = ''http'' \<or> scheme = ''https''"
    and u: "u = \<lparr>hu_scheme = scheme, hu_host = after_last (CHR ''@'') (takeWhile (\<lambda>c. \<not> ends_authority c) after),
       hu_rest = dropWhile (\<lambda>c. \<not> ends_authority c) after\<rparr>"
    using assms by (auto simp: http_url_parse_def Let_def split: option.splits if_splits)
  then show "CHR '':'' \<notin> set (hu_scheme u)" "hu_scheme u = ''http'' \<or> hu_scheme u = ''https''" by auto
  show "CHR ''@'' \<notin> set (hu_host u)"
    by (auto simp: u after_last_def dest: set_takeWhileD)
  show "list_all (\<lambda>c. \<not> ends_authority c) (hu_host u)"
    by (auto simp: u after_last_def list_all_iff dest!: set_takeWhileD)
  show "takeWhile (\<lambda>c. \<not> ends_authority c) (hu_rest u) = []"
    by (simp add: u takeWhile_dropWhile)
qed

lemma after_last_append: "c \<notin> set b \<Longrightarrow> after_last c (a @ c # b) = b"
  by (simp add: after_last_def takeWhile_append)

lemma takeWhile_authority:
  assumes "list_all (\<lambda>c. \<not> ends_authority c) a" "takeWhile (\<lambda>c. \<not> ends_authority c) b = []"
  shows "takeWhile (\<lambda>c. \<not> ends_authority c) (a @ b) = a" "dropWhile (\<lambda>c. \<not> ends_authority c) (a @ b) = b"
proof -
  from assms(2) have "dropWhile (\<lambda>c. \<not> ends_authority c) b = b"
    by (metis append_Nil takeWhile_dropWhile_id)
  with assms show "takeWhile (\<lambda>c. \<not> ends_authority c) (a @ b) = a" "dropWhile (\<lambda>c. \<not> ends_authority c) (a @ b) = b"
    by (auto simp: list_all_iff)
qed

subsection \<open>Reading the credentials back\<close>

definition hex_val :: "byte \<Rightarrow> nat option" where
  "hex_val b =
     (if byte_in 48 57 b then Some (byte_val b - 48) else if byte_in 65 70 b then Some (byte_val b - 55)
      else if byte_in 97 102 b then Some (byte_val b - 87) else None)"

fun decode_userinfo :: "string \<Rightarrow> string option" where
  "decode_userinfo [] = Some []"
| "decode_userinfo (c # s) =
     (if c = CHR ''%''
      then (case s of
          h # l # r \<Rightarrow>
            (case (hex_val h, hex_val l) of
               (Some x, Some y) \<Rightarrow> map_option ((#) (byte_of (16 * x + y))) (decode_userinfo r)
             | _ \<Rightarrow> None)
        | _ \<Rightarrow> None)
      else map_option ((#) c) (decode_userinfo s))"

definition read_userinfo :: "string \<Rightarrow> (string \<times> string) option" where
  "read_userinfo url =
     (case split_once_str ''://'' url of
        None \<Rightarrow> None
      | Some (_, after) \<Rightarrow>
          (case split_once (CHR ''@'') (takeWhile (\<lambda>c. \<not> ends_authority c) after) of
             None \<Rightarrow> None
           | Some (info, _) \<Rightarrow>
               (case split_once (CHR '':'') info of
                  None \<Rightarrow> None
                | Some (user, pass) \<Rightarrow>
                    (case (decode_userinfo user, decode_userinfo pass) of
                       (Some u, Some p) \<Rightarrow> Some (u, p)
                     | _ \<Rightarrow> None))))"

lemma hex_val_upper: "n < 16 \<Longrightarrow> hex_val (upper_hex n) = Some n"
  by (auto simp: hex_val_def byte_in_def upper_hex_val)

lemma decode_encode_byte: "decode_userinfo (encode_byte b @ s) = map_option ((#) b) (decode_userinfo s)"
proof (cases "unreserved b")
  case True
  then show ?thesis using unreserved_not [of b] by (simp add: encode_byte_def)
next
  case False
  have "byte_val b div 16 < 16" "byte_val b mod 16 < 16"
    using byte_val_lt [of b] by (simp_all add: div_less_iff_less_mult)
  then show ?thesis using False
    by (simp add: encode_byte_def hex_val_upper)
qed

lemma decode_encode: "decode_userinfo (encode_userinfo v) = Some v"
  by (induction v) (simp_all add: encode_userinfo_def decode_encode_byte)

lemma authed_after:
  assumes "http_url_parse url = Some u"
  shows "authed_url url c = Some (hu_scheme u @ ''://'' @
      (encode_userinfo (username c) @ '':'' @ encode_userinfo (password c) @ ''@'' @ hu_host u) @ hu_rest u)"
  using assms by (simp add: authed_url_def origin_with_def)

lemma authority_clean:
  assumes "http_url_parse url = Some u"
  shows "list_all (\<lambda>c. \<not> ends_authority c)
    (encode_userinfo (username c) @ '':'' @ encode_userinfo (password c) @ ''@'' @ hu_host u)"
  using http_url_parse_parts(4) [OF assms] encode_userinfo_not [of "username c"] encode_userinfo_not [of "password c"]
  by (auto simp: list_all_iff ends_authority_def)



subsection \<open>The store's file name\<close>

lemma lower_hex_safe: "n < 16 \<Longrightarrow> is_ascii_alphanumeric (lower_hex n)"
  by (auto simp: lower_hex_def ascii_defs split: if_splits)

lemma safe_char_safe: "is_ascii_alphanumeric (safe_char u) \<or> safe_char u \<in> set ''-._''"
  by (auto simp: safe_char_def split: list.splits)

text \<open>The name is one path component of at most 57 harmless characters that is never empty
  nor special.\<close>

lemma store_file_name_safe:
  "list_all (\<lambda>b. is_ascii_alphanumeric b \<or> b \<in> set ''-._'') (store_file_name repo)"
  "17 \<le> length (store_file_name repo)" "length (store_file_name repo) \<le> 57"
  by (auto simp: store_file_name_def Let_def hex16_def list_all_iff lower_hex_safe
      dest!: safe_char_safe [THEN disjE] simp del: upt_rec_numeral)
    (use safe_char_safe in \<open>auto\<close>)

end
