(* ===== verification/Acts.thy ===== *)
theory Acts
  imports Exec_Types
begin

section \<open>Verbs over a sandbox's exec\<close>

text \<open>
  The facets a provider does not implement itself run commands through the sandbox's \<open>Exec\<close>.
  Running a command is a parameter on a world of its own; a verb is a function of the world that
  stops at the first error, which is what the question mark operator does.
\<close>

type_synonym ('w, 'a) act = "'w \<Rightarrow> 'w \<times> (error, 'a) result"
type_synonym 'w runner = "'w \<Rightarrow> exec_spec \<Rightarrow> 'w \<times> (error, exec_result) result"

definition act_bind :: "('w, 'a) act \<Rightarrow> ('a \<Rightarrow> ('w, 'b) act) \<Rightarrow> ('w, 'b) act" where
  "act_bind m f w = (case m w of (w', Err e) \<Rightarrow> (w', Err e) | (w', Ok a) \<Rightarrow> f a w')"

definition act_of :: "(error, 'a) result \<Rightarrow> ('w, 'a) act" where
  "act_of r w = (w, r)"

definition act_map :: "('a \<Rightarrow> 'b) \<Rightarrow> ('w, 'a) act \<Rightarrow> ('w, 'b) act" where
  "act_map f m = act_bind m (\<lambda>a. act_of (Ok (f a)))"

definition stdout_lossy :: "exec_result \<Rightarrow> string" where
  "stdout_lossy r = from_utf8_lossy (res_stdout r)"

text \<open>\<open>str::lines\<close>: split after every line feed, without it and without a carriage return before
  it.\<close>

definition strip_cr :: "string \<Rightarrow> string" where
  "strip_cr l = (case strip_suffix [CHR 0x0D] l of Some s \<Rightarrow> s | None \<Rightarrow> l)"

definition str_lines :: "string \<Rightarrow> string list" where
  "str_lines s =
     (let parts = split_on (CHR 0x0A) s in
      map strip_cr (butlast parts) @ (if last parts = [] then [] else [last parts]))"

text \<open>The helper three facets share: run a Bash script and turn an unsuccessful end into the error
  that carries its output.\<close>

definition exec_failed :: "string \<Rightarrow> exec_result \<Rightarrow> error" where
  "exec_failed label r =
     Exec (with_duration (exec_failure_new label (result_termination r) (exit_code r) (res_stdout r) (res_stderr r))
       (res_duration r))"

definition bash_run :: "'w runner \<Rightarrow> duration \<Rightarrow> string \<Rightarrow> string \<Rightarrow> ('w, exec_result) act" where
  "bash_run ex limit label command =
     act_bind (\<lambda>w. ex w ((spec_bash command)\<lparr>timeout := Some limit\<rparr>)) (\<lambda>r.
       act_of (if success r then Ok r else Err (exec_failed label r)))"

end
