(* ===== verification/Derived_Git.thy ===== *)
theory Derived_Git
  imports Git_Credentials Acts
begin

section \<open>Git over exec (derived/git/mod.rs, clone.rs, credentials.rs)\<close>

text \<open>
  The git facet a sandbox gets when its provider has none: every verb is one or more hardened
  commands run through the sandbox's \<open>Exec\<close>, the parameter \<open>ex\<close>. The parsers print what they
  could not read with Rust's debug format, the parameter \<open>dbg\<close>.
\<close>

subsection \<open>Running\<close>

definition run_script ::
    "'w runner \<Rightarrow> string \<Rightarrow> string option \<Rightarrow> string \<Rightarrow> (string \<times> string) option \<Rightarrow> duration \<Rightarrow>
     ('w, exec_result) act" where
  "run_script ex label repo text secret limit w =
     (case ex w (git_spec text repo secret limit) of
        (w', Err e) \<Rightarrow> (w', Err e)
      | (w', Ok r) \<Rightarrow> if success r then (w', Ok r) else (w', Err (git_failure_of label r)))"

definition git_run :: "'w runner \<Rightarrow> string option \<Rightarrow> git_command \<Rightarrow> ('w, exec_result) act" where
  "git_run ex repo c = run_script ex (gc_label c) repo (script c) None (gc_timeout c)"

definition cat_file_batch :: "'w runner \<Rightarrow> string \<Rightarrow> string list \<Rightarrow> string \<Rightarrow> ('w, exec_result) act" where
  "cat_file_batch ex repo blobs mode =
     act_bind (act_of (check_list blobs (validate_object_name ''blobs''))) (\<lambda>_.
       run_script ex (''git cat-file '' @ mode) (Some repo)
         (feed_object_names blobs @ '' | '' @ git_read_prefix @ '' cat-file '' @ mode) None git_timeout)"

definition rename_flag :: "git_diff_options \<Rightarrow> string list" where
  "rename_flag o' =
     (case di_find_renames o' of None \<Rightarrow> [] | Some p \<Rightarrow> [''--find-renames='' @ show_nat p @ ''%''])"

subsection \<open>Credentials\<close>

definition remote_url :: "'w runner \<Rightarrow> string \<Rightarrow> string \<Rightarrow> ('w, string) act" where
  "remote_url ex repo remote =
     act_map (\<lambda>r. trim (stdout_lossy r))
       (git_run ex (Some repo) (with_arg remote (with_arg ''get-url'' (command_new ''git remote get-url'' ''remote''))))"

definition rewrite_of :: "string \<Rightarrow> git_credentials \<Rightarrow> string option" where
  "rewrite_of url c = map_option (\<lambda>authed. ''url.'' @ authed @ ''.insteadOf='' @ url) (authed_url url c)"

definition credential_rewrite ::
    "'w runner \<Rightarrow> string \<Rightarrow> string \<Rightarrow> git_credentials option \<Rightarrow> ('w, string option) act" where
  "credential_rewrite ex repo remote credentials =
     (case credentials of
        None \<Rightarrow> act_of (Ok None)
      | Some c \<Rightarrow> act_map (\<lambda>url. rewrite_of url c) (remote_url ex repo remote))"

definition credential_store_path :: "'w runner \<Rightarrow> string option \<Rightarrow> string \<Rightarrow> ('w, string) act" where
  "credential_store_path ex runtime repo =
     (case runtime of
        Some dir \<Rightarrow> act_of (Ok (trim_end_matches (CHR ''/'') dir @ ''/git-credentials/'' @ store_file_name repo))
      | None \<Rightarrow>
          act_map (\<lambda>r. trim (stdout_lossy r) @ ''/sandbox-driver-credentials'')
            (git_run ex (Some repo) (with_arg ''--absolute-git-dir'' (command_new ''git rev-parse'' ''rev-parse''))))"

definition credential_env :: string where
  "credential_env = ''SANDBOX_DRIVER_GIT_CREDENTIAL''"

definition forget_helper :: "string \<Rightarrow> string" where
  "forget_helper helper =
     ''('' @ git_prefix @ '' config --local --fixed-value --unset-all credential.helper '' @ helper @
     '' || [ $? -eq 5 ])''"

definition store_script :: "string \<Rightarrow> string" where
  "store_script store =
     (let directory = shell_quote (case split_once (CHR ''/'') (rev store) of
                         Some (_, dir) \<Rightarrow> rev dir | None \<Rightarrow> ''/'');
          path = shell_quote store; temp = shell_quote (store @ ''.tmp'') in
      ''umask 077 && mkdir -p -- '' @ directory @ '' && printf '' @ [sq] @ ''%s'' @ [backslash] @ ''n'' @ [sq] @
      '' '' @ [CHR 0x22] @ ''$'' @ credential_env @ [CHR 0x22] @ '' > '' @ temp @ '' && mv -f -- '' @ temp @
      '' '' @ path)"

definition helper_script :: "string \<Rightarrow> string" where
  "helper_script store =
     (let helper = shell_quote (store_helper store) in
      forget_helper helper @ '' && '' @ git_prefix @ '' config --local --add credential.helper '' @ helper)"

definition remove_script :: "string \<Rightarrow> string" where
  "remove_script store =
     ''rm -f -- '' @ shell_quote (store @ ''.tmp'') @ '' '' @ shell_quote store @ '' && '' @
     forget_helper (shell_quote (store_helper store))"

definition apply_ambient_credentials ::
    "'w runner \<Rightarrow> string option \<Rightarrow> string \<Rightarrow> git_credentials option \<Rightarrow> ('w, unit) act" where
  "apply_ambient_credentials ex runtime repo credentials =
     act_bind
       (case credentials of
          Some c \<Rightarrow>
            act_bind (remote_url ex repo ''origin'') (\<lambda>url.
              act_of (map_sum id Some (ok_or (store_entry url c) (InvalidSpec ''credentials''
                ''ambient credentials apply to http(s) remotes only; origin is not an http(s) URL''))))
        | None \<Rightarrow> act_of (Ok None)) (\<lambda>entry.
     act_bind (credential_store_path ex runtime repo) (\<lambda>store.
       case entry of
         Some line \<Rightarrow>
           act_bind (run_script ex ''git credential store'' None (store_script store)
             (Some (credential_env, line)) git_timeout) (\<lambda>_.
           act_map (\<lambda>_. ()) (run_script ex ''git config credential.helper'' (Some repo) (helper_script store)
             None git_timeout))
       | None \<Rightarrow>
           act_map (\<lambda>_. ()) (run_script ex ''git config credential.helper'' (Some repo) (remove_script store)
             None git_timeout)))"

subsection \<open>Cloning\<close>

datatype pin = PinCommit string | PinTag string

fun fetch_refspec :: "pin \<Rightarrow> string" where
  "fetch_refspec (PinCommit c) = c"
| "fetch_refspec (PinTag t) = ''+refs/tags/'' @ t @ '':refs/tags/'' @ t"

fun pin_revision :: "pin \<Rightarrow> string" where
  "pin_revision (PinCommit c) = c"
| "pin_revision (PinTag t) = ''refs/tags/'' @ t"

definition attach_pinned_branch :: "'w runner \<Rightarrow> string \<Rightarrow> string \<Rightarrow> string \<Rightarrow> ('w, unit) act" where
  "attach_pinned_branch ex repo branch revision =
     act_bind (act_of (validate_branch_name branch)) (\<lambda>_.
     act_map (\<lambda>_. ()) (git_run ex (Some repo)
       (with_args [''-B'', branch, revision, ''--''] (command_new ''git checkout'' ''checkout''))))"

definition pinned_fetch :: "git_clone_options \<Rightarrow> pin \<Rightarrow> string option \<Rightarrow> git_command" where
  "pinned_fetch o' pin rewrite =
     with_timeout clone_timeout (with_arg (fetch_refspec pin) (with_args [''--no-tags'', ''origin'', ''--'']
       (with_option ''--depth'' (map_option show_nat (co_depth o'))
         (with_configs (opt_list rewrite) (command_new ''git fetch'' ''fetch'')))))"

definition checkout_pinned :: "'w runner \<Rightarrow> string \<Rightarrow> git_clone_options \<Rightarrow> pin \<Rightarrow> ('w, unit) act" where
  "checkout_pinned ex target o' pin =
     (case co_branch o' of
        Some branch \<Rightarrow> attach_pinned_branch ex target branch (pin_revision pin)
      | None \<Rightarrow> act_map (\<lambda>_. ()) (git_run ex (Some target)
          (with_args [''--detach'', pin_revision pin, ''--''] (command_new ''git checkout'' ''checkout''))))"

definition clone_pinned ::
    "'w runner \<Rightarrow> string \<Rightarrow> string \<Rightarrow> git_clone_options \<Rightarrow> pin \<Rightarrow> string option \<Rightarrow> ('w, unit) act" where
  "clone_pinned ex url target o' pin rewrite =
     act_bind (git_run ex None (with_args [''--'', target] (command_new ''git init'' ''init''))) (\<lambda>_.
     act_bind (git_run ex (Some target)
       (with_args [''add'', ''--'', ''origin'', url] (command_new ''git remote add'' ''remote''))) (\<lambda>_.
     act_bind (git_run ex (Some target) (pinned_fetch o' pin rewrite)) (\<lambda>_.
     checkout_pinned ex target o' pin)))"

definition branch_clone :: "string \<Rightarrow> string \<Rightarrow> git_clone_options \<Rightarrow> string option \<Rightarrow> git_command" where
  "branch_clone url target o' rewrite =
     with_timeout clone_timeout (with_args [''--'', url, target] (with_arg ''--no-tags''
       (flag_if (co_branch o' \<noteq> None) ''--single-branch'' (with_option ''--branch'' (co_branch o')
         (with_option ''--depth'' (map_option show_nat (co_depth o'))
           (with_configs (opt_list rewrite) (command_new ''git clone'' ''clone'')))))))"

definition clone_into :: "'w runner \<Rightarrow> string \<Rightarrow> string \<Rightarrow> git_clone_options \<Rightarrow> ('w, unit) act" where
  "clone_into ex url target o' =
     act_bind (act_of (validate_clone o')) (\<lambda>_.
       let rewrite = Option.bind (co_credentials o') (rewrite_of url) in
       case (co_commit o', co_tag o') of
         (Some commit, _) \<Rightarrow> clone_pinned ex url target o' (PinCommit commit) rewrite
       | (None, Some tag) \<Rightarrow> clone_pinned ex url target o' (PinTag tag) rewrite
       | (None, None) \<Rightarrow> act_map (\<lambda>_. ()) (git_run ex None (branch_clone url target o' rewrite)))"

subsection \<open>The verbs\<close>

definition git_status_verb :: "'w runner \<Rightarrow> string \<Rightarrow> ('w, git_status) act" where
  "git_status_verb ex repo =
     act_map (\<lambda>r. parse_status_v2 (stdout_lossy r))
       (git_run ex (Some repo) (with_args [''--porcelain=v2'', ''-z'', ''--branch''] (command_new ''git status'' ''status'')))"

definition git_add :: "'w runner \<Rightarrow> string \<Rightarrow> string list \<Rightarrow> ('w, unit) act" where
  "git_add ex repo paths =
     act_map (\<lambda>_. ()) (git_run ex (Some repo) (with_args paths (with_arg ''--'' (command_new ''git add'' ''add''))))"

definition commit_command :: "git_commit_options \<Rightarrow> git_command" where
  "commit_command o' =
     flag_if (ci_allow_empty o') ''--allow-empty'' (with_arg (ci_message o') (with_arg ''-m''
       (with_config (''user.email='' @ ci_author_email o') (with_config (''user.name='' @ ci_author_name o')
         (command_new ''git commit'' ''commit'')))))"

definition git_commit_verb :: "'w runner \<Rightarrow> string \<Rightarrow> git_commit_options \<Rightarrow> ('w, string) act" where
  "git_commit_verb ex repo o' =
     act_bind (git_run ex (Some repo) (commit_command o')) (\<lambda>_.
     act_map (\<lambda>r. trim (stdout_lossy r))
       (git_run ex (Some repo) (with_arg ''HEAD'' (command_new ''git rev-parse'' ''rev-parse''))))"

definition unwrap_or :: "'a option \<Rightarrow> 'a \<Rightarrow> 'a" where
  "unwrap_or x d = (case x of None \<Rightarrow> d | Some v \<Rightarrow> v)"

definition push_command :: "git_push_options \<Rightarrow> string \<Rightarrow> string option \<Rightarrow> git_command" where
  "push_command o' remote rewrite =
     with_timeout (unwrap_or (pu_timeout o') network_timeout)
       (with_args (opt_list (case pu_refspec o' of Some r \<Rightarrow> Some r | None \<Rightarrow> pu_branch o')) (with_arg remote
         (flag_if (pu_set_upstream o') ''--set-upstream''
           (with_configs (opt_list rewrite) (command_new ''git push'' ''push'')))))"

definition git_push :: "'w runner \<Rightarrow> string \<Rightarrow> git_push_options \<Rightarrow> ('w, unit) act" where
  "git_push ex repo o' =
     act_bind (act_of (validate_push o')) (\<lambda>_.
       let remote = unwrap_or (pu_remote o') ''origin'' in
       act_bind (credential_rewrite ex repo remote (pu_credentials o')) (\<lambda>rewrite.
         act_map (\<lambda>_. ()) (git_run ex (Some repo) (push_command o' remote rewrite))))"

definition git_pull :: "'w runner \<Rightarrow> string \<Rightarrow> git_credentials option \<Rightarrow> ('w, unit) act" where
  "git_pull ex repo credentials =
     act_bind (credential_rewrite ex repo ''origin'' credentials) (\<lambda>rewrite.
       act_map (\<lambda>_. ()) (git_run ex (Some repo)
         (with_timeout network_timeout (with_arg ''origin'' (with_configs (opt_list rewrite) (command_new ''git pull'' ''pull''))))))"

definition git_branches_verb :: "'w runner \<Rightarrow> string \<Rightarrow> ('w, git_branches) act" where
  "git_branches_verb ex repo =
     act_bind (git_run ex (Some repo)
       (with_args [''--format=%(refname:short)'', ''refs/heads''] (command_new ''git for-each-ref'' ''for-each-ref''))) (\<lambda>lst.
     act_map (\<lambda>r. let h = trim (stdout_lossy r) in
         \<lparr>gb_current = (if h \<noteq> ''HEAD'' then Some h else None), gb_branches = str_lines (stdout_lossy lst)\<rparr>)
       (git_run ex (Some repo) (with_args [''--abbrev-ref'', ''HEAD''] (command_new ''git rev-parse'' ''rev-parse''))))"

definition fetch_command :: "git_fetch_options \<Rightarrow> string \<Rightarrow> string option \<Rightarrow> git_command" where
  "fetch_command o' remote rewrite =
     with_timeout (unwrap_or (fe_timeout o') network_timeout)
       (with_args (fe_refspecs o') (with_arg remote (with_option ''--depth'' (map_option show_nat (fe_depth o'))
         (with_configs (opt_list rewrite) (command_new ''git fetch'' ''fetch'')))))"

definition git_fetch :: "'w runner \<Rightarrow> string \<Rightarrow> git_fetch_options \<Rightarrow> ('w, unit) act" where
  "git_fetch ex repo o' =
     act_bind (act_of (validate_fetch o')) (\<lambda>_.
       let remote = unwrap_or (fe_remote o') ''origin'' in
       act_bind (credential_rewrite ex repo remote (fe_credentials o')) (\<lambda>rewrite.
         act_map (\<lambda>_. ()) (git_run ex (Some repo) (fetch_command o' remote rewrite))))"

definition git_rev_parse :: "'w runner \<Rightarrow> string \<Rightarrow> string \<Rightarrow> ('w, string) act" where
  "git_rev_parse ex repo revision =
     act_bind (act_of (validate_argument ''revision'' revision)) (\<lambda>_.
       act_map (\<lambda>r. trim (stdout_lossy r)) (git_run ex (Some repo)
         (with_args [''--verify'', ''--end-of-options'', revision] (read_only (command_new ''git rev-parse'' ''rev-parse'')))))"

definition merge_base_command :: "string \<Rightarrow> string \<Rightarrow> git_command" where
  "merge_base_command ancestor descendant =
     with_args [''--is-ancestor'', ancestor, descendant] (read_only (command_new ''git merge-base'' ''merge-base''))"

definition is_ancestor :: "'w runner \<Rightarrow> string \<Rightarrow> string \<Rightarrow> string \<Rightarrow> ('w, bool) act" where
  "is_ancestor ex repo ancestor descendant =
     act_bind (act_of (validate_argument ''ancestor'' ancestor)) (\<lambda>_.
     act_bind (act_of (validate_argument ''descendant'' descendant)) (\<lambda>_ w.
       let c = merge_base_command ancestor descendant in
       case ex w (git_spec (script c) (Some repo) None (gc_timeout c)) of
         (w', Err e) \<Rightarrow> (w', Err e)
       | (w', Ok r) \<Rightarrow>
           if exit_code r = Some 0 \<and> result_termination r = Exited then (w', Ok True)
           else if exit_code r = Some 1 \<and> result_termination r = Exited then (w', Ok False)
           else (w', Err (git_failure_of (gc_label c) r))))"

definition diff_command :: "string \<Rightarrow> string list \<Rightarrow> git_diff_options \<Rightarrow> git_command" where
  "diff_command label flags o' =
     with_timeout (unwrap_or (di_timeout o') git_timeout) (with_arg (range_spec (di_range o') None)
       (with_args (rename_flag o') (with_args flags (read_only (command_new label ''diff'')))))"

definition diff_entries :: "(string \<Rightarrow> string) \<Rightarrow> 'w runner \<Rightarrow> string \<Rightarrow> git_diff_options \<Rightarrow> ('w, git_diff_entry list) act" where
  "diff_entries dbg ex repo o' =
     act_bind (act_of (validate_diff o')) (\<lambda>_.
     act_bind (git_run ex (Some repo)
       (diff_command ''git diff --raw'' [''--no-ext-diff'', ''--raw'', ''--no-abbrev'', ''-z''] o')) (\<lambda>r.
     act_of (parse_raw_diff dbg (res_stdout r))))"

definition diff_numstat :: "(string \<Rightarrow> string) \<Rightarrow> 'w runner \<Rightarrow> string \<Rightarrow> git_diff_options \<Rightarrow> ('w, git_numstat list) act" where
  "diff_numstat dbg ex repo o' =
     act_bind (act_of (validate_diff o')) (\<lambda>_.
     act_bind (git_run ex (Some repo)
       (diff_command ''git diff --numstat'' [''--no-ext-diff'', ''--numstat'', ''-z''] o')) (\<lambda>r.
     act_of (parse_numstat dbg (res_stdout r))))"

definition diff_patch :: "'w runner \<Rightarrow> string \<Rightarrow> git_diff_options \<Rightarrow> ('w, string) act" where
  "diff_patch ex repo o' =
     act_bind (act_of (validate_diff o')) (\<lambda>_.
     act_map stdout_lossy (git_run ex (Some repo)
       (diff_command ''git diff'' [''--no-ext-diff'', ''--no-color''] o')))"

definition log_format :: string where
  "log_format = ''%H%x1f%T%x1f%P%x1f%an%x1f%ae%x1f%aI%x1f%cn%x1f%ce%x1f%cI%x1f%B%x1e''"

definition log_command :: "git_log_options \<Rightarrow> git_command" where
  "log_command o' =
     with_timeout (unwrap_or (lo_timeout o') git_timeout) (with_arg (range_spec (lo_range o') (Some ''HEAD''))
       (with_args (map (\<lambda>n. ''--max-count='' @ show_nat n) (opt_list (lo_max_count o')))
         (flag_if (lo_reverse o') ''--reverse'' (flag_if (lo_first_parent o') ''--first-parent''
           (with_arg (''--format='' @ log_format) (read_only (command_new ''git log'' ''log'')))))))"

definition git_log :: "(string \<Rightarrow> string) \<Rightarrow> 'w runner \<Rightarrow> string \<Rightarrow> git_log_options \<Rightarrow> ('w, git_commit list) act" where
  "git_log dbg ex repo o' =
     act_bind (act_of (validate_log o')) (\<lambda>_.
     act_bind (git_run ex (Some repo) (log_command o')) (\<lambda>r. act_of (parse_log dbg (stdout_lossy r))))"

fun all_headers :: "(string \<Rightarrow> string) \<Rightarrow> string list \<Rightarrow> (error, nat option list) result" where
  "all_headers dbg [] = Ok []"
| "all_headers dbg (l # ls) =
     bind_result (batch_header dbg l) (\<lambda>size. bind_result (all_headers dbg ls) (\<lambda>sizes. Ok (size # sizes)))"

definition blob_sizes :: "(string \<Rightarrow> string) \<Rightarrow> 'w runner \<Rightarrow> string \<Rightarrow> string list \<Rightarrow> ('w, nat option list) act" where
  "blob_sizes dbg ex repo blobs =
     (if blobs = [] then act_of (Ok [])
      else act_bind (cat_file_batch ex repo blobs ''--batch-check'') (\<lambda>r.
        act_of (bind_result (all_headers dbg (str_lines (stdout_lossy r))) (\<lambda>sizes.
          if length sizes \<noteq> length blobs
          then Err (count_mismatch ''git cat-file --batch-check'' (length sizes) (length blobs))
          else Ok sizes))))"

text \<open>\<open>None\<close> is a panic of the parser.\<close>

definition git_blobs ::
    "(string \<Rightarrow> string) \<Rightarrow> 'w runner \<Rightarrow> string \<Rightarrow> string list \<Rightarrow> nat \<Rightarrow> 'w \<Rightarrow> 'w \<times> (error, bytes option list) result option" where
  "git_blobs dbg ex repo blobs max_bytes w =
     (if blobs = [] then (w, Some (Ok []))
      else case cat_file_batch ex repo blobs ''--batch'' w of
        (w', Err e) \<Rightarrow> (w', Some (Err e))
      | (w', Ok r) \<Rightarrow> (w', parse_batch dbg (res_stdout r) (length blobs) max_bytes))"

definition config_set :: "'w runner \<Rightarrow> string \<Rightarrow> string \<Rightarrow> string \<Rightarrow> ('w, unit) act" where
  "config_set ex repo key v =
     act_bind (act_of (validate_config_key key)) (\<lambda>_.
     act_map (\<lambda>_. ()) (git_run ex (Some repo)
       (with_args [''--local'', ''--'', key, v] (command_new ''git config'' ''config''))))"

definition untracked_files :: "'w runner \<Rightarrow> string \<Rightarrow> ('w, string list) act" where
  "untracked_files ex repo =
     act_map (\<lambda>r. map from_utf8_lossy (filter (\<lambda>p. p \<noteq> []) (split_on NUL (res_stdout r))))
       (git_run ex (Some repo)
         (with_args [''--others'', ''--exclude-standard'', ''-z''] (read_only (command_new ''git ls-files'' ''ls-files''))))"

definition add_all :: "'w runner \<Rightarrow> string \<Rightarrow> string list \<Rightarrow> ('w, unit) act" where
  "add_all ex repo pathspecs =
     (let add = with_args [''-A'', ''--''] (command_new ''git add'' ''add'');
          add = (if pathspecs = [] then with_arg ''.'' add else with_args pathspecs add)
      in act_map (\<lambda>_. ()) (git_run ex (Some repo) add))"

definition checkout_command :: "git_checkout_options \<Rightarrow> git_command" where
  "checkout_command o' =
     (let c = command_new ''git checkout'' ''checkout'';
          c = (if ck_create o' then with_arg (if ck_reset o' then ''-B'' else ''-b'') c else c)
      in with_arg ''--'' (with_args (opt_list (ck_start_point o')) (with_arg (ck_branch o') c)))"

definition git_checkout :: "'w runner \<Rightarrow> string \<Rightarrow> git_checkout_options \<Rightarrow> ('w, unit) act" where
  "git_checkout ex repo o' =
     act_bind (act_of (validate_checkout o')) (\<lambda>_.
     act_map (\<lambda>_. ()) (git_run ex (Some repo) (checkout_command o')))"


subsection \<open>Which options git sees\<close>

text \<open>The words of a command line git reads as options: those that begin with a dash, up to
  the marker that ends options; the word after \<open>-m\<close> is its value.\<close>

fun option_words :: "string list \<Rightarrow> string list" where
  "option_words [] = []"
| "option_words (w # ws) =
     (if w = ''--'' \<or> w = ''--end-of-options'' then []
      else if w = ''-m'' then w # (case ws of [] \<Rightarrow> [] | _ # vs \<Rightarrow> option_words vs)
      else if flag_shaped w then w # option_words ws else option_words ws)"

definition fixed_options :: "string list" where
  "fixed_options =
     [''--porcelain=v2'', ''-z'', ''--branch'', ''--no-tags'', ''--detach'', ''-B'', ''-b'', ''--depth'',
      ''--single-branch'', ''-m'', ''--allow-empty'', ''--set-upstream'', ''--abbrev-ref'', ''--verify'',
      ''--is-ancestor'', ''--no-ext-diff'', ''--raw'', ''--no-abbrev'', ''--numstat'', ''--no-color'',
      ''--first-parent'', ''--reverse'', ''--local'', ''--others'', ''--exclude-standard'', ''-A'']"

definition allowed_option :: "string \<Rightarrow> bool" where
  "allowed_option w \<longleftrightarrow>
     w \<in> set fixed_options \<or> starts_with ''--find-renames='' w \<or> starts_with ''--format='' w \<or>
     starts_with ''--max-count='' w"

definition safe_command :: "git_command \<Rightarrow> bool" where
  "safe_command c \<longleftrightarrow> list_all allowed_option (option_words (gc_args c))"

definition safe_spec :: "exec_spec \<Rightarrow> bool" where
  "safe_spec s \<longleftrightarrow> (\<exists>c repo limit. s = git_spec (script c) repo None limit \<and> safe_command c)"

text \<open>A runner that keeps what it is asked to run, and what a verb may ask for.\<close>

fun logged :: "'w runner \<Rightarrow> (exec_spec list \<times> 'w) runner" where
  "logged ex (specs, w) s = (let (w', r) = ex w s in ((specs @ [s], w'), r))"

definition only :: "(exec_spec \<Rightarrow> bool) \<Rightarrow> (exec_spec list \<times> 'w, 'a) act \<Rightarrow> bool" where
  "only P m \<longleftrightarrow> (\<forall>x. list_all P (fst x) \<longrightarrow> list_all P (fst (fst (m x))))"

named_theorems only_intros

lemma only_of [only_intros]: "only P (act_of r)"
  by (simp add: only_def act_of_def)

lemma only_bind [only_intros]:
  assumes "only P m" and "\<And>a. only P (f a)" shows "only P (act_bind m f)"
proof -
  have "list_all P (fst (fst (act_bind m f x)))" if "list_all P (fst x)" for x
  proof -
    have "list_all P (fst (fst (m x)))" using assms(1) that unfolding only_def by blast
    then show ?thesis
      using assms(2) by (cases "m x") (auto simp: act_bind_def only_def split: sum.split)
  qed
  then show ?thesis by (simp add: only_def)
qed

lemma only_check: "(r = Ok () \<Longrightarrow> only P m) \<Longrightarrow> only P (act_bind (act_of r) (\<lambda>_. m))"
  by (cases r) (auto simp: only_def act_bind_def act_of_def)

lemma only_map [only_intros]: "only P m \<Longrightarrow> only P (act_map f m)"
  unfolding act_map_def by (intro only_bind only_of)

lemma only_script: "P (git_spec text repo secret limit) \<Longrightarrow> only P (run_script (logged ex) label repo text secret limit)"
  by (auto simp: only_def run_script_def Let_def split: prod.split sum.split)

lemma only_run [only_intros]: "safe_command c \<Longrightarrow> only safe_spec (git_run (logged ex) repo c)"
  unfolding git_run_def by (rule only_script) (auto simp: safe_spec_def)

declare option_words.simps(2) [simp del]

lemma option_words_Cons [simp]:
  "\<not> flag_shaped w \<Longrightarrow> option_words (w # ws) = option_words ws"
  "flag_shaped w \<Longrightarrow> w \<noteq> ''--'' \<Longrightarrow> w \<noteq> ''--end-of-options'' \<Longrightarrow> w \<noteq> ''-m'' \<Longrightarrow>
     option_words (w # ws) = w # option_words ws"
  "option_words (''--'' # ws) = []" "option_words (''--end-of-options'' # ws) = []"
  "option_words (''-m'' # v # ws) = ''-m'' # option_words ws"
  by (auto simp: option_words.simps(2))

lemma option_words_plain [simp]:
  "list_all (\<lambda>w. \<not> flag_shaped w) xs \<Longrightarrow> option_words (xs @ ys) = option_words ys"
  by (induction xs) auto

lemma option_words_plain_end [simp]: "list_all (\<lambda>w. \<not> flag_shaped w) xs \<Longrightarrow> option_words xs = []"
  using option_words_plain [of xs "[]"] by simp

lemma option_words_opt [simp]:
  "(\<And>v. x = Some v \<Longrightarrow> \<not> flag_shaped v) \<Longrightarrow> option_words (opt_list x @ ys) = option_words ys"
  "(\<And>v. x = Some v \<Longrightarrow> \<not> flag_shaped v) \<Longrightarrow> option_words (opt_list x) = []"
  by (cases x; simp add: opt_list_def; fastforce)+

lemma show_nat_no_flag [simp]: "\<not> flag_shaped (show_nat n)"
  using show_nat_hd [of n] by (cases "show_nat n") (auto simp: ascii_defs byte_val_def)

lemmas command_defs = command_new_def with_arg_def with_args_def with_option_def with_config_def
  with_configs_def with_timeout_def flag_if_def read_only_def

lemmas safe_defs = safe_command_def allowed_option_def fixed_options_def starts_with_iff


subsection \<open>Every verb\<close>

datatype git_request =
    CloneRepo string string git_clone_options
  | Status
  | Add "string list"
  | Commit git_commit_options
  | Push git_push_options
  | Pull "git_credentials option"
  | Branches
  | Fetch git_fetch_options
  | RevParse string
  | IsAncestor string string
  | DiffEntries git_diff_options
  | DiffNumstat git_diff_options
  | DiffPatch git_diff_options
  | Log git_log_options
  | ConfigSet string string
  | UntrackedFiles
  | AddAll "string list"
  | Checkout git_checkout_options

definition done_with :: "('w, 'a) act \<Rightarrow> ('w, unit) act" where
  "done_with m = act_map (\<lambda>_. ()) m"

fun git_do :: "(string \<Rightarrow> string) \<Rightarrow> 'w runner \<Rightarrow> string \<Rightarrow> git_request \<Rightarrow> ('w, unit) act" where
  "git_do dbg ex repo (CloneRepo url target o') = clone_into ex url target o'"
| "git_do dbg ex repo Status = done_with (git_status_verb ex repo)"
| "git_do dbg ex repo (Add paths) = git_add ex repo paths"
| "git_do dbg ex repo (Commit o') = done_with (git_commit_verb ex repo o')"
| "git_do dbg ex repo (Push o') = git_push ex repo o'"
| "git_do dbg ex repo (Pull credentials) = git_pull ex repo credentials"
| "git_do dbg ex repo Branches = done_with (git_branches_verb ex repo)"
| "git_do dbg ex repo (Fetch o') = git_fetch ex repo o'"
| "git_do dbg ex repo (RevParse revision) = done_with (git_rev_parse ex repo revision)"
| "git_do dbg ex repo (IsAncestor a d) = done_with (is_ancestor ex repo a d)"
| "git_do dbg ex repo (DiffEntries o') = done_with (diff_entries dbg ex repo o')"
| "git_do dbg ex repo (DiffNumstat o') = done_with (diff_numstat dbg ex repo o')"
| "git_do dbg ex repo (DiffPatch o') = done_with (diff_patch ex repo o')"
| "git_do dbg ex repo (Log o') = done_with (git_log dbg ex repo o')"
| "git_do dbg ex repo (ConfigSet key v) = config_set ex repo key v"
| "git_do dbg ex repo UntrackedFiles = done_with (untracked_files ex repo)"
| "git_do dbg ex repo (AddAll pathspecs) = add_all ex repo pathspecs"
| "git_do dbg ex repo (Checkout o') = git_checkout ex repo o'"

lemma only_done [only_intros]: "only P m \<Longrightarrow> only P (done_with m)"
  unfolding done_with_def by (rule only_map)

lemma safe_remote_url: "\<not> flag_shaped remote \<Longrightarrow> only safe_spec (remote_url (logged ex) repo remote)"
  unfolding remote_url_def
  by (intro only_intros) (simp add: safe_defs command_defs)

lemma safe_rewrite: "\<not> flag_shaped remote \<Longrightarrow> only safe_spec (credential_rewrite (logged ex) repo remote c)"
  unfolding credential_rewrite_def
  by (cases c) (auto intro!: only_intros safe_remote_url)

lemma hex_plain: "list_all is_ascii_hexdigit w \<Longrightarrow> \<not> flag_shaped w"
  by (cases w) (auto simp: ascii_defs byte_val_def)

lemma safe_attach:
  "\<not> flag_shaped revision \<Longrightarrow> only safe_spec (attach_pinned_branch (logged ex) repo branch revision)"
  unfolding attach_pinned_branch_def
proof (rule only_check)
  assume "\<not> flag_shaped revision" "validate_branch_name branch = Ok ()"
  then show "only safe_spec (act_map (\<lambda>_. ()) (git_run (logged ex) (Some repo)
       (with_args [''-B'', branch, revision, ''--''] (command_new ''git checkout'' ''checkout''))))"
    using validate_ref_name_plain [of "''branch''" branch]
    by (intro only_intros) (simp add: safe_defs command_defs validate_branch_name_def)
qed

lemma safe_checkout_pinned:
  "\<not> flag_shaped (pin_revision pin) \<Longrightarrow> only safe_spec (checkout_pinned (logged ex) target o' pin)"
  unfolding checkout_pinned_def
  by (cases "co_branch o'") (auto simp: safe_attach safe_defs command_defs intro!: only_intros)

lemma safe_clone_pinned:
  assumes "\<not> flag_shaped (pin_revision pin)"
  shows "only safe_spec (clone_pinned (logged ex) url target o' pin rewrite)"
  unfolding clone_pinned_def
  by (intro only_intros safe_checkout_pinned assms)
    (auto simp: safe_defs command_defs pinned_fetch_def split: option.split)

lemma safe_clone: "only safe_spec (clone_into (logged ex) url target o')"
  unfolding clone_into_def
proof (rule only_check)
  assume v: "validate_clone o' = Ok ()"
  then have commit: "\<not> flag_shaped c" if "co_commit o' = Some c" for c
    using that hex_plain [of c]
    by (auto simp: validate_clone_def bind_result_Ok_iff check_opt_Ok split: if_splits)
  from v have branch: "\<not> flag_shaped b" if "co_branch o' = Some b" for b
    using that validate_ref_name_plain [of "''branch''" b]
    by (auto simp: validate_clone_def bind_result_Ok_iff check_opt_Ok validate_branch_name_def)
  have plain: "safe_command (branch_clone url target o' rewrite)" for rewrite
    using branch by (auto simp: safe_defs command_defs branch_clone_def split: option.split)
  show "only safe_spec
     (let rewrite = Option.bind (co_credentials o') (rewrite_of url) in
       case (co_commit o', co_tag o') of
         (Some commit, _) \<Rightarrow> clone_pinned (logged ex) url target o' (PinCommit commit) rewrite
       | (None, Some tag) \<Rightarrow> clone_pinned (logged ex) url target o' (PinTag tag) rewrite
       | (None, None) \<Rightarrow> act_map (\<lambda>_. ()) (git_run (logged ex) None (branch_clone url target o' rewrite)))"
    using commit plain by (auto simp: Let_def split: option.split intro!: safe_clone_pinned only_intros)
qed


lemma safe_push:
  assumes "\<not> flag_shaped (unwrap_or (pu_remote o') ''origin'')"
  shows "only safe_spec (git_push (logged ex) repo o')"
  unfolding git_push_def
proof (rule only_check)
  assume v: "validate_push o' = Ok ()"
  have "\<not> flag_shaped r" if "(case pu_refspec o' of Some r \<Rightarrow> Some r | None \<Rightarrow> pu_branch o') = Some r" for r
    using v that validate_refspec_plain [of r] validate_ref_name_plain [of "''branch''" r]
    by (auto simp: validate_push_def bind_result_Ok_iff check_opt_Ok validate_branch_name_def
        split: option.splits if_splits)
  then have "safe_command (push_command o' (unwrap_or (pu_remote o') ''origin'') rewrite)" for rewrite
    using assms by (simp add: safe_defs command_defs push_command_def)
  with assms show "only safe_spec
      (let remote = unwrap_or (pu_remote o') ''origin'' in
       act_bind (credential_rewrite (logged ex) repo remote (pu_credentials o')) (\<lambda>rewrite.
         act_map (\<lambda>_. ()) (git_run (logged ex) (Some repo) (push_command o' remote rewrite))))"
    unfolding Let_def by (intro only_intros safe_rewrite)
qed

lemma safe_fetch: "only safe_spec (git_fetch (logged ex) repo o')"
  unfolding git_fetch_def
proof (rule only_check)
  assume v: "validate_fetch o' = Ok ()"
  have remote: "\<not> flag_shaped (unwrap_or (fe_remote o') ''origin'')"
    using v validate_argument_plain [of "''remote''"]
    by (auto simp: validate_fetch_def bind_result_Ok_iff check_opt_Ok unwrap_or_def split: option.split)
  moreover have "list_all (\<lambda>w. \<not> flag_shaped w) (fe_refspecs o')"
    using v trim_plus_plain validate_argument_plain
    by (fastforce simp: validate_fetch_def bind_result_Ok_iff check_list_Ok list_all_iff)
  ultimately have "safe_command (fetch_command o' (unwrap_or (fe_remote o') ''origin'') rewrite)" for rewrite
    by (simp add: safe_defs command_defs fetch_command_def split: option.split)
  with remote show "only safe_spec
      (let remote = unwrap_or (fe_remote o') ''origin'' in
       act_bind (credential_rewrite (logged ex) repo remote (fe_credentials o')) (\<lambda>rewrite.
         act_map (\<lambda>_. ()) (git_run (logged ex) (Some repo) (fetch_command o' remote rewrite))))"
    unfolding Let_def by (intro only_intros safe_rewrite)
qed

lemma safe_range:
  assumes "validate_range r = Ok ()" shows "\<not> flag_shaped (range_spec r d)"
  using assms validate_argument_plain [of "''base''" "rr_base r"]
  by (auto simp: validate_range_def range_spec_def bind_result_Ok_iff flag_shaped_append split: option.split)

lemma safe_diff:
  assumes "validate_diff o' = Ok ()" "list_all allowed_option flags" "list_all flag_shaped flags"
    "''--'' \<notin> set flags" "''--end-of-options'' \<notin> set flags" "''-m'' \<notin> set flags"
  shows "safe_command (diff_command label flags o')"
proof -
  have "validate_range (di_range o') = Ok ()"
    using assms(1) unfolding validate_diff_def by (cases "validate_range (di_range o')") auto
  then have "\<not> flag_shaped (range_spec (di_range o') None)" by (rule safe_range)
  then have "list_all allowed_option (option_words (rename_flag o' @ [range_spec (di_range o') None]))"
    by (auto simp: rename_flag_def allowed_option_def starts_with_iff split: option.split)
  moreover have "option_words (flags @ xs) = flags @ option_words xs" for xs
    using assms(3-) by (induction flags) auto
  ultimately show ?thesis using assms(2) by (simp add: safe_command_def diff_command_def command_defs)
qed

lemma safe_diffs:
  "only safe_spec (diff_entries dbg (logged ex) repo o')" "only safe_spec (diff_numstat dbg (logged ex) repo o')"
  "only safe_spec (diff_patch (logged ex) repo o')"
  unfolding diff_entries_def diff_numstat_def diff_patch_def
  by (rule only_check, intro only_intros safe_diff; simp add: allowed_option_def fixed_options_def)+

lemma safe_log: "only safe_spec (git_log dbg (logged ex) repo o')"
  unfolding git_log_def
proof (rule only_check)
  assume "validate_log o' = Ok ()"
  then have "\<not> flag_shaped (range_spec (lo_range o') (Some ''HEAD''))"
    by (simp add: validate_log_def safe_range)
  then have "safe_command (log_command o')"
    by (cases "lo_max_count o'") (auto simp: safe_defs command_defs log_command_def opt_list_def)
  then show "only safe_spec (act_bind (git_run (logged ex) (Some repo) (log_command o'))
      (\<lambda>r. act_of (parse_log dbg (stdout_lossy r))))"
    by (intro only_intros)
qed

lemma safe_rev_parse: "only safe_spec (git_rev_parse (logged ex) repo revision)"
  unfolding git_rev_parse_def by (intro only_intros) (simp add: safe_defs command_defs)

lemma safe_is_ancestor: "only safe_spec (is_ancestor (logged ex) repo a d)"
  unfolding is_ancestor_def
proof (intro only_check)
  assume "validate_argument ''ancestor'' a = Ok ()" "validate_argument ''descendant'' d = Ok ()"
  then have "safe_command (merge_base_command a d)"
    using validate_argument_plain [of "''ancestor''" a] validate_argument_plain [of "''descendant''" d]
    by (simp add: safe_defs command_defs merge_base_command_def)
  then have "safe_spec (git_spec (script (merge_base_command a d)) (Some repo) None limit)" for limit
    by (auto simp: safe_spec_def)
  then show "only safe_spec (\<lambda>w. let c = merge_base_command a d in
       case logged ex w (git_spec (script c) (Some repo) None (gc_timeout c)) of
         (w', Err e) \<Rightarrow> (w', Err e)
       | (w', Ok r) \<Rightarrow>
           if exit_code r = Some 0 \<and> result_termination r = Exited then (w', Ok True)
           else if exit_code r = Some 1 \<and> result_termination r = Exited then (w', Ok False)
           else (w', Err (git_failure_of (gc_label c) r)))"
    by (auto simp: only_def Let_def split: prod.split sum.split)
qed

lemma safe_checkout: "only safe_spec (git_checkout (logged ex) repo o')"
  unfolding git_checkout_def
proof (rule only_check)
  assume v: "validate_checkout o' = Ok ()"
  have "\<not> flag_shaped (ck_branch o')"
    using v validate_ref_name_plain [of "''branch''" "ck_branch o'"]
    by (simp add: validate_checkout_def bind_result_Ok_iff validate_branch_name_def)
  moreover have "\<not> flag_shaped p" if "ck_start_point o' = Some p" for p
    using v that validate_ref_name_plain [of "''start_point''" p]
    by (auto simp: validate_checkout_def bind_result_Ok_iff check_opt_Ok split: if_splits)
  ultimately have "safe_command (checkout_command o')"
    by (auto simp: safe_defs command_defs checkout_command_def Let_def)
  then show "only safe_spec (act_map (\<lambda>_. ()) (git_run (logged ex) (Some repo) (checkout_command o')))"
    by (intro only_intros)
qed

lemma safe_simple:
  "only safe_spec (git_status_verb (logged ex) repo)" "only safe_spec (git_add (logged ex) repo paths)"
  "only safe_spec (git_commit_verb (logged ex) repo ci)" "only safe_spec (git_pull (logged ex) repo cr)"
  "only safe_spec (git_branches_verb (logged ex) repo)" "only safe_spec (config_set (logged ex) repo key v)"
  "only safe_spec (untracked_files (logged ex) repo)" "only safe_spec (add_all (logged ex) repo paths)"
  unfolding git_status_verb_def git_add_def git_commit_verb_def git_pull_def git_branches_verb_def
    config_set_def untracked_files_def add_all_def Let_def
  by (intro only_intros safe_rewrite; simp add: safe_defs command_defs commit_command_def)+





subsection \<open>A pinned clone\<close>

definition spec_of :: "string option \<Rightarrow> git_command \<Rightarrow> exec_spec" where
  "spec_of repo c = git_spec (script c) repo None (gc_timeout c)"

lemma act_bind_Ok: "act_bind m f x = (y, Ok b) \<Longrightarrow> \<exists>z a. m x = (z, Ok a) \<and> f a z = (y, Ok b)"
  by (auto simp: act_bind_def split: prod.splits sum.splits)

lemma git_run_Ok:
  "git_run (logged ex) repo c x = (y, Ok r) \<Longrightarrow> fst y = fst x @ [spec_of repo c] \<and> success r"
  by (cases x) (auto simp: git_run_def run_script_def spec_of_def Let_def split: prod.splits sum.splits if_splits)

lemma git_run_unit_Ok:
  "act_map (\<lambda>_. ()) (git_run (logged ex) repo c) x = (y, Ok u) \<Longrightarrow> fst y = fst x @ [spec_of repo c]"
  unfolding act_map_def by (auto dest!: act_bind_Ok git_run_Ok simp: act_of_def)

definition checkout_of_pin :: "git_clone_options \<Rightarrow> pin \<Rightarrow> git_command" where
  "checkout_of_pin o' pin =
     (case co_branch o' of
        Some branch \<Rightarrow> with_args [''-B'', branch, pin_revision pin, ''--''] (command_new ''git checkout'' ''checkout'')
      | None \<Rightarrow> with_args [''--detach'', pin_revision pin, ''--''] (command_new ''git checkout'' ''checkout''))"

lemma attach_Ok:
  "attach_pinned_branch (logged ex) repo branch revision x = (y, Ok u) \<Longrightarrow>
   fst y = fst x @ [spec_of (Some repo) (with_args [''-B'', branch, revision, ''--'']
     (command_new ''git checkout'' ''checkout''))]"
  unfolding attach_pinned_branch_def by (auto dest!: act_bind_Ok git_run_unit_Ok simp: act_of_def)

lemma checkout_pinned_Ok:
  "checkout_pinned (logged ex) target o' pin x = (y, Ok u) \<Longrightarrow>
   fst y = fst x @ [spec_of (Some target) (checkout_of_pin o' pin)]"
  unfolding checkout_pinned_def checkout_of_pin_def
  by (cases "co_branch o'") (auto dest!: attach_Ok git_run_unit_Ok)

lemma clone_pinned_Ok:
  assumes "clone_pinned (logged ex) url target o' pin rewrite x = (y, Ok u)"
  shows "\<exists>prep. fst y = fst x @ prep @
    [spec_of (Some target) (pinned_fetch o' pin rewrite), spec_of (Some target) (checkout_of_pin o' pin)]"
  using assms unfolding clone_pinned_def
  by (auto dest!: act_bind_Ok git_run_Ok checkout_pinned_Ok)


definition tag_clone :: git_clone_options where
  "tag_clone = \<lparr>co_branch = Some ''work'', co_commit = None, co_tag = Some ''v1'', co_depth = Some 1,
     co_credentials = None\<rparr>"

definition always_ok :: "unit runner" where
  "always_ok w s = (w, Ok (result_new Exited (Some 0) 0))"


end
