(* ===== verification/Identifiers.thy ===== *)
theory Identifiers
  imports Errors
begin

section \<open>Validated identifiers (id.rs)\<close>

text \<open>
  The identifier newtypes differ only in the rule that checks and normalises their text. A newtype
  is its text; \<open>try_new\<close> is the only way to obtain one, also when one is read from the wire.
\<close>

record invalid_id =
  iv_kind :: string
  iv_value :: string
  iv_reason :: string

definition invalid_id_new :: "string \<Rightarrow> string \<Rightarrow> string \<Rightarrow> invalid_id" where
  "invalid_id_new kind v reason = \<lparr>iv_kind = kind, iv_value = v, iv_reason = reason\<rparr>"

definition max_id_len :: nat where
  "max_id_len = 256"

definition validate_id :: "string \<Rightarrow> string \<Rightarrow> (invalid_id, string) result" where
  "validate_id kind v =
     (if v = [] then Err (invalid_id_new kind v ''must not be empty'')
      else if max_id_len < length v then Err (invalid_id_new kind v ''exceeds 256 bytes'')
      else if list_ex (\<lambda>c. char_is_control c \<or> char_is_whitespace c) (chars v)
      then Err (invalid_id_new kind v ''must not contain whitespace or control characters'')
      else Ok v)"

definition validate_label :: "string \<Rightarrow> string \<Rightarrow> nat \<Rightarrow> (invalid_id, unit) result" where
  "validate_label kind v max_len =
     (if v = [] then Err (invalid_id_new kind v ''must not be empty'')
      else if max_len < length v then Err (invalid_id_new kind v (''exceeds '' @ show_nat max_len @ '' bytes''))
      else if \<not> list_all (\<lambda>b. is_ascii_lowercase b \<or> is_ascii_digit b \<or> b = CHR ''-'') v \<or>
              hd v = CHR ''-'' \<or> last v = CHR ''-''
      then Err (invalid_id_new kind v ''must be lowercase ASCII letters, digits, and interior hyphens'')
      else Ok ())"

definition validate_kind :: "string \<Rightarrow> string \<Rightarrow> (invalid_id, string) result" where
  "validate_kind kind v = bind_result (validate_label kind v 64) (\<lambda>_. Ok v)"

definition validate_sha256 :: "string \<Rightarrow> string \<Rightarrow> (invalid_id, string) result" where
  "validate_sha256 kind v =
     (if length v \<noteq> 64 \<or> \<not> list_all is_ascii_hexdigit v
      then Err (invalid_id_new kind v ''must be exactly 64 hexadecimal digits'')
      else Ok (to_ascii_lowercase v))"

text \<open>The nine newtypes, with the kind named in their error and their rule.\<close>

datatype id_type =
    SandboxId | SnapshotId | VolumeId | ServiceId | ProviderName | EnvironmentName | NamespaceId
  | ProviderKind | Sha256Digest

definition id_kind :: "id_type \<Rightarrow> string" where
  "id_kind t = (case t of
     SandboxId \<Rightarrow> ''sandbox id'' | SnapshotId \<Rightarrow> ''snapshot id'' | VolumeId \<Rightarrow> ''volume id''
   | ServiceId \<Rightarrow> ''service id'' | ProviderName \<Rightarrow> ''provider name''
   | EnvironmentName \<Rightarrow> ''environment name'' | NamespaceId \<Rightarrow> ''namespace id''
   | ProviderKind \<Rightarrow> ''provider kind'' | Sha256Digest \<Rightarrow> ''sha256 digest'')"

definition try_new :: "id_type \<Rightarrow> string \<Rightarrow> (invalid_id, string) result" where
  "try_new t v =
     (case t of ProviderKind \<Rightarrow> validate_kind (id_kind t) v
              | Sha256Digest \<Rightarrow> validate_sha256 (id_kind t) v
              | _ \<Rightarrow> validate_id (id_kind t) v)"

subsection \<open>What a value of each type is\<close>

definition well_typed :: "id_type \<Rightarrow> string \<Rightarrow> bool" where
  "well_typed t v \<longleftrightarrow>
     (case t of
        ProviderKind \<Rightarrow> v \<noteq> [] \<and> length v \<le> 64 \<and> hd v \<noteq> CHR ''-'' \<and> last v \<noteq> CHR ''-'' \<and>
          (\<forall>b\<in>set v. is_ascii_lowercase b \<or> is_ascii_digit b \<or> b = CHR ''-'')
      | Sha256Digest \<Rightarrow> length v = 64 \<and> (\<forall>b\<in>set v. is_ascii_digit b \<or> byte_in 97 102 b)
      | _ \<Rightarrow> v \<noteq> [] \<and> length v \<le> 256 \<and> (\<forall>c\<in>set (chars v). \<not> char_is_control c \<and> \<not> char_is_whitespace c))"

lemma validate_id_Ok:
  "validate_id kind v = Ok w \<longleftrightarrow> w = v \<and> v \<noteq> [] \<and> length v \<le> 256 \<and>
     (\<forall>c\<in>set (chars v). \<not> char_is_control c \<and> \<not> char_is_whitespace c)"
  by (auto simp: validate_id_def max_id_len_def list_ex_iff)

lemma validate_kind_Ok: "validate_kind kind v = Ok w \<longleftrightarrow> w = v \<and> well_typed ProviderKind v"
  by (auto simp: validate_kind_def validate_label_def well_typed_def list_all_iff bind_result_Ok_iff)

lemma ascii_lower_hex: "is_ascii_hexdigit b \<Longrightarrow> is_ascii_digit (ascii_lower b) \<or> byte_in 97 102 (ascii_lower b)"
  by (auto simp: ascii_lower_def ascii_defs)

lemma ascii_lower_fixed: "is_ascii_digit b \<or> byte_in 97 102 b \<Longrightarrow> ascii_lower b = b \<and> is_ascii_hexdigit b"
  by (auto simp: ascii_lower_def ascii_defs)

lemma validate_sha256_Ok:
  "validate_sha256 kind v = Ok w \<longleftrightarrow> length v = 64 \<and> list_all is_ascii_hexdigit v \<and> w = to_ascii_lowercase v"
  by (auto simp: validate_sha256_def)

lemma well_typed_sha256:
  "length v = 64 \<Longrightarrow> list_all is_ascii_hexdigit v \<Longrightarrow> well_typed Sha256Digest (to_ascii_lowercase v)"
  by (auto simp: well_typed_def to_ascii_lowercase_def list_all_iff dest: ascii_lower_hex)

lemma try_new_sha256_id: "well_typed Sha256Digest v \<Longrightarrow> try_new Sha256Digest v = Ok v"
  using ascii_lower_fixed by (auto simp: try_new_def validate_sha256_Ok well_typed_def to_ascii_lowercase_def
      list_all_iff intro!: map_idI [symmetric])

text \<open>
  C32. The validated identifiers are a type: whatever text a newtype is made from or read from the
  wire, the value stored satisfies the rule of its type, and every text that satisfies the rule is
  a value that serialising and reading again leaves unchanged.
\<close>

theorem identifiers_typed:
  "(\<forall>v w. try_new t v = Ok w \<longrightarrow> well_typed t w \<and> try_new t w = Ok w) \<and>
   (\<forall>w. well_typed t w \<longrightarrow> try_new t w = Ok w)"
proof -
  have some: "well_typed t w \<Longrightarrow> try_new t w = Ok w" for w
  proof (cases t)
    case Sha256Digest
    then show "well_typed t w \<Longrightarrow> ?thesis" by (simp add: try_new_sha256_id)
  qed (simp_all add: try_new_def validate_kind_Ok, simp_all add: validate_id_Ok well_typed_def)
  have "try_new t v = Ok w \<Longrightarrow> well_typed t w" for v w
    by (cases t) (auto simp: try_new_def validate_kind_Ok validate_sha256_Ok well_typed_sha256,
        auto simp: validate_id_Ok well_typed_def)
  with some show ?thesis by blast
qed

theorem identifiers_typed_witness:
  "try_new Sha256Digest (replicate 64 (CHR ''A'')) = Ok (replicate 64 (CHR ''a'')) \<and>
   try_new Sha256Digest (replicate 64 (CHR ''a'')) = Ok (replicate 64 (CHR ''a''))"
proof -
  have lower: "ascii_lower (CHR ''A'') = CHR ''a''"
    by (simp add: ascii_lower_def ascii_defs byte_eq_iff)
  then have "try_new Sha256Digest (replicate 64 (CHR ''A'')) = Ok (replicate 64 (CHR ''a''))"
    by (simp add: try_new_def validate_sha256_def to_ascii_lowercase_def ascii_defs list_all_iff)
  with identifiers_typed [of Sha256Digest] show ?thesis by blast
qed

end
