(* ===== verification/Wait.thy ===== *)
theory Wait
  imports Errors
begin

section \<open>Waiting for a state (wait.rs)\<close>

text \<open>
  Two polling loops that may run for ever: they are partial functions whose value is \<open>None\<close> when
  they never return. The world is a parameter: what the provider answers to the \<open>k\<close>th description
  and how long after the start that answer is there. Both loops are instances of one shape, whose
  facts are proved in a locale.
\<close>

text \<open>\<open>SandboxStatus\<close>: the fields the loops read, and the rest of the description.\<close>

record 'x sandbox_status =
  status_id :: string
  status_state :: sandbox_state
  status_error_reason :: "string option"
  status_rest :: 'x

record wait_options =
  wait_interval :: duration
  wait_deadline :: "duration option"

definition wait_default :: wait_options where
  "wait_default = \<lparr>wait_interval = from_secs 1, wait_deadline = Some (from_secs 120)\<rparr>"

definition state_debug :: "sandbox_state \<Rightarrow> string" where
  "state_debug s = (case s of
     Creating \<Rightarrow> ''Creating'' | Starting \<Rightarrow> ''Starting'' | Running \<Rightarrow> ''Running''
   | Stopping \<Rightarrow> ''Stopping'' | Stopped \<Rightarrow> ''Stopped'' | Pausing \<Rightarrow> ''Pausing''
   | Paused \<Rightarrow> ''Paused'' | Resuming \<Rightarrow> ''Resuming'' | Archiving \<Rightarrow> ''Archiving''
   | Archived \<Rightarrow> ''Archived'' | Restoring \<Rightarrow> ''Restoring'' | Resizing \<Rightarrow> ''Resizing''
   | Forking \<Rightarrow> ''Forking'' | Snapshotting \<Rightarrow> ''Snapshotting'' | Deleting \<Rightarrow> ''Deleting''
   | Deleted \<Rightarrow> ''Deleted'' | StateError \<Rightarrow> ''Error'' | StateUnknown \<Rightarrow> ''Unknown'')"

text \<open>\<open>describe k\<close> is the answer to attempt \<open>k\<close>, \<open>elapsed k\<close> the time since the start when it came.\<close>

type_synonym 'x describes = "nat \<Rightarrow> (error, 'x sandbox_status) result"

partial_function (option) wait_stable_from ::
    "'x describes \<Rightarrow> (nat \<Rightarrow> duration) \<Rightarrow> wait_options \<Rightarrow> nat \<Rightarrow> (error, 'x sandbox_status) result option" where
  "wait_stable_from describe elapsed options k =
     (case describe k of
        Err e \<Rightarrow> Some (Err e)
      | Ok status \<Rightarrow>
          if is_stable (status_state status) then Some (Ok status)
          else if (case wait_deadline options of None \<Rightarrow> False | Some d \<Rightarrow> d \<le> elapsed k)
          then Some (Err (Timeout ''waiting for a stable state'' (elapsed k)))
          else wait_stable_from describe elapsed options (Suc k))"

definition wait_for_stable_state ::
    "'x describes \<Rightarrow> (nat \<Rightarrow> duration) \<Rightarrow> wait_options \<Rightarrow> (error, 'x sandbox_status) result option" where
  "wait_for_stable_state describe elapsed options = wait_stable_from describe elapsed options 0"

definition reached :: "sandbox_state \<Rightarrow> sandbox_state \<Rightarrow> bool" where
  "reached target s \<longleftrightarrow> s = target \<or> target = Stopped \<and> s = Deleted"

definition error_state :: "'x sandbox_status \<Rightarrow> error" where
  "error_state status = Provider (provider_error_new ''unknown''
     (case status_error_reason status of None \<Rightarrow> ''sandbox entered the error state'' | Some r \<Rightarrow> r))"

partial_function (option) wait_state_from ::
    "'x describes \<Rightarrow> (nat \<Rightarrow> duration) \<Rightarrow> sandbox_state \<Rightarrow> wait_options \<Rightarrow> nat \<Rightarrow>
     (error, 'x sandbox_status) result option" where
  "wait_state_from describe elapsed target options k =
     (case describe k of
        Err e \<Rightarrow> Some (Err e)
      | Ok status \<Rightarrow>
          if reached target (status_state status) then Some (Ok status)
          else if status_state status = StateError then Some (Err (error_state status))
          else if (case wait_deadline options of None \<Rightarrow> False | Some d \<Rightarrow> d \<le> elapsed k)
          then Some (Err (Timeout (''waiting for state '' @ state_debug target) (elapsed k)))
          else wait_state_from describe elapsed target options (Suc k))"

definition wait_for_state ::
    "'x describes \<Rightarrow> (nat \<Rightarrow> duration) \<Rightarrow> sandbox_state \<Rightarrow> wait_options \<Rightarrow>
     (error, 'x sandbox_status) result option" where
  "wait_for_state describe elapsed target options = wait_state_from describe elapsed target options 0"

subsection \<open>The shape of both loops\<close>

locale polling =
  fixes loop :: "nat \<Rightarrow> 'r option" and answer :: "nat \<Rightarrow> 'r option"
  assumes loop_unfold: "loop k = (case answer k of Some r \<Rightarrow> Some r | None \<Rightarrow> loop (Suc k))"
begin

text \<open>The first attempt that has an answer decides.\<close>

lemma loop_first:
  assumes "answer (k + n) = Some r" and "\<forall>i<n. answer (k + i) = None"
  shows "loop k = Some r"
  using assms
proof (induction n arbitrary: k)
  case 0
  then show ?case by (simp add: loop_unfold [of k])
next
  case (Suc n)
  have "answer k = None" using Suc.prems(2) by fastforce
  moreover have "loop (Suc k) = Some r"
    using Suc.prems by (intro Suc.IH) (auto dest: spec [of _ "Suc _"])
  ultimately show ?case by (simp add: loop_unfold [of k])
qed

lemma loop_returns:
  assumes "answer (k + n) \<noteq> None"
  shows "\<exists>m\<le>n. \<exists>r. loop k = Some r \<and> answer (k + m) = Some r \<and> (\<forall>i<m. answer (k + i) = None)"
proof -
  define m where "m = (LEAST i. answer (k + i) \<noteq> None)"
  have m: "answer (k + m) \<noteq> None" unfolding m_def using assms by (rule LeastI)
  have "m \<le> n" unfolding m_def using assms by (rule Least_le)
  moreover have "\<forall>i<m. answer (k + i) = None" unfolding m_def using not_less_Least by blast
  moreover from m obtain r where "answer (k + m) = Some r" by auto
  ultimately show ?thesis using loop_first by blast
qed

end

text \<open>What one turn of each loop answers.\<close>

definition late :: "wait_options \<Rightarrow> duration \<Rightarrow> bool" where
  "late options t \<longleftrightarrow> (case wait_deadline options of None \<Rightarrow> False | Some d \<Rightarrow> d \<le> t)"

definition stable_answer ::
    "'x describes \<Rightarrow> (nat \<Rightarrow> duration) \<Rightarrow> wait_options \<Rightarrow> nat \<Rightarrow> (error, 'x sandbox_status) result option" where
  "stable_answer describe elapsed options k =
     (case describe k of
        Err e \<Rightarrow> Some (Err e)
      | Ok status \<Rightarrow>
          if is_stable (status_state status) then Some (Ok status)
          else if late options (elapsed k) then Some (Err (Timeout ''waiting for a stable state'' (elapsed k)))
          else None)"

definition state_answer ::
    "'x describes \<Rightarrow> (nat \<Rightarrow> duration) \<Rightarrow> sandbox_state \<Rightarrow> wait_options \<Rightarrow> nat \<Rightarrow>
     (error, 'x sandbox_status) result option" where
  "state_answer describe elapsed target options k =
     (case describe k of
        Err e \<Rightarrow> Some (Err e)
      | Ok status \<Rightarrow>
          if reached target (status_state status) then Some (Ok status)
          else if status_state status = StateError then Some (Err (error_state status))
          else if late options (elapsed k)
          then Some (Err (Timeout (''waiting for state '' @ state_debug target) (elapsed k)))
          else None)"

lemma state_answer_None:
  "state_answer describe elapsed target options k = None \<longleftrightarrow>
     (\<exists>s. describe k = Ok s \<and> \<not> reached target (status_state s) \<and> status_state s \<noteq> StateError \<and>
        \<not> late options (elapsed k))"
  by (cases "describe k") (simp_all add: state_answer_def)

lemma state_answer_Some:
  "state_answer describe elapsed target options k = Some r \<Longrightarrow>
   (case r of
      Ok s \<Rightarrow> describe k = Ok s \<and> reached target (status_state s)
    | Err e \<Rightarrow> describe k = Err e \<or>
        (\<exists>s. describe k = Ok s \<and> \<not> reached target (status_state s) \<and>
          (status_state s = StateError \<and> e = error_state s \<or>
           e = Timeout (''waiting for state '' @ state_debug target) (elapsed k) \<and> late options (elapsed k))))"
  by (cases "describe k"; cases r) (auto simp: state_answer_def split: if_splits)

lemma stable_answer_Some_Ok:
  "stable_answer describe elapsed options k = Some (Ok s) \<Longrightarrow> is_stable (status_state s)"
  by (cases "describe k") (auto simp: stable_answer_def split: if_splits)

interpretation stable_wait: polling "wait_stable_from describe elapsed options" "stable_answer describe elapsed options"
  by unfold_locales (subst wait_stable_from.simps, simp add: stable_answer_def late_def split: sum.split)

interpretation state_wait: polling "wait_state_from describe elapsed target options"
    "state_answer describe elapsed target options"
  by unfold_locales (subst wait_state_from.simps, simp add: state_answer_def late_def split: sum.split)

subsection \<open>Termination and honesty\<close>

text \<open>The clock: attempt \<open>k + 1\<close> is answered at least one interval after attempt \<open>k\<close>.\<close>

definition sleeps :: "wait_options \<Rightarrow> (nat \<Rightarrow> duration) \<Rightarrow> bool" where
  "sleeps options elapsed \<longleftrightarrow> (\<forall>k. elapsed k + wait_interval options \<le> elapsed (Suc k))"

lemma sleeps_le: "sleeps options elapsed \<Longrightarrow> k * wait_interval options \<le> elapsed k"
proof (induction k)
  case (Suc k)
  then have "k * wait_interval options + wait_interval options \<le> elapsed (Suc k)"
    by (meson add_le_mono1 le_trans sleeps_def)
  then show ?case by simp
qed simp

lemma late_after:
  assumes "sleeps options elapsed" and "0 < wait_interval options" and "wait_deadline options = Some d"
  shows "late options (elapsed (d div wait_interval options + 1))"
proof -
  let ?i = "wait_interval options"
  have "d < (d div ?i + 1) * ?i"
    using assms(2) by (metis add.commute div_mult_mod_eq mod_less_divisor mult_Suc nat_add_left_cancel_less plus_1_eq_Suc)
  also have "\<dots> \<le> elapsed (d div ?i + 1)" by (rule sleeps_le [OF assms(1)])
  finally show ?thesis by (simp add: late_def assms(3))
qed

text \<open>
  C31. With a deadline and a positive polling interval, waiting for a state terminates, after at
  most the deadline divided by the interval, plus two, descriptions. What it returns is decided by
  the first description that settles the matter: the sandbox reached the target (a vanished
  sandbox counting as stopped), it failed, the provider could not describe it, or the deadline
  has really passed.
\<close>

theorem wait_for_state_terminates:
  assumes "wait_deadline options = Some d" and "0 < wait_interval options" and "sleeps options elapsed"
  shows "\<exists>r k. wait_for_state describe elapsed target options = Some r \<and>
    k \<le> d div wait_interval options + 1 \<and>
    (\<forall>i<k. \<exists>s. describe i = Ok s \<and> \<not> reached target (status_state s) \<and> status_state s \<noteq> StateError \<and> elapsed i < d) \<and>
    (case r of
       Ok s \<Rightarrow> describe k = Ok s \<and> reached target (status_state s)
     | Err e \<Rightarrow> describe k = Err e \<or>
         (\<exists>s. describe k = Ok s \<and> \<not> reached target (status_state s) \<and>
           (status_state s = StateError \<and> e = error_state s \<or>
            e = Timeout (''waiting for state '' @ state_debug target) (elapsed k) \<and> d \<le> elapsed k)))"
proof -
  let ?answer = "state_answer describe elapsed target options"
  have "?answer (0 + (d div wait_interval options + 1)) \<noteq> None"
    using late_after [OF assms(3,2,1)] by (auto simp: state_answer_def split: sum.splits)
  from state_wait.loop_returns [OF this]
  obtain k r where k: "k \<le> d div wait_interval options + 1" "wait_for_state describe elapsed target options = Some r"
    "?answer k = Some r" "\<forall>i<k. ?answer i = None"
    by (auto simp: wait_for_state_def)
  have late: "late options t \<longleftrightarrow> d \<le> t" for t by (simp add: late_def assms(1))
  have "\<forall>i<k. \<exists>s. describe i = Ok s \<and> \<not> reached target (status_state s) \<and> status_state s \<noteq> StateError \<and> elapsed i < d"
    using k(4) unfolding state_answer_None late by (auto simp: not_le)
  with k(1,2) state_answer_Some [OF k(3)] show ?thesis unfolding late by blast
qed

text \<open>A sandbox that is running at the third look.\<close>

definition third_look :: "unit describes" where
  "third_look k = Ok \<lparr>status_id = ''s'', status_state = (if k < 2 then Starting else Running),
     status_error_reason = None, status_rest = ()\<rparr>"

theorem wait_for_state_terminates_witness:
  "\<exists>r. wait_for_state third_look (\<lambda>k. k * from_secs 1) Running wait_default = Some r"
  using wait_for_state_terminates [of wait_default "from_secs 120" "\<lambda>k. k * from_secs 1" third_look Running]
  by (auto simp: wait_default_def sleeps_def)

text \<open>The other loop terminates under the same conditions, and without a deadline as soon as some
  description is stable.\<close>

lemma wait_for_stable_state_returns:
  assumes "wait_deadline options = Some d" and "0 < wait_interval options" and "sleeps options elapsed"
  shows "wait_for_stable_state describe elapsed options \<noteq> None"
proof -
  have "stable_answer describe elapsed options (0 + (d div wait_interval options + 1)) \<noteq> None"
    using late_after [OF assms(3,2,1)] by (auto simp: stable_answer_def split: sum.splits)
  from stable_wait.loop_returns [OF this] show ?thesis by (auto simp: wait_for_stable_state_def)
qed

lemma wait_for_stable_state_settles:
  assumes "describe n = Ok s" and "is_stable (status_state s)"
  shows "\<exists>r. wait_for_stable_state describe elapsed options = Some r \<and>
    (\<forall>t. r = Ok t \<longrightarrow> is_stable (status_state t))"
proof -
  have "stable_answer describe elapsed options (0 + n) \<noteq> None" using assms by (simp add: stable_answer_def)
  from stable_wait.loop_returns [OF this] show ?thesis
    unfolding wait_for_stable_state_def by (metis stable_answer_Some_Ok)
qed

end
