(* ===== verification/Host_Registry.thy ===== *)
theory Host_Registry
  imports Identifiers Wait "HOL-Library.AList"
begin

section \<open>The host provider's durable records (sandbox-driver-host/src/registry.rs)\<close>

text \<open>
  The registry is a directory with one directory per sandbox, which holds the record. The part of
  the file system below the root is an association list in directory order. How a record is
  written as JSON and read back is a parameter, and so is every failure of the file system: a
  stage of an operation fails when the environment says so.
\<close>

record ('w, 'm) host_record =
  rec_version :: nat
  rec_id :: string
  rec_name :: "string option"
  rec_workspace :: string
  rec_ownership :: 'w
  rec_env :: 'm
  rec_labels :: 'm
  rec_state :: sandbox_state
  rec_created_at :: nat

text \<open>An entry below the root: a directory of files, or something else.\<close>

datatype entry = RegDir "(string \<times> bytes) list" | RegOther

type_synonym registry_root = "(string \<times> entry) list option"

definition starts_absolute :: "string \<Rightarrow> bool" where
  "starts_absolute p \<longleftrightarrow> starts_with ''/'' p"

definition missing :: "string \<Rightarrow> error" where
  "missing i = NotFound ResSandbox i"

definition id_chars_ok :: "string \<Rightarrow> bool" where
  "id_chars_ok i \<longleftrightarrow> starts_with ''host-'' i \<and> list_all (\<lambda>b. is_ascii_alphanumeric b \<or> b = CHR ''-'') i"

text \<open>The directory of a sandbox, by its name below the root.\<close>

definition resource_dir :: "string \<Rightarrow> (error, string) result" where
  "resource_dir i = (if \<not> id_chars_ok i then Err (missing i) else Ok i)"

definition resource_path :: "string \<Rightarrow> string \<Rightarrow> (error, string) result" where
  "resource_path root i = bind_result (resource_dir i) (\<lambda>name. Ok (root @ ''/'' @ name))"

definition record_file :: string where
  "record_file = ''record.json''"

text \<open>\<open>fresh_id\<close>, from the clock's nanoseconds, the process and the counter.\<close>

fun show_hex :: "nat \<Rightarrow> string" where
  "show_hex n =
     (let d = n mod 16; c = byte_of (if d < 10 then 48 + d else 87 + d) in
      if n < 16 then [c] else show_hex (n div 16) @ [c])"

definition fresh_id :: "nat \<Rightarrow> nat \<Rightarrow> nat \<Rightarrow> string" where
  "fresh_id nanos pid counter = ''g'' @ show_hex nanos @ ''-'' @ show_nat pid @ ''-'' @ show_nat counter"

subsection \<open>Reading\<close>

definition io_other :: "string \<Rightarrow> io_error" where
  "io_other message = \<lparr>io_kind = ''Other'', io_chain = [message]\<rparr>"

definition read_file :: "registry_root \<Rightarrow> string \<Rightarrow> string \<Rightarrow> (io_error, bytes) result" where
  "read_file root name file =
     (case root of
        None \<Rightarrow> Err \<lparr>io_kind = ''NotFound'', io_chain = [''No such file or directory'']\<rparr>
      | Some es \<Rightarrow>
          (case map_of es name of
             None \<Rightarrow> Err \<lparr>io_kind = ''NotFound'', io_chain = [''No such file or directory'']\<rparr>
           | Some RegOther \<Rightarrow> Err \<lparr>io_kind = ''NotADirectory'', io_chain = [''Not a directory'']\<rparr>
           | Some (RegDir fls) \<Rightarrow>
               ok_or (map_of fls file) \<lparr>io_kind = ''NotFound'', io_chain = [''No such file or directory'']\<rparr>))"

text \<open>\<open>read\<close>; \<open>device\<close> is a failure of the read itself.\<close>

definition read_record ::
    "(bytes \<Rightarrow> (io_error, ('w, 'm) host_record) result) \<Rightarrow> (string \<Rightarrow> io_error option) \<Rightarrow> registry_root \<Rightarrow> string \<Rightarrow>
     (error, ('w, 'm) host_record) result" where
  "read_record dec device root i =
     bind_result (resource_dir i) (\<lambda>name.
       case (case device i of Some e \<Rightarrow> Err e | None \<Rightarrow> read_file root name record_file) of
         Err e \<Rightarrow> Err (if io_kind e = ''NotFound'' then missing i else Io ''reading host sandbox record'' e)
       | Ok bytes \<Rightarrow>
           (case dec bytes of
              Err e \<Rightarrow> Err (Io ''decoding host sandbox record'' e)
            | Ok r \<Rightarrow>
                if rec_version r \<noteq> 1 \<or> rec_id r \<noteq> i \<or> \<not> starts_absolute (rec_workspace r)
                then Err (Io ''invalid host sandbox record'' (io_other ''record identity, version, or workspace differs''))
                else Ok r))"

primrec records_of ::
    "(bytes \<Rightarrow> (io_error, ('w, 'm) host_record) result) \<Rightarrow> (string \<Rightarrow> io_error option) \<Rightarrow> registry_root \<Rightarrow>
     (string \<times> entry) list \<Rightarrow> (error, ('w, 'm) host_record list) result" where
  "records_of dec device root [] = Ok []"
| "records_of dec device root (x # es) =
     (if snd x = RegOther then records_of dec device root es
      else case try_new SandboxId (fst x) of
        Err _ \<Rightarrow> records_of dec device root es
      | Ok i \<Rightarrow>
          (case read_record dec device root i of
             Ok r \<Rightarrow> bind_result (records_of dec device root es) (\<lambda>rs. Ok (r # rs))
           | Err e \<Rightarrow>
               (case e of NotFound _ _ \<Rightarrow> records_of dec device root es | _ \<Rightarrow> Err e)))"

definition records ::
    "(bytes \<Rightarrow> (io_error, ('w, 'm) host_record) result) \<Rightarrow> (string \<Rightarrow> io_error option) \<Rightarrow> registry_root \<Rightarrow>
     (error, ('w, 'm) host_record list) result" where
  "records dec device root = (case root of None \<Rightarrow> Ok [] | Some es \<Rightarrow> records_of dec device root es)"

subsection \<open>Writing\<close>

datatype write_stage = MakeDir | CreateTmp | WriteTmp | SyncTmp | RenameTmp | OpenDir | SyncDir

text \<open>The environment: which stage fails, and how many bytes a failing write leaves behind.\<close>

record write_faults =
  stage_fails :: "write_stage \<Rightarrow> io_error option"
  partial_bytes :: nat

definition private_directory :: "write_faults \<Rightarrow> registry_root \<Rightarrow> string \<Rightarrow> registry_root \<times> (error, unit) result" where
  "private_directory w root name =
     (case stage_fails w MakeDir of
        Some e \<Rightarrow> (root, Err (Io ''creating host registry directory'' e))
      | None \<Rightarrow>
          (let es = (case root of None \<Rightarrow> [] | Some es \<Rightarrow> es) in
           case map_of es name of
             None \<Rightarrow> (Some (es @ [(name, RegDir [])]), Ok ())
           | Some (RegDir _) \<Rightarrow> (Some es, Ok ())
           | Some RegOther \<Rightarrow>
               (root, Err (Io ''creating host registry directory''
                  \<lparr>io_kind = ''AlreadyExists'', io_chain = [''File exists'']\<rparr>))))"

definition files_of :: "registry_root \<Rightarrow> string \<Rightarrow> (string \<times> bytes) list" where
  "files_of root name =
     (case root of None \<Rightarrow> [] | Some es \<Rightarrow> (case map_of es name of Some (RegDir fls) \<Rightarrow> fls | _ \<Rightarrow> []))"

definition set_files :: "string \<Rightarrow> (string \<times> bytes) list \<Rightarrow> registry_root \<Rightarrow> registry_root" where
  "set_files name fls root = map_option (AList.update name (RegDir fls)) root"

definition put_file :: "string \<Rightarrow> string \<Rightarrow> bytes \<Rightarrow> registry_root \<Rightarrow> registry_root" where
  "put_file name file bytes root = set_files name (AList.update file bytes (files_of root name)) root"

definition rename_file :: "string \<Rightarrow> string \<Rightarrow> string \<Rightarrow> registry_root \<Rightarrow> registry_root" where
  "rename_file name old new root =
     (case map_of (files_of root name) old of
        None \<Rightarrow> root
      | Some bytes \<Rightarrow> set_files name (AList.update new bytes (AList.delete old (files_of root name))) root)"

definition write_record ::
    "(('w, 'm) host_record \<Rightarrow> (io_error, bytes) result) \<Rightarrow> write_faults \<Rightarrow> string \<Rightarrow> registry_root \<Rightarrow>
     ('w, 'm) host_record \<Rightarrow> registry_root \<times> (error, unit) result" where
  "write_record enc w fresh root0 r =
     (case resource_dir (rec_id r) of
        Err e \<Rightarrow> (root0, Err e)
      | Ok name \<Rightarrow>
          (case private_directory w root0 name of
             (root, Err e) \<Rightarrow> (root, Err e)
           | (root, Ok _) \<Rightarrow>
               (let path = fresh @ ''.tmp'' in
                case enc r of
                  Err e \<Rightarrow> (root, Err (Io ''encoding host sandbox record'' e))
                | Ok bytes \<Rightarrow>
                    if stage_fails w CreateTmp \<noteq> None
                    then (root, Err (Io ''creating host sandbox record'' (the (stage_fails w CreateTmp))))
                    else if map_of (files_of root name) path \<noteq> None
                    then (root, Err (Io ''creating host sandbox record''
                            \<lparr>io_kind = ''AlreadyExists'', io_chain = [''File exists'']\<rparr>))
                    else if stage_fails w WriteTmp \<noteq> None
                    then (put_file name path (take (partial_bytes w) bytes) root,
                          Err (Io ''writing host sandbox record'' (the (stage_fails w WriteTmp))))
                    else (let root = put_file name path bytes root in
                      if stage_fails w SyncTmp \<noteq> None
                      then (root, Err (Io ''syncing host sandbox record'' (the (stage_fails w SyncTmp))))
                      else if stage_fails w RenameTmp \<noteq> None
                      then (root, Err (Io ''publishing host sandbox record'' (the (stage_fails w RenameTmp))))
                      else (let root = rename_file name path record_file root in
                        if stage_fails w OpenDir \<noteq> None
                        then (root, Err (Io ''opening host registry directory'' (the (stage_fails w OpenDir))))
                        else if stage_fails w SyncDir \<noteq> None
                        then (root, Err (Io ''syncing host registry directory'' (the (stage_fails w SyncDir))))
                        else (root, Ok ()))))))"

subsection \<open>Files below the root\<close>

definition is_dir :: "registry_root \<Rightarrow> string \<Rightarrow> bool" where
  "is_dir root name \<longleftrightarrow> (\<exists>es fls. root = Some es \<and> map_of es name = Some (RegDir fls))"

lemma read_file_dir:
  "is_dir root name \<Longrightarrow> read_file root name f =
     ok_or (map_of (files_of root name) f) \<lparr>io_kind = ''NotFound'', io_chain = [''No such file or directory'']\<rparr>"
  by (auto simp: is_dir_def read_file_def files_of_def)

lemma map_of_update: "map_of (AList.update k v al) k' = (if k' = k then Some v else map_of al k')"
  by (simp add: update_conv')

lemma set_files_reads:
  assumes "is_dir root name"
  shows "is_dir (set_files name fls root) name"
    "read_file (set_files name fls root) n f =
       (if n = name then ok_or (map_of fls f) \<lparr>io_kind = ''NotFound'', io_chain = [''No such file or directory'']\<rparr>
        else read_file root n f)"
  using assms by (auto simp: is_dir_def set_files_def read_file_def map_of_update)

lemma private_directory_Ok:
  assumes "private_directory w root name = (root', Ok u)"
  shows "is_dir root' name" "read_file root' n f = read_file root n f"
  using assms by (auto simp: private_directory_def Let_def is_dir_def read_file_def map_add_def
      split: option.splits entry.splits if_splits)

lemma private_directory_Err: "private_directory w root name = (root', Err e) \<Longrightarrow> root' = root"
  by (auto simp: private_directory_def Let_def split: option.splits entry.splits)

lemma put_file_reads:
  assumes "is_dir root name"
  shows "is_dir (put_file name p b root) name"
    "read_file (put_file name p b root) n f = (if n = name \<and> f = p then Ok b else read_file root n f)"
  using assms by (auto simp: put_file_def set_files_reads read_file_dir map_of_update)

lemma rename_file_reads:
  assumes "is_dir root name" and "read_file root name old = Ok b" and "f \<noteq> old"
  shows "read_file (rename_file name old new root) n f = (if n = name \<and> f = new then Ok b else read_file root n f)"
proof -
  have "map_of (files_of root name) old = Some b"
    using assms(1,2) by (cases "map_of (files_of root name) old") (simp_all add: read_file_dir)
  then show ?thesis
    using assms(1,3) by (auto simp: rename_file_def set_files_reads read_file_dir map_of_update delete_conv')
qed

subsection \<open>A write is published whole or not at all\<close>

lemma tmp_not_record: "fresh_id a b c @ ''.tmp'' \<noteq> record_file"
  by (simp add: fresh_id_def record_file_def)

text \<open>The record files as every reader sees them.\<close>

definition published :: "registry_root \<Rightarrow> string \<Rightarrow> (io_error, bytes) result" where
  "published root i = read_file root i record_file"

lemma write_record_published:
  assumes "write_record enc w (fresh_id a b c) root r = (root', res)"
  shows "(\<forall>i. published root' i = published root i) \<and> res \<noteq> Ok () \<or>
    (\<exists>bytes. enc r = Ok bytes \<and> id_chars_ok (rec_id r) \<and>
       (\<forall>i. published root' i = (if i = rec_id r then Ok bytes else published root i)))"
proof (cases "resource_dir (rec_id r)")
  case (Inl e)
  with assms show ?thesis by (auto simp: write_record_def)
next
  case (Inr name)
  then have name: "name = rec_id r" "id_chars_ok (rec_id r)" by (auto simp: resource_dir_def split: if_splits)
  let ?tmp = "fresh_id a b c @ ''.tmp''"
  note tmp = tmp_not_record [of a b c]
  obtain root1 p where dir: "private_directory w root name = (root1, p)" by (metis prod.exhaust)
  show ?thesis
  proof (cases p)
    case (Inl e)
    with assms Inr dir private_directory_Err [of w root name root1 e] show ?thesis by (auto simp: write_record_def)
  next
    case (Inr u)
    note ok = private_directory_Ok [OF dir [unfolded Inr]]
    have pub1: "published root1 i = published root i" for i by (simp add: published_def ok(2))
    have put: "published (put_file name ?tmp bs root1) i = published root i" for bs i
      using tmp by (auto simp: published_def put_file_reads [OF ok(1)] ok(2))
    have written: "read_file (put_file name ?tmp bs root1) name ?tmp = Ok bs" for bs
      by (simp add: put_file_reads [OF ok(1)])
    have ren: "published (rename_file name ?tmp record_file (put_file name ?tmp bs root1)) i =
        (if i = rec_id r then Ok bs else published root i)" for bs i
      using rename_file_reads [OF put_file_reads(1) [OF ok(1)] written [of bs], where f = record_file and new = record_file and n = i] tmp
      by (auto simp: published_def put_file_reads(2) [OF ok(1)] ok(2) simp flip: name(1))
    have dirOk: "resource_dir (rec_id r) = Ok name" using \<open>resource_dir (rec_id r) = Ok name\<close> .
    from assms dirOk dir Inr pub1 put ren name(2) show ?thesis
      by (cases "enc r") (auto simp: write_record_def Let_def split: if_splits)
  qed
qed

lemma read_record_published:
  "published root' i = published root i \<Longrightarrow> read_record dec device root' i = read_record dec device root i"
  unfolding read_record_def resource_dir_def published_def by (cases "id_chars_ok i"; cases "device i") simp_all

definition valid_record :: "('w, 'm) host_record \<Rightarrow> bool" where
  "valid_record r \<longleftrightarrow> rec_version r = 1 \<and> starts_absolute (rec_workspace r)"

text \<open>
  C30. Writing a host record is atomic to readers: wherever the write fails, however many bytes a
  failing write left, every other sandbox reads as before, and the sandbox itself reads either as
  before or as the new record, never as something in between; a write that reports success reads
  back as the record written.
\<close>

theorem host_record_write_atomic:
  assumes "write_record enc w (fresh_id nanos pid counter) root r = (root', res)"
    and "valid_record r" and "\<And>bytes. enc r = Ok bytes \<Longrightarrow> dec bytes = Ok r"
  shows "(\<forall>i. i \<noteq> rec_id r \<longrightarrow> read_record dec device root' i = read_record dec device root i) \<and>
    (read_record dec device root' (rec_id r) = read_record dec device root (rec_id r) \<or>
     read_record dec device root' (rec_id r) = Ok r) \<and>
    (res = Ok () \<and> device (rec_id r) = None \<longrightarrow> read_record dec device root' (rec_id r) = Ok r)"
  using write_record_published [OF assms(1)]
proof (elim disjE exE conjE)
  assume "\<forall>i. published root' i = published root i" "res \<noteq> Ok ()"
  then show ?thesis using read_record_published [of root' _ root dec device] by simp
next
  fix bytes
  assume enc: "enc r = Ok bytes" "id_chars_ok (rec_id r)"
    and pub: "\<forall>i. published root' i = (if i = rec_id r then Ok bytes else published root i)"
  have "read_record dec device root' i = read_record dec device root i" if "i \<noteq> rec_id r" for i
    using pub that by (intro read_record_published) simp
  moreover have "read_record dec device root' (rec_id r) = Ok r" if "device (rec_id r) = None"
    using pub that enc assms(2) assms(3) [OF enc(1)]
    by (simp add: read_record_def resource_dir_def published_def [symmetric] valid_record_def)
  moreover have "read_record dec device root' (rec_id r) = read_record dec device root (rec_id r)"
    if "device (rec_id r) \<noteq> None"
    using that by (auto simp: read_record_def)
  ultimately show ?thesis by blast
qed

text \<open>The codec of the witness keeps the record in the environment of one test.\<close>

definition sample_record :: "(unit, unit) host_record" where
  "sample_record = \<lparr>rec_version = 1, rec_id = ''host-1'', rec_name = None, rec_workspace = ''/w'',
     rec_ownership = (), rec_env = (), rec_labels = (), rec_state = Running, rec_created_at = 0\<rparr>"

theorem host_record_write_atomic_witness:
  "read_record (\<lambda>_. Ok sample_record) (\<lambda>_. None)
     (fst (write_record (\<lambda>_. Ok ''json'') \<lparr>stage_fails = \<lambda>_. None, partial_bytes = 0\<rparr> (fresh_id 7 1 0) None sample_record))
     ''host-1'' = Ok sample_record"
proof -
  let ?out = "write_record (\<lambda>_. Ok ''json'') \<lparr>stage_fails = \<lambda>_. None, partial_bytes = 0\<rparr> (fresh_id 7 1 0) None sample_record"
  have "valid_record sample_record"
    by (simp add: valid_record_def sample_record_def starts_absolute_def starts_with_def)
  moreover have "id_chars_ok ''host-1''"
    by (simp add: id_chars_ok_def starts_with_def ascii_defs)
  then have "snd ?out = Ok ()"
    by (simp add: write_record_def resource_dir_def sample_record_def private_directory_def files_of_def
        Let_def)
  then obtain root' where out: "?out = (root', Ok ())" by (metis prod.collapse)
  ultimately show ?thesis
    using host_record_write_atomic [OF out, of "\<lambda>_. Ok sample_record" "\<lambda>_. None"]
    by (simp add: sample_record_def [THEN arg_cong [of _ _ rec_id], simplified])
qed

subsection \<open>The listing\<close>

lemma resource_dir_plain: "resource_dir i = Ok name \<Longrightarrow> name = i \<and> CHR ''/'' \<notin> set name \<and> CHR ''.'' \<notin> set name"
  by (auto simp: resource_dir_def id_chars_ok_def list_all_iff ascii_defs split: if_splits)

lemma read_record_Ok:
  assumes "read_record dec device root i = Ok r"
  shows "rec_id r = i \<and> (\<exists>es fls. root = Some es \<and> map_of es i = Some (RegDir fls))"
proof -
  have "id_chars_ok i" using assms by (auto simp: read_record_def resource_dir_def split: if_splits)
  moreover from this obtain bytes where "read_file root i record_file = Ok bytes" "rec_id r = i"
    using assms by (cases "device i"; cases "read_file root i record_file")
      (auto simp: read_record_def resource_dir_def split: sum.splits if_splits)
  ultimately show ?thesis
    by (auto simp: read_file_def split: option.splits entry.splits)
qed

definition candidates :: "(string \<times> entry) list \<Rightarrow> string list" where
  "candidates es = map fst (filter (\<lambda>x. snd x \<noteq> RegOther \<and> well_typed SandboxId (fst x)) es)"

lemma try_new_sandbox: "try_new SandboxId v = Ok i \<longleftrightarrow> i = v \<and> well_typed SandboxId v"
  by (auto simp: try_new_def validate_id_Ok well_typed_def)

lemma records_of_ids:
  "records_of dec device root es = Ok rs \<Longrightarrow>
   (\<forall>r\<in>set rs. read_record dec device root (rec_id r) = Ok r) \<and>
   map rec_id rs = filter (\<lambda>i. \<exists>r. read_record dec device root i = Ok r) (candidates es)"
proof (induction es arbitrary: rs)
  case (Cons x es)
  show ?case
  proof (cases "snd x = RegOther \<or> \<not> well_typed SandboxId (fst x)")
    case True
    then have "candidates (x # es) = candidates es" by (auto simp: candidates_def)
    moreover have "records_of dec device root es = Ok rs"
    proof (cases "snd x = RegOther")
      case False
      with True obtain e where "try_new SandboxId (fst x) = Err e"
        using try_new_sandbox [of "fst x"] by (cases "try_new SandboxId (fst x)") auto
      with Cons.prems False show ?thesis by simp
    qed (use Cons.prems in simp)
    ultimately show ?thesis using Cons.IH by simp
  next
    case False
    then have c: "candidates (x # es) = fst x # candidates es" by (simp add: candidates_def)
    have new: "try_new SandboxId (fst x) = Ok (fst x)" using False by (simp add: try_new_sandbox)
    show ?thesis
    proof (cases "read_record dec device root (fst x)")
      case (Inr r)
      with Cons False new c read_record_Ok [OF Inr] show ?thesis by (auto simp: bind_result_Ok_iff)
    next
      case (Inl e)
      with Cons.prems False new have "records_of dec device root es = Ok rs" by (auto split: error.splits)
      with Cons.IH c Inl show ?thesis by simp
    qed
  qed
qed (simp add: candidates_def)

text \<open>
  Listing the registry returns exactly the records that reading each sandbox would return, each
  sandbox once.
\<close>

lemma records_complete:
  assumes "records dec device root = Ok rs" and "\<And>es. root = Some es \<Longrightarrow> distinct (map fst es)"
  shows "set rs = {r. \<exists>i. well_typed SandboxId i \<and> read_record dec device root i = Ok r} \<and> distinct (map rec_id rs)"
proof (cases root)
  case None
  with assms(1) read_record_Ok [of dec device root] show ?thesis by (fastforce simp: records_def)
next
  case (Some es)
  with assms(1) have "records_of dec device root es = Ok rs" by (simp add: records_def)
  note ids = records_of_ids [OF this]
  have "distinct (candidates es)"
    using assms(2) [OF Some] unfolding candidates_def by (rule distinct_map_filter)
  then have "distinct (map rec_id rs)" using ids by simp
  moreover have "r \<in> set rs" if r: "read_record dec device root i = Ok r" and "well_typed SandboxId i" for i r
  proof -
    obtain fls where "map_of es i = Some (RegDir fls)" using read_record_Ok [OF r] Some by auto
    then have "(i, RegDir fls) \<in> set es" by (rule map_of_SomeD)
    then have "i \<in> set (candidates es)" using that(2) by (force simp: candidates_def)
    then have "i \<in> set (map rec_id rs)" using ids r by auto
    then obtain r' where "r' \<in> set rs" "rec_id r' = i" by auto
    then show ?thesis using ids r by force
  qed
  moreover have "well_typed SandboxId (rec_id r)" if "r \<in> set rs" for r
  proof -
    have "rec_id r \<in> set (map rec_id rs)" using that by simp
    then show ?thesis using ids by (auto simp: candidates_def)
  qed
  ultimately show ?thesis using ids by blast
qed

end
