(* ===== verification/Derived_Fs.thy ===== *)
theory Derived_Fs
  imports Acts Shell "HOL-Library.List_Lexorder" "HOL-Library.Char_ord"
begin

section \<open>Files over exec (derived/fs.rs)\<close>

text \<open>
  The filesystem a sandbox gets when its provider has none: each operation is a Bash script. The
  scripts are built as in the source and what they print is parsed as in the source; what Bash and
  the tools do with a script belongs to the exec parameter.
\<close>

definition dq :: byte where "dq = CHR 0x22"

definition fs_timeout :: duration where "fs_timeout = from_secs 60"

definition write_chunk_bytes :: nat where "write_chunk_bytes = 64 * 1024"

definition fs_run :: "'w runner \<Rightarrow> string \<Rightarrow> string \<Rightarrow> ('w, exec_result) act" where
  "fs_run ex label command = bash_run ex fs_timeout label command"

definition fs_do :: "'w runner \<Rightarrow> string \<Rightarrow> string \<Rightarrow> ('w, unit) act" where
  "fs_do ex label command = act_map (\<lambda>_. ()) (fs_run ex label command)"

datatype file_kind = KindFile | KindDirectory | KindSymlink | KindOther

definition parse_kind :: "string \<Rightarrow> file_kind" where
  "parse_kind text =
     (if text = ''regular file'' \<or> text = ''regular empty file'' then KindFile
      else if text = ''directory'' then KindDirectory
      else if text = ''symbolic link'' then KindSymlink else KindOther)"

subsection \<open>Base64\<close>

definition base64_alphabet :: string where
  "base64_alphabet = ''ABCDEFGHIJKLMNOPQRSTUVWXYZabcdefghijklmnopqrstuvwxyz0123456789+/''"

text \<open>Four characters for a chunk of one to three bytes. The bytes take disjoint bits of the
  24-bit group, so shifting and masking are division and remainder.\<close>

definition base64_quad :: "bytes \<Rightarrow> string" where
  "base64_quad chunk =
     (let b0 = byte_val (chunk ! 0);
          b1 = (if 1 < length chunk then byte_val (chunk ! 1) else 0);
          b2 = (if 2 < length chunk then byte_val (chunk ! 2) else 0);
          triple = b0 * 2 ^ 16 + b1 * 2 ^ 8 + b2 in
      [base64_alphabet ! (triple div 2 ^ 18 mod 64), base64_alphabet ! (triple div 2 ^ 12 mod 64),
       if 1 < length chunk then base64_alphabet ! (triple div 2 ^ 6 mod 64) else CHR ''='',
       if 2 < length chunk then base64_alphabet ! (triple mod 64) else CHR ''=''])"

definition base64_encode :: "bytes \<Rightarrow> string" where
  "base64_encode bytes = concat (map base64_quad (chunks_of 3 bytes))"

subsection \<open>Scripts\<close>

definition cat_script :: "string \<Rightarrow> string" where
  "cat_script path = ''cat -- '' @ shell_quote path"

definition range_script :: "string \<Rightarrow> nat \<Rightarrow> nat option \<Rightarrow> string" where
  "range_script path offset len =
     (let quoted = shell_quote path; from = show_nat (min (offset + 1) (2 ^ 64 - 1)) in
      case len of
        Some n \<Rightarrow> ''tail -c +'' @ from @ '' -- '' @ quoted @ '' | head -c '' @ show_nat n
      | None \<Rightarrow> ''tail -c +'' @ from @ '' -- '' @ quoted)"

definition mkdir_script :: "string \<Rightarrow> string" where
  "mkdir_script quoted = ''dir=$(dirname -- '' @ quoted @ ''); mkdir -p -- '' @ [dq] @ ''$dir'' @ [dq]"

definition chunk_script :: "string \<Rightarrow> string \<Rightarrow> bool \<Rightarrow> string \<Rightarrow> string" where
  "chunk_script quoted redirect first encoded =
     (if first then mkdir_script quoted @ '' && '' else []) @ ''printf '' @ [sq] @ ''%s'' @ [sq] @ '' '' @
     [sq] @ encoded @ [sq] @ '' | base64 -d '' @ redirect @ '' '' @ quoted"

text \<open>The scripts of one write, one per chunk; the first truncates the file unless it appends.\<close>

definition write_scripts :: "bool \<Rightarrow> string \<Rightarrow> bytes \<Rightarrow> string list" where
  "write_scripts appending path content =
     (let quoted = shell_quote path in
      if content = []
      then [mkdir_script quoted @ (if appending then '' && touch -- '' else '' && : > '') @ quoted]
      else map (\<lambda>(k, chunk). chunk_script quoted (if appending \<or> 0 < k then ''>>'' else ''>'') (k = 0) (base64_encode chunk))
             (List.enumerate 0 (chunks_of write_chunk_bytes content)))"

definition delete_script :: "string \<Rightarrow> bool \<Rightarrow> string" where
  "delete_script path recursive =
     (let quoted = shell_quote path in
      if recursive then ''rm -rf -- '' @ quoted
      else ''if [ ! -e '' @ quoted @ '' ]; then exit 0; elif [ -d '' @ quoted @ '' ]; then rmdir -- '' @ quoted @
           ''; else rm -f -- '' @ quoted @ ''; fi'')"

definition list_script :: "string \<Rightarrow> nat \<Rightarrow> string" where
  "list_script path depth =
     ''cd -- '' @ shell_quote path @ '' && find . -mindepth 1 -maxdepth '' @ show_nat depth @
     '' -print0 | xargs -0 -r stat --printf '' @ [sq] @ ''%F|%s|%n'' @ [backslash] @ ''0'' @ [sq] @ '' --''"

subsection \<open>The operations\<close>

definition fs_read :: "'w runner \<Rightarrow> string \<Rightarrow> ('w, bytes) act" where
  "fs_read ex path = act_map res_stdout (fs_run ex ''fs read'' (cat_script path))"

definition fs_read_range :: "'w runner \<Rightarrow> string \<Rightarrow> nat \<Rightarrow> nat option \<Rightarrow> ('w, bytes) act" where
  "fs_read_range ex path offset len = act_map res_stdout (fs_run ex ''fs read_range'' (range_script path offset len))"

primrec fs_each :: "'w runner \<Rightarrow> string \<Rightarrow> string list \<Rightarrow> ('w, unit) act" where
  "fs_each ex label [] = act_of (Ok ())"
| "fs_each ex label (c # cs) = act_bind (fs_run ex label c) (\<lambda>_. fs_each ex label cs)"

definition fs_write_append :: "'w runner \<Rightarrow> string \<Rightarrow> bytes \<Rightarrow> ('w, unit) act" where
  "fs_write_append ex path content = fs_each ex ''fs append'' (write_scripts True path content)"

definition fs_write :: "'w runner \<Rightarrow> string \<Rightarrow> bytes \<Rightarrow> ('w, unit) act" where
  "fs_write ex path content = fs_each ex ''fs write'' (write_scripts False path content)"

definition fs_delete :: "'w runner \<Rightarrow> string \<Rightarrow> bool \<Rightarrow> ('w, unit) act" where
  "fs_delete ex path recursive = fs_do ex ''fs delete'' (delete_script path recursive)"

definition fs_exists :: "'w runner \<Rightarrow> string \<Rightarrow> ('w, bool) act" where
  "fs_exists ex path =
     act_map (\<lambda>r. exit_code r = Some 0)
       (\<lambda>w. ex w ((spec_bash (''[ -e '' @ shell_quote path @ '' ]''))\<lparr>timeout := Some fs_timeout\<rparr>))"

definition fs_create_dir :: "'w runner \<Rightarrow> string \<Rightarrow> ('w, unit) act" where
  "fs_create_dir ex path = fs_do ex ''fs create_dir'' (''mkdir -p -- '' @ shell_quote path)"

definition fs_rename :: "'w runner \<Rightarrow> string \<Rightarrow> string \<Rightarrow> ('w, unit) act" where
  "fs_rename ex src dst = fs_do ex ''fs rename'' (''mv -- '' @ shell_quote src @ '' '' @ shell_quote dst)"

fun show_octal :: "nat \<Rightarrow> string" where
  "show_octal n = (if n < 8 then [byte_of (48 + n)] else show_octal (n div 8) @ [byte_of (48 + n mod 8)])"

definition fs_set_permissions :: "'w runner \<Rightarrow> string \<Rightarrow> nat \<Rightarrow> ('w, unit) act" where
  "fs_set_permissions ex path mode =
     fs_do ex ''fs chmod'' (''chmod '' @ show_octal mode @ '' -- '' @ shell_quote path)"

subsection \<open>What the tools print\<close>

record file_metadata =
  fm_kind :: file_kind
  fm_size :: nat
  fm_mode :: "nat option"
  fm_modified_at :: "nat option"

text \<open>\<open>from_str_radix(_, 8)\<close> for 32 bits.\<close>

primrec octal_val :: "nat \<Rightarrow> string \<Rightarrow> nat" where
  "octal_val acc [] = acc"
| "octal_val acc (d # ds) = octal_val (8 * acc + (byte_val d - 48)) ds"

definition parse_octal :: "string \<Rightarrow> nat option" where
  "parse_octal s =
     (let ds = (case s of x # xs \<Rightarrow> if x = CHR ''+'' then xs else s | [] \<Rightarrow> s)
      in if ds = [] \<or> \<not> list_all (byte_in 48 55) ds then None
         else if octal_val 0 ds < 2 ^ 32 then Some (octal_val 0 ds) else None)"

text \<open>The debug rendering of the unparsed text is a parameter.\<close>

definition parse_metadata :: "(string \<Rightarrow> string) \<Rightarrow> string \<Rightarrow> (error, file_metadata) result" where
  "parse_metadata dbg text =
     (case splitn 4 (CHR ''|'') (trim text) of
        [kind, sz, mode, mtime] \<Rightarrow>
          Ok \<lparr>fm_kind = parse_kind kind,
             fm_size = (case parse_unsigned 64 sz of None \<Rightarrow> 0 | Some n \<Rightarrow> n),
             fm_mode = parse_octal mode, fm_modified_at = parse_unsigned 64 mtime\<rparr>
      | _ \<Rightarrow> Err (InvalidSpec ''stat'' (''unparseable output: '' @ dbg text)))"

definition fs_metadata :: "(string \<Rightarrow> string) \<Rightarrow> 'w runner \<Rightarrow> string \<Rightarrow> ('w, file_metadata) act" where
  "fs_metadata dbg ex path =
     act_bind (fs_run ex ''fs metadata'' (''stat -c '' @ [sq] @ ''%F|%s|%a|%Y'' @ [sq] @ '' -- '' @ shell_quote path))
       (\<lambda>r. act_of (parse_metadata dbg (stdout_lossy r)))"

record dir_entry =
  de_path :: string
  de_kind :: file_kind
  de_size :: "nat option"

definition parse_entry :: "string \<Rightarrow> dir_entry option" where
  "parse_entry line =
     (case splitn 3 (CHR ''|'') line of
        [kind, sz, name] \<Rightarrow>
          Some \<lparr>de_path = (case strip_prefix ''./'' name of Some p \<Rightarrow> p | None \<Rightarrow> name),
               de_kind = parse_kind kind,
               de_size = (if parse_kind kind = KindFile then parse_unsigned 64 sz else None)\<rparr>
      | _ \<Rightarrow> None)"

definition parse_listing :: "string \<Rightarrow> dir_entry list" where
  "parse_listing text = sort_key de_path (List.map_filter parse_entry (split_on (CHR 0x00) text))"

definition fs_list_dir :: "'w runner \<Rightarrow> string \<Rightarrow> nat \<Rightarrow> ('w, dir_entry list) act" where
  "fs_list_dir ex path depth =
     act_map (\<lambda>r. parse_listing (stdout_lossy r)) (fs_run ex ''fs list_dir'' (list_script path depth))"

text \<open>Transfers: reading and writing the local file are parameters.\<close>

definition fs_upload :: "'w runner \<Rightarrow> (io_error, bytes) result \<Rightarrow> string \<Rightarrow> string \<Rightarrow> ('w, unit) act" where
  "fs_upload ex local_read local remote =
     (case local_read of
        Err e \<Rightarrow> act_of (Err (Io (''reading '' @ local) e))
      | Ok content \<Rightarrow> fs_write ex remote content)"

definition fs_download ::
    "'w runner \<Rightarrow> (io_error, unit) result option \<Rightarrow> (bytes \<Rightarrow> (io_error, unit) result) \<Rightarrow> string \<Rightarrow> string \<Rightarrow>
     ('w, unit) act" where
  "fs_download ex make_parent local_write remote local =
     act_bind (fs_read ex remote) (\<lambda>content.
       case make_parent of
         Some (Err e) \<Rightarrow> act_of (Err (Io (''creating parent of '' @ local) e))
       | _ \<Rightarrow>
           (case local_write content of
              Err e \<Rightarrow> act_of (Err (Io (''writing '' @ local) e))
            | Ok _ \<Rightarrow> act_of (Ok ())))"

subsection \<open>Base64 decodes\<close>

text \<open>The decoder of RFC 4648, as the \<open>base64 -d\<close> of the sandbox.\<close>

definition b64_value :: "byte \<Rightarrow> nat option" where
  "b64_value c =
     (if is_ascii_uppercase c then Some (byte_val c - 65)
      else if is_ascii_lowercase c then Some (byte_val c - 71)
      else if is_ascii_digit c then Some (byte_val c + 4)
      else if c = CHR ''+'' then Some 62 else if c = CHR ''/'' then Some 63 else None)"

fun rfc4648 :: "string \<Rightarrow> bytes option" where
  "rfc4648 [] = Some []"
| "rfc4648 (a # b # c # d # rest) =
     (case (b64_value a, b64_value b) of
        (Some i, Some j) \<Rightarrow>
          if d = CHR ''=''
          then (if rest \<noteq> [] then None
                else if c = CHR ''='' then Some [byte_of (i * 4 + j div 16)]
                else case b64_value c of
                  None \<Rightarrow> None
                | Some k \<Rightarrow> Some [byte_of (i * 4 + j div 16), byte_of (j mod 16 * 16 + k div 4)])
          else (case (b64_value c, b64_value d) of
                  (Some k, Some l) \<Rightarrow>
                    map_option (\<lambda>bs. byte_of (i * 4 + j div 16) # byte_of (j mod 16 * 16 + k div 4) #
                                     byte_of (k mod 4 * 64 + l) # bs) (rfc4648 rest)
                | _ \<Rightarrow> None)
      | _ \<Rightarrow> None)"
| "rfc4648 _ = None"

lemma alphabet_values: "map b64_value base64_alphabet = map Some [0..<64]"
  by (simp add: base64_alphabet_def b64_value_def ascii_defs upt_rec)

lemma length_alphabet: "length base64_alphabet = 64"
  by (simp add: base64_alphabet_def)

lemma alphabet_value [simp]: "i < 64 \<Longrightarrow> b64_value (base64_alphabet ! i) = Some i"
  using arg_cong [OF alphabet_values, of "\<lambda>xs. xs ! i"] by (simp add: length_alphabet)

lemma alphabet_char: "i < 64 \<Longrightarrow> base64_alphabet ! i \<noteq> CHR ''='' \<and> base64_alphabet ! i \<noteq> sq"
  using alphabet_value [of i] by (auto simp: b64_value_def ascii_defs sq_def split: if_splits)

lemma triple_parts:
  fixes b0 b1 b2 :: nat
  assumes "b0 < 256" "b1 < 256" "b2 < 256"
  shows "(b0 * 2 ^ 16 + b1 * 2 ^ 8 + b2) div 2 ^ 18 mod 64 = b0 div 4"
    and "(b0 * 2 ^ 16 + b1 * 2 ^ 8 + b2) div 2 ^ 12 mod 64 = b0 mod 4 * 16 + b1 div 16"
    and "(b0 * 2 ^ 16 + b1 * 2 ^ 8 + b2) div 2 ^ 6 mod 64 = b1 mod 16 * 4 + b2 div 64"
    and "(b0 * 2 ^ 16 + b1 * 2 ^ 8 + b2) mod 64 = b2 mod 64"
proof -
  let ?x = "b0 * 2 ^ 16 + b1 * 2 ^ 8 + b2"
  have d8: "?x div 2 ^ 8 = b0 * 2 ^ 8 + b1"
    using assms by (simp add: div_nat_eqI)
  have d16: "?x div 2 ^ 16 = b0"
    using assms by (simp add: div_nat_eqI)
  have "?x div 2 ^ 18 = ?x div 2 ^ 16 div 4" using div_mult2_eq [of ?x "2 ^ 16" 4] by simp
  then show "?x div 2 ^ 18 mod 64 = b0 div 4" unfolding d16 using assms by simp
  have "?x div 2 ^ 12 = ?x div 2 ^ 8 div 16" using div_mult2_eq [of ?x "2 ^ 8" 16] by simp
  then have "?x div 2 ^ 12 = b0 * 16 + b1 div 16" unfolding d8 by simp
  then have "?x div 2 ^ 12 mod 64 = (b0 * 16 + b1 div 16) mod 64" by simp
  also have "b0 * 16 + b1 div 16 = b0 mod 4 * 16 + b1 div 16 + 64 * (b0 div 4)"
    using div_mult_mod_eq [of b0 4] by linarith
  also have "\<dots> mod 64 = (b0 mod 4 * 16 + b1 div 16) mod 64" by (rule mod_mult_self2)
  also have "\<dots> = b0 mod 4 * 16 + b1 div 16" by (rule mod_less) (use assms in linarith)
  finally show "?x div 2 ^ 12 mod 64 = b0 mod 4 * 16 + b1 div 16" .
  have sixth: "?x div 2 ^ 6 = b0 * 1024 + b1 * 4 + b2 div 64" by simp
  have b1: "n * 4 = n mod 16 * 4 + 64 * (n div 16)" for n :: nat by presburger
  have "?x div 2 ^ 6 mod 64 = (b0 * 1024 + b1 * 4 + b2 div 64) mod 64" using sixth by simp
  also have "b0 * 1024 + b1 * 4 + b2 div 64 = b1 mod 16 * 4 + b2 div 64 + 64 * (b0 * 16 + b1 div 16)"
    using b1 [of b1] by (simp only: add_mult_distrib2)
  also have "\<dots> mod 64 = (b1 mod 16 * 4 + b2 div 64) mod 64" by (rule mod_mult_self2)
  also have "\<dots> = b1 mod 16 * 4 + b2 div 64" by (rule mod_less) (use assms in linarith)
  finally show "?x div 2 ^ 6 mod 64 = b1 mod 16 * 4 + b2 div 64" .
  have "?x = b2 + 64 * (b0 * 1024 + b1 * 4)" by simp
  then show "?x mod 64 = b2 mod 64" by (simp only: mod_mult_self2)
qed

lemma b64_low:
  "byte_val b div 4 < 64" "byte_val b mod 4 * 16 + byte_val c div 16 < 64"
  "byte_val b mod 16 * 4 + byte_val c div 64 < 64" "byte_val b mod 64 < 64"
  using byte_val_lt [of b] byte_val_lt [of c] by linarith+

lemma b64_join:
  "byte_of (byte_val b div 4 * 4 + (byte_val b mod 4 * 16 + byte_val c div 16) div 16) = b"
  "k < 4 \<Longrightarrow> byte_of ((byte_val b mod 4 * 16 + byte_val c div 16) mod 16 * 16 + (byte_val c mod 16 * 4 + k) div 4) = c"
  "byte_of ((byte_val b mod 16 * 4 + byte_val c div 64) mod 4 * 64 + byte_val c mod 64) = c"
proof -
  have "byte_val c div 16 < 16" "byte_val c div 64 < 4" using byte_val_lt [of c] by linarith+
  then show "byte_of (byte_val b div 4 * 4 + (byte_val b mod 4 * 16 + byte_val c div 16) div 16) = b"
    "k < 4 \<Longrightarrow> byte_of ((byte_val b mod 4 * 16 + byte_val c div 16) mod 16 * 16 + (byte_val c mod 16 * 4 + k) div 4) = c"
    "byte_of ((byte_val b mod 16 * 4 + byte_val c div 64) mod 4 * 64 + byte_val c mod 64) = c"
    by simp_all
qed

lemma rfc4648_quad:
  assumes "chunk \<noteq> []" "length chunk \<le> 3" and "length chunk = 3 \<or> rest = []"
  shows "rfc4648 (base64_quad chunk @ rest) = map_option (\<lambda>bs. chunk @ bs) (rfc4648 rest)"
proof -
  consider b where "chunk = [b]" | b c where "chunk = [b, c]" | b c d where "chunk = [b, c, d]"
    using assms(1,2) by (cases chunk rule: list.exhaust; cases "tl chunk"; cases "tl (tl chunk)"; cases "tl (tl (tl chunk))") auto
  then show ?thesis
  proof cases
    case 1
    let ?v = "byte_val b"
    have "base64_quad chunk = [base64_alphabet ! (?v div 4), base64_alphabet ! (?v mod 4 * 16), CHR ''='', CHR ''='']"
      using triple_parts(1,2) [of ?v 0 0] by (simp add: 1 base64_quad_def Let_def)
    moreover have "?v mod 4 * 16 < 64" by simp
    ultimately show ?thesis
      using 1 assms(3) b64_join(1) [of b "CHR 0x00"] b64_low(1) [of b] by simp
  next
    case 2
    let ?v = "byte_val b" and ?w = "byte_val c"
    have "base64_quad chunk = [base64_alphabet ! (?v div 4), base64_alphabet ! (?v mod 4 * 16 + ?w div 16),
        base64_alphabet ! (?w mod 16 * 4), CHR ''='']"
      using triple_parts(1-3) [of ?v ?w 0] by (simp add: 2 base64_quad_def Let_def)
    moreover have "?w mod 16 * 4 < 64" by simp
    moreover from this have "base64_alphabet ! (?w mod 16 * 4) \<noteq> CHR ''=''" using alphabet_char by blast
    ultimately show ?thesis
      using 2 assms(3) b64_join(1) [of b c] b64_join(2) [of 0 b c] b64_low(1) [of b] b64_low(2) [of b c] by simp
  next
    case 3
    let ?v = "byte_val b" and ?w = "byte_val c" and ?z = "byte_val d"
    have "base64_quad chunk = [base64_alphabet ! (?v div 4), base64_alphabet ! (?v mod 4 * 16 + ?w div 16),
        base64_alphabet ! (?w mod 16 * 4 + ?z div 64), base64_alphabet ! (?z mod 64)]"
      using triple_parts [of ?v ?w ?z] by (simp add: 3 base64_quad_def Let_def)
    moreover have "base64_alphabet ! (?z mod 64) \<noteq> CHR ''=''" using alphabet_char [of "?z mod 64"] by simp
    moreover have "?z div 64 < 4" using byte_val_lt [of d] by linarith
    ultimately show ?thesis
      using 3 b64_join(1) [of b c] b64_join(2) [of "?z div 64" b c] b64_join(3) [of c d]
        b64_low(1) [of b] b64_low(2) [of b c] b64_low(3) [of c d] b64_low(4) [of d]
      by (simp add: option.map_comp comp_def)
  qed
qed

lemma base64_encode_step:
  "base64_encode bs = (if bs = [] then [] else base64_quad (take 3 bs) @ base64_encode (drop 3 bs))"
  by (simp add: base64_encode_def chunks_of.simps [of 3 bs])

lemma base64_decodes: "rfc4648 (base64_encode bs) = Some bs"
proof (induction "length bs" arbitrary: bs rule: less_induct)
  case less
  show ?case
  proof (cases "bs = []")
    case True
    then show ?thesis by (simp add: base64_encode_step)
  next
    case False
    have rest: "length (take 3 bs) = 3 \<or> base64_encode (drop 3 bs) = []"
      by (simp add: base64_encode_step [of "drop 3 bs"] min_def)
    have "rfc4648 (base64_encode bs) = map_option (\<lambda>cs. take 3 bs @ cs) (rfc4648 (base64_encode (drop 3 bs)))"
      using False rfc4648_quad [OF _ _ rest] by (simp add: base64_encode_step [of bs])
    also have "rfc4648 (base64_encode (drop 3 bs)) = Some (drop 3 bs)"
      using less [of "drop 3 bs"] False by simp
    finally show ?thesis by simp
  qed
qed

lemma base64_quad_chars: "length (base64_quad c) = 4" "c \<noteq> [] \<Longrightarrow> sq \<notin> set (base64_quad c)"
proof -
  have "sq \<noteq> base64_alphabet ! (n mod 64)" for n :: nat using alphabet_char [of "n mod 64"] by (simp add: eq_commute)
  moreover have "sq \<noteq> CHR ''=''" by (simp add: sq_def)
  ultimately show "length (base64_quad c) = 4" "c \<noteq> [] \<Longrightarrow> sq \<notin> set (base64_quad c)"
    by (simp_all add: base64_quad_def Let_def)
qed

lemma base64_length: "length (base64_encode bs) = 4 * ((length bs + 2) div 3)"
proof (induction "length bs" arbitrary: bs rule: less_induct)
  case less
  show ?case
  proof (cases "bs = []")
    case False
    then have "length (base64_encode bs) = 4 + 4 * ((length bs - 3 + 2) div 3)"
      using less [of "drop 3 bs"] by (simp add: base64_encode_step [of bs] base64_quad_chars)
    also have "\<dots> = 4 * ((length bs + 2) div 3)"
    proof -
      consider "length bs = 1" | "length bs = 2" | m where "length bs = m + 3"
        using False by (metis One_nat_def add.commute le_Suc_ex length_0_conv less_2_cases not_less_eq_eq
            numeral_2_eq_2 numeral_3_eq_3 not_le less_Suc_eq)
      then show ?thesis
      proof cases
        case (3 m)
        have "(m + 2 + 3) div 3 = (m + 2) div 3 + 1" by (rule div_add_self2) simp
        then show ?thesis by (simp add: 3 add.commute add.left_commute)
      qed simp_all
    qed
    finally show ?thesis .
  qed (simp add: base64_encode_step)
qed

lemma base64_no_quote: "sq \<notin> set (base64_encode bs)"
proof -
  have "\<forall>c\<in>set (chunks_of n xs). c \<noteq> []" for n xs
    by (induction n xs rule: chunks_of.induct) (subst chunks_of.simps, auto)
  then show ?thesis using base64_quad_chars(2) by (auto simp: base64_encode_def)
qed

lemma chunk_script_length: "length (chunk_script q r f p) \<le> length p + 2 * length q + length r + 80"
  by (simp add: chunk_script_def mkdir_script_def)

lemma enumerate_map: "List.enumerate n (map f xs) = map (\<lambda>(k, x). (k, f x)) (List.enumerate n xs)"
  by (induction xs arbitrary: n) simp_all

text \<open>
  A file written over exec arrives whole: whatever its bytes, the scripts of a write carry, in
  order, base64 text that decodes to consecutive pieces of the content and joins to all of it; the
  text is one quoted word; only the first script may truncate the file, and no script grows past
  what one argument of a Linux process may hold, unless the path itself is enormous.
\<close>

lemma derived_write_scripts:
  assumes "content \<noteq> []" and "s = write_scripts appending path content"
  shows "\<exists>payloads. s = map (\<lambda>(k, p). chunk_script (shell_quote path) (if appending \<or> 0 < k then ''>>'' else ''>'') (k = 0) p)
      (List.enumerate 0 payloads) \<and>
    list_all (\<lambda>p. rfc4648 p \<noteq> None \<and> sq \<notin> set p) payloads \<and>
    concat (map (the \<circ> rfc4648) payloads) = content \<and>
    (length (shell_quote path) \<le> 20000 \<longrightarrow> list_all (\<lambda>t. length t < 131072) s)"
proof -
  let ?chunks = "chunks_of write_chunk_bytes content"
  let ?payloads = "map base64_encode ?chunks"
  have pos: "0 < write_chunk_bytes" by (simp add: write_chunk_bytes_def)
  note sound = chunks_of_sound [OF pos, of content]
  have s: "s = map (\<lambda>(k, p). chunk_script (shell_quote path) (if appending \<or> 0 < k then ''>>'' else ''>'') (k = 0) p)
      (List.enumerate 0 ?payloads)"
    using assms by (simp add: write_scripts_def Let_def enumerate_map case_prod_unfold comp_def)
  have small: "length p \<le> 87384" if "p \<in> set ?payloads" for p
  proof -
    from that obtain c where "c \<in> set ?chunks" "p = base64_encode c" by auto
    with sound(2) have "length c \<le> 65536" "length p = 4 * ((length c + 2) div 3)"
      by (auto simp: list_all_iff write_chunk_bytes_def base64_length)
    then show ?thesis by linarith
  qed
  have shape: "\<exists>r f p. t = chunk_script (shell_quote path) r f p \<and> p \<in> set ?payloads \<and> length r \<le> 2"
    if "t \<in> set s" for t
  proof -
    from that obtain k p where kp: "(k, p) \<in> set (List.enumerate 0 ?payloads)"
      and t: "t = chunk_script (shell_quote path) (if appending \<or> 0 < k then ''>>'' else ''>'') (k = 0) p"
      unfolding s by auto
    have "p \<in> set (map snd (List.enumerate 0 ?payloads))" using imageI [OF kp, of snd] by (simp only: set_map snd_conv)
    then have "p \<in> set ?payloads" by (simp only: map_snd_enumerate)
    moreover have "length (if appending \<or> 0 < k then ''>>'' else ''>'') \<le> 2" by simp
    ultimately show ?thesis using t by blast
  qed
  have "length t < 131072" if "t \<in> set s" "length (shell_quote path) \<le> 20000" for t
  proof -
    from shape [OF that(1)] obtain r f p where "t = chunk_script (shell_quote path) r f p" "p \<in> set ?payloads" "length r \<le> 2"
      by blast
    then have "length t \<le> length p + 2 * length (shell_quote path) + length r + 80" "length p \<le> 87384" "length r \<le> 2"
      using chunk_script_length small by blast+
    with that(2) show ?thesis by linarith
  qed
  with s sound(1) show ?thesis
    by (intro exI [of _ ?payloads]) (auto simp: list_all_iff base64_decodes base64_no_quote comp_def)
qed

lemma derived_write_scripts_witness:
  "\<exists>payloads. write_scripts False ''f'' ''hi'' =
      map (\<lambda>(k, p). chunk_script (shell_quote ''f'') (if False \<or> 0 < k then ''>>'' else ''>'') (k = 0) p) (List.enumerate 0 payloads) \<and>
    concat (map (the \<circ> rfc4648) payloads) = ''hi''"
  using derived_write_scripts [of "''hi''" "write_scripts False ''f'' ''hi''" False "''f''"] by blast

subsection \<open>Listings\<close>

text \<open>One entry as \<open>stat\<close> prints it: the kind's name, the size, and the path below the directory.\<close>

definition stat_line :: "string \<times> nat \<times> string \<Rightarrow> string" where
  "stat_line x = (case x of (kind, sz, name) \<Rightarrow> kind @ ''|'' @ show_nat sz @ ''|./'' @ name)"

definition stat_ok :: "string \<times> nat \<times> string \<Rightarrow> bool" where
  "stat_ok x \<longleftrightarrow> (case x of (kind, sz, name) \<Rightarrow>
     CHR ''|'' \<notin> set kind \<and> CHR 0x00 \<notin> set kind \<and> sz < 2 ^ 64 \<and> CHR 0x00 \<notin> set name)"

definition stat_entry :: "string \<times> nat \<times> string \<Rightarrow> dir_entry" where
  "stat_entry x = (case x of (kind, sz, name) \<Rightarrow>
     \<lparr>de_path = name, de_kind = parse_kind kind, de_size = (if parse_kind kind = KindFile then Some sz else None)\<rparr>)"

lemma show_nat_free: "CHR ''|'' \<notin> set (show_nat n)" "CHR 0x00 \<notin> set (show_nat n)"
  by (rule show_nat_no; simp add: ascii_defs)+

lemma parse_stat_line: "stat_ok x \<Longrightarrow> parse_entry (stat_line x) = Some (stat_entry x)"
  by (cases x) (simp add: stat_ok_def stat_line_def stat_entry_def parse_entry_def numeral_3_eq_3 show_nat_free)

lemma split_on_records:
  "\<forall>x\<in>set xs. c \<notin> set x \<Longrightarrow> split_on c (concat (map (\<lambda>x. x @ [c]) xs)) = xs @ [[]]"
  by (induction xs) (simp_all add: split_on_append)

lemma listing_roundtrip:
  assumes "list_all stat_ok xs"
  shows "parse_listing (concat (map (\<lambda>x. stat_line x @ [CHR 0x00]) xs)) = sort_key de_path (map stat_entry xs)"
proof -
  have "\<forall>l\<in>set (map stat_line xs). CHR 0x00 \<notin> set l"
    using assms by (auto simp: list_all_iff stat_ok_def stat_line_def show_nat_free split: prod.splits)
  from split_on_records [OF this]
  have split: "split_on (CHR 0x00) (concat (map (\<lambda>x. stat_line x @ [CHR 0x00]) xs)) = map stat_line xs @ [[]]"
    by (simp add: comp_def)
  have "parse_entry [] = None" by (simp add: parse_entry_def numeral_3_eq_3)
  then have "List.map_filter parse_entry (map stat_line xs @ [[]]) = map stat_entry xs"
    using assms by (induction xs) (simp_all add: map_filter_simps parse_stat_line)
  then show ?thesis by (simp add: parse_listing_def split)
qed

end
