(* ===== verification/Derived_Search.thy ===== *)
theory Derived_Search
  imports Derived_Fs
begin

section \<open>Search over exec (derived/search.rs)\<close>

text \<open>
  Searching contents with ripgrep or grep, and walking a tree with find. Whether ripgrep is there
  is asked once and remembered: the remembered answer is part of the state the verbs thread. The
  glob library is a parameter.
\<close>

definition grep_timeout :: duration where "grep_timeout = from_secs 30"
definition walk_timeout :: duration where "walk_timeout = from_secs 30"
definition sigpipe_exit :: int where "sigpipe_exit = 141"

record grep_options =
  go_case_insensitive :: bool
  go_max_matches :: "nat option"
  go_include :: "string option"

record grep_match =
  gm_path :: string
  gm_line_number :: nat
  gm_line :: string

record walk_options =
  wo_max_depth :: "nat option"
  wo_exclude_dirs :: "string list"

definition walk_default :: walk_options where
  "walk_default = \<lparr>wo_max_depth = None, wo_exclude_dirs = []\<rparr>"

record walked_file =
  wf_path :: string
  wf_size :: "nat option"

type_synonym 'w searching = "'w \<times> bool option"

definition on_world :: "('w, 'a) act \<Rightarrow> ('w searching, 'a) act" where
  "on_world m x = (case m (fst x) of (w, r) \<Rightarrow> ((w, snd x), r))"

definition ripgrep_available :: "'w runner \<Rightarrow> ('w searching, bool) act" where
  "ripgrep_available ex x =
     (case snd x of
        Some b \<Rightarrow> (x, Ok b)
      | None \<Rightarrow>
          (case ex (fst x) ((spec_bash ''command -v rg >/dev/null 2>&1'')\<lparr>timeout := Some (from_secs 10)\<rparr>) of
             (w, Ok r) \<Rightarrow> ((w, Some (success r)), Ok (success r))
           | (w, Err _) \<Rightarrow> ((w, Some False), Ok False)))"

definition run_match_command ::
    "'w runner \<Rightarrow> string \<Rightarrow> string \<Rightarrow> duration \<Rightarrow> ('w, exec_result option) act" where
  "run_match_command ex label command limit =
     act_bind (\<lambda>w. ex w ((spec_bash command)\<lparr>timeout := Some limit\<rparr>)) (\<lambda>r.
       act_of
         (if success r \<or> result_termination r = Exited \<and> exit_code r = Some sigpipe_exit then Ok (Some r)
          else if exit_code r = Some 1 then Ok None
          else Err (exec_failed label r)))"

subsection \<open>grep\<close>

definition grep_command :: "bool \<Rightarrow> grep_options \<Rightarrow> string \<Rightarrow> string \<Rightarrow> string" where
  "grep_command rg options pattern path =
     (if rg then ''rg -H --line-number --no-heading --no-messages --null'' else ''grep -rnIH --null'') @
     (if go_case_insensitive options then '' -i'' else []) @
     (case go_max_matches options of None \<Rightarrow> [] | Some m \<Rightarrow> '' -m '' @ show_nat m) @
     (case go_include options of
        None \<Rightarrow> []
      | Some include \<Rightarrow> (if rg then '' --glob '' else '' --include='') @ shell_quote include) @
     '' -e '' @ shell_quote pattern @ '' -- '' @ shell_quote path"

definition grep_script :: "bool \<Rightarrow> grep_options \<Rightarrow> string \<Rightarrow> string \<Rightarrow> string" where
  "grep_script rg options pattern path =
     (case go_max_matches options of
        None \<Rightarrow> grep_command rg options pattern path
      | Some m \<Rightarrow> ''set -o pipefail'' @ [CHR 0x0A] @ grep_command rg options pattern path @ '' | head -n '' @ show_nat m)"

definition parse_grep_line :: "string \<Rightarrow> grep_match option" where
  "parse_grep_line line =
     (case split_once (CHR 0x00) line of
        None \<Rightarrow> None
      | Some (file, rest) \<Rightarrow>
          (case split_once (CHR '':'') rest of
             None \<Rightarrow> None
           | Some (number, content) \<Rightarrow>
               map_option (\<lambda>n. \<lparr>gm_path = file, gm_line_number = n, gm_line = content\<rparr>) (parse_unsigned 64 number)))"

text \<open>The loop over the lines, on the matches so far.\<close>

primrec grep_matches ::
    "exec_result \<Rightarrow> nat option \<Rightarrow> grep_match list \<Rightarrow> string list \<Rightarrow> (error, grep_match list) result" where
  "grep_matches r limit found [] = Ok found"
| "grep_matches r limit found (line # lines) =
     (case parse_grep_line line of
        None \<Rightarrow> Err (exec_failed ''grep output parse'' r)
      | Some m \<Rightarrow>
          (let found = found @ [m] in
           if (case limit of None \<Rightarrow> False | Some n \<Rightarrow> n \<le> length found) then Ok found
           else grep_matches r limit found lines))"

definition search_grep :: "'w runner \<Rightarrow> string \<Rightarrow> string \<Rightarrow> grep_options \<Rightarrow> ('w searching, grep_match list) act" where
  "search_grep ex pattern path options =
     act_bind (ripgrep_available ex) (\<lambda>rg.
       act_bind (on_world (run_match_command ex ''grep'' (grep_script rg options pattern path) grep_timeout)) (\<lambda>out.
         act_of (case out of
           None \<Rightarrow> Ok []
         | Some r \<Rightarrow> grep_matches r (go_max_matches options) [] (str_lines (stdout_lossy r)))))"

subsection \<open>walk and glob\<close>

definition link_check :: "string \<Rightarrow> string" where
  "link_check p = '' && [ ! -L '' @ shell_quote p @ '' ]''"

primrec guard_segments :: "string \<Rightarrow> string list \<Rightarrow> string" where
  "guard_segments prefix [] = []"
| "guard_segments prefix (segment # segments) =
     (let prefix = (if prefix = [] then [] else prefix @ ''/'') @ segment in
      link_check prefix @ guard_segments prefix segments)"

definition symlink_guard :: "string \<Rightarrow> string" where
  "symlink_guard base =
     (if starts_with ''/'' base then link_check base
      else guard_segments [] (filter (\<lambda>s. s \<noteq> []) (split_on (CHR ''/'') base)))"

primrec prune_names :: "bool \<Rightarrow> string list \<Rightarrow> string" where
  "prune_names more_before [] = []"
| "prune_names more_before (dir # dirs) =
     (if more_before then '' -o'' else []) @ '' -name '' @ shell_quote dir @ prune_names True dirs"

definition find_expr :: "walk_options \<Rightarrow> string" where
  "find_expr options =
     ''find -H .'' @
     (case wo_max_depth options of None \<Rightarrow> [] | Some d \<Rightarrow> '' -maxdepth '' @ show_nat d) @
     (if wo_exclude_dirs options = [] then '' -type f''
      else '' '' @ [backslash] @ ''( -type d '' @ [backslash] @ ''('' @ prune_names False (wo_exclude_dirs options) @
           '' '' @ [backslash] @ '') -prune '' @ [backslash] @ '') -o -type f'')"

definition walk_guarded :: "string \<Rightarrow> string \<Rightarrow> string" where
  "walk_guarded base finder =
     ''if [ -d '' @ shell_quote base @ '' ]'' @ symlink_guard base @ ''; then cd '' @ shell_quote base @ '' && '' @
     finder @ ''; fi''"

definition gnu_walk_script :: "string \<Rightarrow> walk_options \<Rightarrow> string" where
  "gnu_walk_script base options =
     walk_guarded base (find_expr options @ '' -printf '' @ [sq] @ ''%s'' @ [backslash] @ ''0%P'' @ [backslash] @ ''0'' @ [sq])"

definition posix_walk_script :: "string \<Rightarrow> walk_options \<Rightarrow> string" where
  "posix_walk_script base options = walk_guarded base (find_expr options @ '' -print0'')"

fun gnu_walk_fields :: "bytes list \<Rightarrow> walked_file list" where
  "gnu_walk_fields (sz # path # rest) =
     (if path = [] then gnu_walk_fields rest
      else \<lparr>wf_path = from_utf8_lossy path, wf_size = parse_unsigned 64 (from_utf8_lossy sz)\<rparr> # gnu_walk_fields rest)"
| "gnu_walk_fields _ = []"

definition parse_gnu_walk :: "bytes \<Rightarrow> walked_file list" where
  "parse_gnu_walk stdout = gnu_walk_fields (split_on (CHR 0x00) stdout)"

definition parse_posix_walk :: "bytes \<Rightarrow> walked_file list" where
  "parse_posix_walk stdout =
     map (\<lambda>path. let text = from_utf8_lossy path in
            \<lparr>wf_path = (case strip_prefix ''./'' text of Some p \<Rightarrow> p | None \<Rightarrow> text), wf_size = None\<rparr>)
       (filter (\<lambda>path. path \<noteq> []) (split_on (CHR 0x00) stdout))"

definition search_walk :: "'w runner \<Rightarrow> string \<Rightarrow> walk_options \<Rightarrow> ('w, walked_file list) act" where
  "search_walk ex base options =
     act_bind (\<lambda>w. ex w ((spec_bash (gnu_walk_script base options))\<lparr>timeout := Some walk_timeout\<rparr>)) (\<lambda>r.
       if success r then act_of (Ok (parse_gnu_walk (res_stdout r)))
       else act_map (\<lambda>r. parse_posix_walk (res_stdout r))
              (bash_run ex walk_timeout ''walk'' (posix_walk_script base options)))"

definition search_glob ::
    "(string \<Rightarrow> (string, string \<Rightarrow> bool) result) \<Rightarrow> 'w runner \<Rightarrow> string \<Rightarrow> string \<Rightarrow> ('w, string list) act" where
  "search_glob compile ex pattern base =
     (case compile pattern of
        Err e \<Rightarrow> act_of (Err (InvalidSpec ''pattern'' e))
      | Ok is_match \<Rightarrow> act_map (\<lambda>files. sort (filter is_match (map wf_path files))) (search_walk ex base walk_default))"

subsection \<open>Properties\<close>

text \<open>A match as the tools print it.\<close>

definition match_line :: "grep_match \<Rightarrow> string" where
  "match_line m = gm_path m @ [CHR 0x00] @ show_nat (gm_line_number m) @ '':'' @ gm_line m"

lemma parse_match_line:
  assumes "CHR 0x00 \<notin> set (gm_path m)" and "gm_line_number m < 2 ^ 64"
  shows "parse_grep_line (match_line m) = Some m"
proof -
  have "CHR '':'' \<notin> set (show_nat (gm_line_number m))" by (rule show_nat_no) (simp add: ascii_defs)
  with assms show ?thesis by (simp add: parse_grep_line_def match_line_def)
qed

lemma grep_matches_print:
  assumes "\<forall>m\<in>set ms. CHR 0x00 \<notin> set (gm_path m) \<and> gm_line_number m < 2 ^ 64"
  shows "grep_matches r None found (map match_line ms) = Ok (found @ ms)"
  using assms by (induction ms arbitrary: found) (simp_all add: parse_match_line)

lemma grep_matches_bounded:
  "grep_matches r (Some n) found lines = Ok ms \<Longrightarrow> length found < n \<Longrightarrow> length ms \<le> n"
  by (induction lines arbitrary: found) (auto simp: Let_def split: option.splits if_splits)

text \<open>
  A search that was stopped (timed out, cancelled, killed) while its exit code reads 1 is reported
  as a search without matches.
\<close>

lemma stopped_search_reads_as_no_match:
  assumes "ex w ((spec_bash (grep_script rg options pattern path))\<lparr>timeout := Some grep_timeout\<rparr>) = (w', Ok r)"
    and "exit_code r = Some 1" and "result_termination r = TimedOut"
  shows "search_grep ex pattern path options (w, Some rg) = ((w', Some rg), Ok [])"
  using assms by (simp add: search_grep_def act_bind_def act_of_def ripgrep_available_def on_world_def
      run_match_command_def success_def sigpipe_exit_def)

text \<open>Likewise a check for a file that was stopped answers that the file is not there.\<close>

lemma stopped_exists_reads_as_absent:
  assumes "ex w ((spec_bash (''[ -e '' @ shell_quote path @ '' ]''))\<lparr>timeout := Some fs_timeout\<rparr>) = (w', Ok r)"
    and "exit_code r = None" and "result_termination r = TimedOut"
  shows "fs_exists ex path w = (w', Ok False)"
  using assms by (simp add: fs_exists_def act_map_def act_bind_def act_of_def)

text \<open>Every accumulated prefix of a relative base is checked for a symbolic link.\<close>

lemma guard_segments_checks:
  "k < length segments \<Longrightarrow> \<forall>s\<in>set segments. s \<noteq> [] \<Longrightarrow>
   contains (link_check ((if prefix = [] then [] else prefix @ ''/'') @ join_with (CHR ''/'') (take (Suc k) segments)))
     (guard_segments prefix segments)"
proof (induction segments arbitrary: prefix k)
  case (Cons s segments)
  let ?p = "(if prefix = [] then [] else prefix @ ''/'') @ s"
  show ?case
  proof (cases k)
    case 0
    then show ?thesis using contains_append [of "link_check ?p" "[]"] by (simp add: Let_def)
  next
    case (Suc j)
    have ne: "?p \<noteq> []" using Cons.prems(2) by simp
    have "contains (link_check (?p @ ''/'' @ join_with (CHR ''/'') (take (Suc j) segments))) (guard_segments ?p segments)"
      using Cons.IH [of j ?p] Cons.prems Suc ne by simp
    then have "contains (link_check (?p @ ''/'' @ join_with (CHR ''/'') (take (Suc j) segments)))
        (link_check ?p @ guard_segments ?p segments @ [])"
      by (rule contains_mono)
    moreover have "take (Suc j) segments \<noteq> []" using Cons.prems(1) Suc by (cases segments) auto
    ultimately show ?thesis using Suc by (simp add: Let_def)
  qed
qed simp

text \<open>A walk reads back whatever file names the tree has.\<close>

lemma show_nat_utf8 [simp]: "utf8_valid (show_nat n)"
  using show_nat_digits [of n] by (intro utf8_valid_ascii) (auto simp: list_all_iff ascii_defs)

lemma gnu_walk_roundtrip:
  assumes "\<forall>(sz, p)\<in>set xs. p \<noteq> [] \<and> CHR 0x00 \<notin> set p \<and> utf8_valid p \<and> sz < 2 ^ 64"
  shows "parse_gnu_walk (concat (map (\<lambda>(sz, p). show_nat sz @ [CHR 0x00] @ p @ [CHR 0x00]) xs)) =
    map (\<lambda>(sz, p). \<lparr>wf_path = p, wf_size = Some sz\<rparr>) xs"
proof -
  have "split_on (CHR 0x00) (concat (map (\<lambda>(sz, p). show_nat sz @ [CHR 0x00] @ p @ [CHR 0x00]) xs)) =
      concat (map (\<lambda>(sz, p). [show_nat sz, p]) xs) @ [[]]"
    using assms by (induction xs) (auto simp: split_on_append show_nat_free)
  moreover have "gnu_walk_fields (concat (map (\<lambda>(sz, p). [show_nat sz, p]) xs) @ [[]]) =
      map (\<lambda>(sz, p). \<lparr>wf_path = p, wf_size = Some sz\<rparr>) xs"
    using assms by (induction xs) auto
  ultimately show ?thesis by (simp add: parse_gnu_walk_def)
qed

end
