(* ===== verification/Derived_Service.thy ===== *)
theory Derived_Service
  imports Derived_Search Identifiers
begin

section \<open>Background services over exec (derived/service.rs)\<close>

text \<open>
  A service is a directory below \<open>/tmp\<close> that the sandbox makes; its name is the service's
  identifier. Callers hand identifiers back, and they are put into scripts without quoting, so
  everything rests on the check of their shape.
\<close>

definition service_timeout :: duration where "service_timeout = from_secs 60"
definition stop_grace_polls :: nat where "stop_grace_polls = 10"
definition port_poll_millis :: nat where "port_poll_millis = 500"
definition service_dir_prefix :: string where "service_dir_prefix = ''sandbox-driver-service-''"

abbreviation lf :: string where "lf \<equiv> [CHR 0x0A]"

definition qd :: "string \<Rightarrow> string" where
  "qd s = [dq] @ s @ [dq]"

definition service_run :: "'w runner \<Rightarrow> string \<Rightarrow> string \<Rightarrow> ('w, exec_result) act" where
  "service_run ex label command = bash_run ex service_timeout label command"

definition is_our_service_id :: "string \<Rightarrow> bool" where
  "is_our_service_id i =
     (case strip_prefix service_dir_prefix i of
        None \<Rightarrow> False
      | Some suffix \<Rightarrow> suffix \<noteq> [] \<and> list_all (\<lambda>c. \<exists>b. c = [b] \<and> is_ascii_alphanumeric b) (chars suffix))"

definition service_dir :: "string \<Rightarrow> string" where
  "service_dir i = ''/tmp/'' @ i"

record service_spec =
  sv_command :: string
  sv_working_dir :: "string option"
  sv_env :: "(string \<times> string) list"

definition supervised :: "string \<Rightarrow> string" where
  "supervised command =
     ''trap '' @ [sq] @ ''echo 143 > '' @ qd ''$SANDBOX_DRIVER_SERVICE_DIR/exit'' @ ''; exit 143'' @ [sq] @ '' TERM'' @ lf @
     ''{ '' @ command @ lf @ ''}; echo $? > '' @ qd ''$SANDBOX_DRIVER_SERVICE_DIR/exit''"

definition spawn_script :: "service_spec \<Rightarrow> string" where
  "spawn_script spec =
     (let quoted = shell_quote (supervised (sv_command spec)) in
      ''dir=$(mktemp -d /tmp/'' @ service_dir_prefix @ ''XXXXXXXXXX) || exit 9'' @ lf @
      (case sv_working_dir spec of None \<Rightarrow> [] | Some dir \<Rightarrow> ''cd -- '' @ shell_quote dir @ '' || exit 8'' @ lf) @
      concat (map (\<lambda>(k, v). ''export '' @ shell_quote k @ ''='' @ shell_quote v @ lf) (sv_env spec)) @
      ''export SANDBOX_DRIVER_SERVICE_DIR='' @ qd ''$dir'' @ lf @
      ''if command -v setsid > /dev/null 2>&1; then'' @ lf @
      ''setsid bash -c '' @ quoted @ '' < /dev/null >> '' @ qd ''$dir/log'' @ '' 2>&1 &'' @ lf @
      ''else'' @ lf @
      ''bash -c '' @ quoted @ '' < /dev/null >> '' @ qd ''$dir/log'' @ '' 2>&1 &'' @ lf @
      ''fi'' @ lf @
      ''echo $! > '' @ qd ''$dir/pid'' @ lf @ ''basename '' @ qd ''$dir'' @ lf)"

text \<open>The debug rendering of a name and the display of a rejected identifier are parameters.\<close>

definition spawned_id ::
    "(string \<Rightarrow> string) \<Rightarrow> (invalid_id \<Rightarrow> string) \<Rightarrow> string \<Rightarrow> (error, string) result" where
  "spawned_id dbg show_invalid stdout =
     (let name = trim (case rev (str_lines (trim stdout)) of [] \<Rightarrow> [] | l # _ \<Rightarrow> l) in
      case try_new ServiceId name of
        Err e \<Rightarrow> Err (InvalidSpec ''service_id'' (show_invalid e))
      | Ok i \<Rightarrow>
          if \<not> is_our_service_id i then Err (InvalidSpec ''service_id'' (''unexpected spawn output '' @ dbg name))
          else Ok i)"

definition service_spawn ::
    "(string \<Rightarrow> string) \<Rightarrow> (invalid_id \<Rightarrow> string) \<Rightarrow> 'w runner \<Rightarrow> service_spec \<Rightarrow> ('w, string) act" where
  "service_spawn dbg show_invalid ex spec =
     act_bind (service_run ex ''service spawn'' (spawn_script spec))
       (\<lambda>r. act_of (spawned_id dbg show_invalid (stdout_lossy r)))"

record service_status =
  ss_id :: string
  ss_running :: bool
  ss_exit_code :: "int option"

text \<open>\<open>str::parse\<close> for a 32-bit signed integer.\<close>

definition parse_i32 :: "string \<Rightarrow> int option" where
  "parse_i32 s =
     (case s of
        c # ds \<Rightarrow>
          if c = CHR ''-''
          then (if ds = [] \<or> \<not> list_all is_ascii_digit ds \<or> 2 ^ 31 < digits_val 0 ds then None
                else Some (- int (digits_val 0 ds)))
          else map_option int (parse_unsigned 31 s)
      | [] \<Rightarrow> None)"

definition status_script :: "string \<Rightarrow> string" where
  "status_script dir =
     ''dir='' @ dir @ lf @
     ''if [ -f '' @ qd ''$dir/exit'' @ '' ]; then echo '' @ [dq] @ ''exited $(cat -- '' @ qd ''$dir/exit'' @ '')'' @ [dq] @
     ''; elif [ -f '' @ qd ''$dir/pid'' @ '' ] && kill -0 '' @ [dq] @ ''$(cat -- '' @ qd ''$dir/pid'' @ '')'' @ [dq] @
     '' 2>/dev/null; then echo running; else echo unknown; fi''"

definition parse_service_status :: "string \<Rightarrow> string \<Rightarrow> service_status" where
  "parse_service_status i stdout =
     (let text = trim stdout in
      \<lparr>ss_id = i, ss_running = (text = ''running''),
       ss_exit_code = (case strip_prefix ''exited '' text of None \<Rightarrow> None | Some code \<Rightarrow> parse_i32 (trim code))\<rparr>)"

definition service_status_of :: "'w runner \<Rightarrow> string \<Rightarrow> ('w, service_status) act" where
  "service_status_of ex i =
     (if \<not> is_our_service_id i then act_of (Ok \<lparr>ss_id = i, ss_running = False, ss_exit_code = None\<rparr>)
      else act_map (\<lambda>r. parse_service_status i (stdout_lossy r))
             (service_run ex ''service status'' (status_script (service_dir i))))"

definition service_logs :: "'w runner \<Rightarrow> string \<Rightarrow> nat \<Rightarrow> ('w, bytes) act" where
  "service_logs ex i tail_bytes =
     (if \<not> is_our_service_id i then act_of (Ok [])
      else let dir = service_dir i in
        act_map res_stdout (service_run ex ''service logs''
          (''if [ -f '' @ dir @ ''/log ]; then tail -c '' @ show_nat tail_bytes @ '' -- '' @ dir @ ''/log; fi'')))"

definition port_script :: "nat \<Rightarrow> nat \<Rightarrow> string" where
  "port_script port polls =
     ''for _ in $(seq 1 '' @ show_nat polls @ ''); do'' @ lf @
     ''if (exec 3<>/dev/tcp/127.0.0.1/'' @ show_nat port @ '') 2>/dev/null; then exit 0; fi'' @ lf @
     ''sleep 0.5'' @ lf @ ''done'' @ lf @ ''exit 7''"

definition service_wait_for_port :: "'w runner \<Rightarrow> nat \<Rightarrow> duration \<Rightarrow> ('w, unit) act" where
  "service_wait_for_port ex port limit =
     (let polls = max (limit div 1000000 div port_poll_millis) 1 in
      act_bind (\<lambda>w. ex w ((spec_bash (port_script port polls))\<lparr>timeout := Some (limit + service_timeout)\<rparr>)) (\<lambda>r.
        act_of (if exit_code r = Some 0 then Ok ()
                else if exit_code r = Some 7 then Err (Timeout (''waiting for port '' @ show_nat port) limit)
                else Err (exec_failed ''service port wait'' r))))"

definition stop_script :: "string \<Rightarrow> string" where
  "stop_script dir =
     ''dir='' @ dir @ lf @
     ''[ -f '' @ qd ''$dir/pid'' @ '' ] || exit 0'' @ lf @
     ''pid=$(cat -- '' @ qd ''$dir/pid'' @ '')'' @ lf @
     ''case '' @ qd ''$pid'' @ '' in '' @ [sq, sq] @ ''|*[!0-9]*) exit 0;; esac'' @ lf @
     ''kill -TERM -- '' @ qd ''-$pid'' @ '' 2>/dev/null || kill -TERM -- '' @ qd ''$pid'' @ '' 2>/dev/null || true'' @ lf @
     ''for _ in $(seq 1 '' @ show_nat stop_grace_polls @ ''); do'' @ lf @
     ''[ -f '' @ qd ''$dir/exit'' @ '' ] && exit 0'' @ lf @
     ''kill -0 '' @ qd ''$pid'' @ '' 2>/dev/null || exit 0'' @ lf @
     ''sleep 0.2'' @ lf @ ''done'' @ lf @
     ''kill -KILL -- '' @ qd ''-$pid'' @ '' 2>/dev/null || kill -KILL -- '' @ qd ''$pid'' @ '' 2>/dev/null || true'' @ lf @
     ''[ -f '' @ qd ''$dir/exit'' @ '' ] || echo 137 > '' @ qd ''$dir/exit'' @ lf @ ''exit 0''"

definition service_stop :: "'w runner \<Rightarrow> string \<Rightarrow> ('w, unit) act" where
  "service_stop ex i =
     (if \<not> is_our_service_id i then act_of (Ok ())
      else act_map (\<lambda>_. ()) (service_run ex ''service stop'' (stop_script (service_dir i))))"

subsection \<open>Listening ports\<close>

record listening_port =
  lp_port :: nat
  lp_address :: string
  lp_process :: "string option"

definition listening_port_new :: "nat \<Rightarrow> string \<Rightarrow> listening_port" where
  "listening_port_new port address = \<lparr>lp_port = port, lp_address = address, lp_process = None\<rparr>"

definition listening_ports_script :: string where
  "listening_ports_script =
     ''if command -v ss >/dev/null 2>&1; then'' @ lf @
     ''  echo '' @ qd ''SANDBOX_DRIVER_PORTS ss'' @ lf @
     ''  ss -H -ltnp'' @ lf @
     ''  exit 0'' @ lf @
     ''fi'' @ lf @
     ''if [ -r /proc/net/tcp ] || [ -r /proc/net/tcp6 ]; then'' @ lf @
     ''  for file in /proc/net/tcp /proc/net/tcp6; do'' @ lf @
     ''    if [ -r '' @ qd ''$file'' @ '' ]; then'' @ lf @
     ''      echo '' @ qd ''SANDBOX_DRIVER_PORTS procfs $file'' @ lf @
     ''      cat -- '' @ qd ''$file'' @ lf @
     ''    fi'' @ lf @
     ''  done'' @ lf @
     ''  exit 0'' @ lf @
     ''fi'' @ lf @
     ''if command -v lsof >/dev/null 2>&1; then'' @ lf @
     ''  echo '' @ qd ''SANDBOX_DRIVER_PORTS lsof'' @ lf @
     ''  lsof -nP -iTCP -sTCP:LISTEN 2>/dev/null'' @ lf @
     ''  exit 0'' @ lf @
     ''fi'' @ lf @
     ''echo '' @ qd ''SANDBOX_DRIVER_PORTS none'' @ lf"

text \<open>\<open>str::rsplit_once\<close>, \<open>str::find\<close> and \<open>from_str_radix\<close> in base sixteen.\<close>

definition rsplit_once :: "'a \<Rightarrow> 'a list \<Rightarrow> ('a list \<times> 'a list) option" where
  "rsplit_once c s = map_option (\<lambda>(a, b). (rev b, rev a)) (split_once c (rev s))"

primrec find_str :: "'a list \<Rightarrow> 'a list \<Rightarrow> nat option" where
  "find_str p [] = (if p = [] then Some 0 else None)"
| "find_str p (x # xs) = (if starts_with p (x # xs) then Some 0 else map_option Suc (find_str p xs))"

definition hex_digit :: "byte \<Rightarrow> nat" where
  "hex_digit b = (if is_ascii_digit b then byte_val b - 48
                  else if byte_in 65 70 b then byte_val b - 55 else byte_val b - 87)"

primrec hex_digits_val :: "nat \<Rightarrow> string \<Rightarrow> nat" where
  "hex_digits_val acc [] = acc"
| "hex_digits_val acc (d # ds) = hex_digits_val (16 * acc + hex_digit d) ds"

definition parse_hex :: "nat \<Rightarrow> string \<Rightarrow> nat option" where
  "parse_hex w s =
     (let ds = (case s of x # xs \<Rightarrow> if x = CHR ''+'' then xs else s | [] \<Rightarrow> s)
      in if ds = [] \<or> \<not> list_all is_ascii_hexdigit ds then None
         else if hex_digits_val 0 ds < 2 ^ w then Some (hex_digits_val 0 ds) else None)"

definition lower_hex_digit :: "nat \<Rightarrow> byte" where
  "lower_hex_digit n = byte_of (if n < 10 then 48 + n else 87 + n)"

fun show_hex :: "nat \<Rightarrow> string" where
  "show_hex n = (if n < 16 then [lower_hex_digit n] else show_hex (n div 16) @ [lower_hex_digit (n mod 16)])"

declare show_hex.simps [simp del]

definition le_bytes :: "nat \<Rightarrow> nat list" where
  "le_bytes v = [v mod 256, v div 256 mod 256, v div 65536 mod 256, v div 16777216 mod 256]"

definition ss_process_name :: "string \<Rightarrow> string option" where
  "ss_process_name users =
     (case find_str (''(('' @ [dq]) users of
        None \<Rightarrow> None
      | Some n \<Rightarrow> (case find_str [dq] (drop (n + 3) users) of
                   None \<Rightarrow> None | Some m \<Rightarrow> Some (take m (drop (n + 3) users))))"

definition parse_ss_line :: "string \<Rightarrow> listening_port option" where
  "parse_ss_line line =
     (let parts = split_whitespace line in
      if length parts \<le> 3 then None
      else let address = parts ! 3 in
        case rsplit_once (CHR '':'') address of
          None \<Rightarrow> None
        | Some (_, p) \<Rightarrow>
            (case parse_unsigned 16 p of
               None \<Rightarrow> None
             | Some port \<Rightarrow>
                 Some ((listening_port_new port address)\<lparr>lp_process :=
                   (if length parts \<le> 5 then None
                    else ss_process_name (join_with (CHR '' '') (drop 5 parts)))\<rparr>)))"

definition procfs_ipv4 :: "string \<Rightarrow> string" where
  "procfs_ipv4 hex =
     (case parse_hex 32 hex of
        None \<Rightarrow> hex
      | Some v \<Rightarrow> join_with (CHR ''.'') (map show_nat (le_bytes v)))"

text \<open>Cutting a string inside a character panics; None is that panic.\<close>

definition is_char_boundary :: "string \<Rightarrow> nat \<Rightarrow> bool" where
  "is_char_boundary s n \<longleftrightarrow> n = 0 \<or> n = length s \<or> n < length s \<and> \<not> is_cont (s ! n)"

definition word_groups :: "nat \<Rightarrow> string list" where
  "word_groups v = (case le_bytes v of
     [a, b, c, d] \<Rightarrow> [show_hex (256 * a + b), show_hex (256 * c + d)] | _ \<Rightarrow> [])"

fun ipv6_groups :: "string \<Rightarrow> nat list \<Rightarrow> string list option option" where
  "ipv6_groups hex [] = Some (Some [])"
| "ipv6_groups hex (n # ns) =
     (if \<not> is_char_boundary hex (n * 8) \<or> \<not> is_char_boundary hex (n * 8 + 8) then None
      else case parse_hex 32 (take 8 (drop (n * 8) hex)) of
             None \<Rightarrow> Some None
           | Some v \<Rightarrow> map_option (map_option ((@) (word_groups v))) (ipv6_groups hex ns))"

definition procfs_ipv6 :: "string \<Rightarrow> string option" where
  "procfs_ipv6 hex =
     (if length hex \<noteq> 32 then Some hex
      else map_option (\<lambda>g. case g of None \<Rightarrow> hex | Some groups \<Rightarrow> join_with (CHR '':'') groups)
             (ipv6_groups hex [0..<4]))"

definition procfs_entry :: "bool \<Rightarrow> string list \<Rightarrow> listening_port list option" where
  "procfs_entry ipv6 parts =
     (if parts \<noteq> [] \<and> hd parts = ''sl'' then Some []
      else if length parts \<le> 3 then Some []
      else if parts ! 3 \<noteq> ''0A'' then Some []
      else case rsplit_once (CHR '':'') (parts ! 1) of
             None \<Rightarrow> Some []
           | Some (address_hex, port_hex) \<Rightarrow>
               (case parse_hex 16 port_hex of
                  None \<Rightarrow> Some []
                | Some port \<Rightarrow>
                    if ipv6
                    then map_option (\<lambda>a. [listening_port_new port (''['' @ a @ '']:'' @ show_nat port)])
                           (procfs_ipv6 address_hex)
                    else Some [listening_port_new port (procfs_ipv4 address_hex @ '':'' @ show_nat port)]))"

fun parse_procfs :: "bool \<Rightarrow> string list \<Rightarrow> listening_port list option" where
  "parse_procfs ipv6 [] = Some []"
| "parse_procfs ipv6 (line # ls) =
     (case strip_prefix ''SANDBOX_DRIVER_PORTS procfs '' line of
        Some path \<Rightarrow> parse_procfs (strip_suffix ''tcp6'' path \<noteq> None) ls
      | None \<Rightarrow>
          (case procfs_entry ipv6 (split_whitespace line) of
             None \<Rightarrow> None
           | Some e \<Rightarrow> map_option ((@) e) (parse_procfs ipv6 ls)))"

definition parse_lsof_line :: "string \<Rightarrow> listening_port option" where
  "parse_lsof_line line =
     (let parts = split_whitespace line in
      if parts \<noteq> [] \<and> hd parts = ''COMMAND'' then None
      else case rev parts of
             _ # name # _ \<Rightarrow>
               (case rsplit_once (CHR '':'') name of
                  None \<Rightarrow> None
                | Some (_, p) \<Rightarrow>
                    map_option (\<lambda>port. (listening_port_new port name)\<lparr>lp_process := Some (hd parts)\<rparr>)
                      (parse_unsigned 16 p))
           | _ \<Rightarrow> None)"

text \<open>\<open>Vec::dedup_by_key\<close>: of equal neighbours the first stays.\<close>

fun dedup_by_key :: "('a \<Rightarrow> 'k) \<Rightarrow> 'a list \<Rightarrow> 'a list" where
  "dedup_by_key k (x # y # xs) =
     (if k x = k y then dedup_by_key k (x # xs) else x # dedup_by_key k (y # xs))"
| "dedup_by_key k xs = xs"

definition port_lines :: "string \<Rightarrow> string list \<Rightarrow> listening_port list option" where
  "port_lines marker ls =
     (case strip_prefix ''SANDBOX_DRIVER_PORTS '' marker of
        None \<Rightarrow> Some []
      | Some tool \<Rightarrow>
          if tool = ''ss'' then Some (List.map_filter parse_ss_line ls)
          else if starts_with ''procfs'' tool then parse_procfs False ls
          else if tool = ''lsof'' then Some (List.map_filter parse_lsof_line ls)
          else Some [])"

definition parse_listening_ports :: "string \<Rightarrow> listening_port list option" where
  "parse_listening_ports out =
     (case filter (\<lambda>l. l \<noteq> []) (map trim (str_lines out)) of
        [] \<Rightarrow> Some []
      | marker # ls \<Rightarrow>
          map_option (\<lambda>ports. dedup_by_key lp_port (sort_key lp_port ports)) (port_lines marker ls))"

definition listening_ports :: "'w runner \<Rightarrow> ('w, listening_port list option) act" where
  "listening_ports ex =
     act_map (\<lambda>r. parse_listening_ports (stdout_lossy r))
       (service_run ex ''service ports'' listening_ports_script)"

subsection \<open>Identifiers in scripts\<close>

lemma chars_alnum:
  "list_all (\<lambda>c. \<exists>b. c = [b] \<and> is_ascii_alphanumeric b) (chars s) \<Longrightarrow> list_all is_ascii_alphanumeric s"
proof -
  assume a: "list_all (\<lambda>c. \<exists>b. c = [b] \<and> is_ascii_alphanumeric b) (chars s)"
  then have "list_all is_ascii_alphanumeric (concat (chars s))"
    by (auto simp: list_all_iff)
  then show ?thesis by (simp add: concat_chars)
qed

lemma lex_run_plain: "list_all plain s \<Longrightarrow> lex_run (InWord w) s = Some (InWord (w @ s), [])"
proof (induction s arbitrary: w)
  case (Cons c s)
  then have "c \<noteq> CHR '' ''" "c \<noteq> sq" "c \<noteq> backslash"
    by (auto simp: plain_def ascii_defs sq_def backslash_def)
  with Cons show ?case by simp
qed simp

lemma plain_word: "list_all plain s \<Longrightarrow> s \<noteq> [] \<Longrightarrow> shell_words s = Some [s]"
proof (cases s)
  case (Cons c cs)
  assume p: "list_all plain s"
  with Cons have "c \<noteq> CHR '' ''" "c \<noteq> sq" "c \<noteq> backslash"
    by (auto simp: plain_def ascii_defs sq_def backslash_def)
  with Cons p show ?thesis by (simp add: shell_words_def lex_run_plain)
qed simp

lemma our_service_id:
  "is_our_service_id i \<longleftrightarrow>
     (\<exists>suffix. i = service_dir_prefix @ suffix \<and> suffix \<noteq> [] \<and>
        list_all (\<lambda>c. \<exists>b. c = [b] \<and> is_ascii_alphanumeric b) (chars suffix))"
  by (auto simp: is_our_service_id_def strip_prefix_Some split: option.splits)

lemma service_dir_plain: "is_our_service_id i \<Longrightarrow> list_all plain (service_dir i)"
proof -
  assume "is_our_service_id i"
  then obtain s where s: "i = service_dir_prefix @ s" and "list_all is_ascii_alphanumeric s"
    using chars_alnum by (auto simp: our_service_id)
  then have "list_all plain s" by (simp add: list_all_iff plain_def)
  then show ?thesis by (simp add: s service_dir_def service_dir_prefix_def plain_def ascii_defs)
qed

text \<open>
  An identifier that reaches a service script is one plain shell word naming one directory right
  below \<open>/tmp\<close>.
\<close>

lemma service_dir_word:
  assumes "is_our_service_id i"
  shows "shell_words (service_dir i) = Some [service_dir i]" "CHR ''/'' \<notin> set i"
proof -
  show "shell_words (service_dir i) = Some [service_dir i]"
    by (rule plain_word [OF service_dir_plain [OF assms]]) (simp add: service_dir_def)
  from assms obtain s where "i = service_dir_prefix @ s" and "list_all is_ascii_alphanumeric s"
    using chars_alnum by (auto simp: our_service_id)
  then show "CHR ''/'' \<notin> set i"
    by (auto simp: service_dir_prefix_def list_all_iff ascii_defs)
qed

lemma foreign_service_untouched:
  assumes "\<not> is_our_service_id i"
  shows "service_stop ex i w = (w, Ok ())" "service_logs ex i n w = (w, Ok [])"
    "service_status_of ex i w = (w, Ok \<lparr>ss_id = i, ss_running = False, ss_exit_code = None\<rparr>)"
  using assms by (simp_all add: service_stop_def service_logs_def service_status_of_def act_of_def)

lemma spawned_id_ours: "spawned_id dbg si out = Ok i \<Longrightarrow> is_our_service_id i"
  by (auto simp: spawned_id_def Let_def split: sum.splits if_splits)

text \<open>
  C33. Background services are confined to the directories they made. The identifier a spawn returns
  always has the shape the other verbs accept; an identifier of that shape, which is put into
  scripts unquoted, is one shell word naming a directory right below \<open>/tmp\<close>; and for any other
  identifier status, logs and stop run no command at all and answer as for an unknown service.
\<close>

theorem service_confined:
  "(\<forall>w' i. service_spawn dbg si ex spec w = (w', Ok i) \<longrightarrow> is_our_service_id i) \<and>
   (if is_our_service_id i
    then shell_words (service_dir i) = Some [service_dir i] \<and> CHR ''/'' \<notin> set i
    else service_stop ex i w = (w, Ok ()) \<and> service_logs ex i n w = (w, Ok []) \<and>
         service_status_of ex i w = (w, Ok \<lparr>ss_id = i, ss_running = False, ss_exit_code = None\<rparr>))"
proof -
  have "service_spawn dbg si ex spec w = (w', Ok j) \<Longrightarrow> is_our_service_id j" for w' j
    by (auto simp: service_spawn_def act_bind_def act_of_def spawned_id_ours split: prod.splits sum.splits)
  then show ?thesis
    using service_dir_word [of i] foreign_service_untouched(1) [of i ex w] foreign_service_untouched(2) [of i ex n w]
      foreign_service_untouched(3) [of i ex w]
    by auto
qed

theorem service_confined_witness:
  "is_our_service_id (service_dir_prefix @ ''a1'') \<and>
   shell_words (service_dir (service_dir_prefix @ ''a1'')) = Some [''/tmp/sandbox-driver-service-a1'']"
proof -
  let ?i = "service_dir_prefix @ ''a1''"
  let ?ex = "\<lambda>w (_ :: exec_spec). (w, Ok ((result_new Exited (Some 0) 0)\<lparr>res_stdout := ?i @ lf\<rparr>))"
  let ?spec = "\<lparr>sv_command = ''sleep 9'', sv_working_dir = None, sv_env = []\<rparr> :: service_spec"
  have ascii: "list_all (\<lambda>b. byte_val b < 128) (?i @ lf)"
    by (simp add: service_dir_prefix_def)
  have lines: "str_lines ?i = [?i]"
    by (simp add: service_dir_prefix_def str_lines_def)
  have trimmed: "trim ?i = ?i" "trim (?i @ lf) = ?i"
    by (simp_all add: service_dir_prefix_def trim_def chars_def utf8_units_all_ascii char_is_whitespace_def)
  have typed: "try_new ServiceId ?i = Ok ?i"
    by (simp add: try_new_def validate_id_def max_id_len_def service_dir_prefix_def chars_def utf8_units_all_ascii
        char_is_whitespace_def char_is_control_def byte_in_def)
  have ours: "is_our_service_id ?i"
    by (simp add: is_our_service_id_def chars_def utf8_units_all_ascii ascii_defs)
  have "service_spawn id iv_reason ?ex ?spec () = ((), Ok ?i)"
    using ascii
    by (simp add: service_spawn_def service_run_def bash_run_def act_bind_def act_of_def stdout_lossy_def spawned_id_def
        success_def result_new_def lines trimmed typed ours Let_def del: append_Cons append_assoc)
  with service_confined [of id iv_reason ?ex ?spec "()" ?i 0]
  have "is_our_service_id ?i" by blast
  moreover have "shell_words (service_dir ?i) = Some [service_dir ?i]"
    using service_confined [of id iv_reason ?ex ?spec "()" ?i 0] ours by (simp only: if_True)
  ultimately show ?thesis by (simp add: service_dir_def service_dir_prefix_def)
qed

subsection \<open>Each port once, lowest first\<close>

lemma dedup_sorted:
  "sorted (map k xs) \<Longrightarrow>
     sorted_wrt (<) (map k (dedup_by_key k xs)) \<and> k ` set (dedup_by_key k xs) = k ` set xs \<and>
     set (dedup_by_key k xs) \<subseteq> set xs"
  for k :: "'a \<Rightarrow> 'k::linorder"
proof (induction k xs rule: dedup_by_key.induct)
  case (1 k x y xs)
  show ?case
  proof (cases "k x = k y")
    case True
    with 1 show ?thesis by auto
  next
    case False
    with "1.prems" have "k x < k y" by auto
    moreover from 1 False have ih: "sorted_wrt (<) (map k (dedup_by_key k (y # xs)))"
      "k ` set (dedup_by_key k (y # xs)) = k ` set (y # xs)" "set (dedup_by_key k (y # xs)) \<subseteq> set (y # xs)"
      by auto
    moreover from 1 have "\<forall>z\<in>set (y # xs). k y \<le> k z" by auto
    ultimately show ?thesis using False by (auto dest: order.strict_trans1 less_le_trans)
  qed
qed auto

lemma parse_listening_ports_sorted:
  assumes "parse_listening_ports out = Some ports"
  shows "sorted_wrt (<) (map lp_port ports)"
proof -
  from assms consider "ports = []" | z where "ports = dedup_by_key lp_port (sort_key lp_port z)"
    by (auto simp: parse_listening_ports_def split: list.splits)
  then show ?thesis
  proof cases
    case 2
    with dedup_sorted [OF sorted_sort_key [of lp_port z]] show ?thesis by simp
  qed simp
qed

text \<open>
  The marker of the first table is taken off before the tables are read, so a sandbox that has only
  \<open>/proc/net/tcp6\<close> has its IPv6 addresses read as IPv4: the loopback address \<open>::1\<close> comes out as
  \<open>0.0.0.1\<close>.
\<close>

lemma first_marker_loses_ipv6:
  "port_lines ''SANDBOX_DRIVER_PORTS procfs /proc/net/tcp6''
     [''0: 00000000000000000000000001000000:1F90 00000000000000000000000000000000:0000 0A''] =
   Some [listening_port_new 8080 ''0.0.0.1:8080'']"
proof -
  have ws: "split_whitespace ''0: 00000000000000000000000001000000:1F90 00000000000000000000000000000000:0000 0A'' =
      [''0:'', ''00000000000000000000000001000000:1F90'', ''00000000000000000000000000000000:0000'', ''0A'']"
    by (simp add: split_whitespace_def chars_def utf8_units_all_ascii char_is_whitespace_def)
  have port: "parse_hex 16 ''1F90'' = Some 8080"
    by (simp add: parse_hex_def hex_digit_def ascii_defs)
  have addr: "parse_hex 32 ''00000000000000000000000001000000'' = Some 16777216"
    by (simp add: parse_hex_def hex_digit_def ascii_defs)
  have nums: "show_nat 8080 = ''8080''" "show_nat 0 = ''0''" "show_nat (Suc 0) = ''1''"
    by (simp_all add: show_nat.simps byte_eq_iff)
  show ?thesis
    by (simp add: port_lines_def starts_with_def ws procfs_entry_def rsplit_once_def port addr procfs_ipv4_def
        le_bytes_def nums)
qed

end
