(* ===== verification/Ordered_Map.thy ===== *)
theory Ordered_Map
  imports Prelude "HOL-Library.List_Lexorder" "HOL-Library.Char_ord"
begin

section \<open>Ordered maps (std::collections::BTreeMap)\<close>

text \<open>
  A \<open>BTreeMap\<close> is its entries in the order of their keys, which is the order it is iterated in.
  Strings are ordered by their bytes. Lookup is \<^const>\<open>map_of\<close>.
\<close>

type_synonym ('k, 'v) btree_map = "('k \<times> 'v) list"

fun bt_insert :: "'k::linorder \<Rightarrow> 'v \<Rightarrow> ('k, 'v) btree_map \<Rightarrow> ('k, 'v) btree_map" where
  "bt_insert k v [] = [(k, v)]"
| "bt_insert k v ((k', v') # m) =
     (if k = k' then (k, v) # m
      else if k < k' then (k, v) # (k', v') # m
      else (k', v') # bt_insert k v m)"

definition bt_ok :: "('k::linorder, 'v) btree_map \<Rightarrow> bool" where
  "bt_ok m \<longleftrightarrow> sorted_wrt (<) (map fst m)"

definition bt_extend :: "('k::linorder, 'v) btree_map \<Rightarrow> ('k \<times> 'v) list \<Rightarrow> ('k, 'v) btree_map" where
  "bt_extend m kvs = fold (\<lambda>(k, v). bt_insert k v) kvs m"

abbreviation bt_collect :: "('k::linorder \<times> 'v) list \<Rightarrow> ('k, 'v) btree_map" where
  "bt_collect \<equiv> bt_extend []"

lemma bt_ok_Nil [simp]: "bt_ok []"
  by (simp add: bt_ok_def)

lemma bt_ok_Cons: "bt_ok ((k, v) # m) \<longleftrightarrow> (\<forall>k'\<in>fst ` set m. k < k') \<and> bt_ok m"
  by (simp add: bt_ok_def)

lemma bt_insert_keys [simp]: "fst ` set (bt_insert k v m) = insert k (fst ` set m)"
  by (induction k v m rule: bt_insert.induct) (simp_all add: insert_commute)

lemma bt_insert_set: "set (bt_insert k v m) \<subseteq> insert (k, v) (set m)"
  by (induction k v m rule: bt_insert.induct) auto

lemma bt_insert_new: "k \<notin> fst ` set m \<Longrightarrow> set (bt_insert k v m) = insert (k, v) (set m)"
  by (induction k v m rule: bt_insert.induct) auto

lemma bt_insert_ok [simp, intro]: "bt_ok m \<Longrightarrow> bt_ok (bt_insert k v m)"
proof (induction k v m rule: bt_insert.induct)
  case (2 k v k' v' m)
  consider "k = k'" | "k < k'" | "k' < k" by (rule linorder_cases)
  then show ?case
  proof cases
    case 1
    with "2.prems" show ?thesis by (simp add: bt_ok_Cons)
  next
    case 2
    with "2.prems" show ?thesis by (auto simp: bt_ok_Cons dest: less_trans)
  next
    case 3
    with "2.prems" "2.IH" have "bt_ok (bt_insert k v m)" by (auto simp: bt_ok_Cons)
    moreover have "\<forall>q\<in>fst ` set (bt_insert k v m). k' < q"
      unfolding bt_insert_keys using 3 "2.prems" by (auto simp: bt_ok_Cons)
    ultimately have "bt_ok ((k', v') # bt_insert k v m)"
      unfolding bt_ok_Cons by blast
    with 3 show ?thesis by auto
  qed
qed (simp add: bt_ok_Cons)

lemma bt_insert_get [simp]: "map_of (bt_insert k v m) = (map_of m)(k \<mapsto> v)"
  by (induction m) (auto simp: fun_eq_iff)

lemma bt_extend_simps [simp]:
  "bt_extend m [] = m" "bt_extend m ((k, v) # kvs) = bt_extend (bt_insert k v m) kvs"
  by (simp_all add: bt_extend_def)

lemma bt_extend_ok [simp, intro]: "bt_ok m \<Longrightarrow> bt_ok (bt_extend m kvs)"
  by (induction kvs arbitrary: m) auto

lemma bt_extend_get: "map_of (bt_extend m kvs) = map_of m ++ map_of (rev kvs)"
  by (induction kvs arbitrary: m) (auto simp: map_add_def fun_eq_iff split: option.splits)

lemma bt_extend_keys [simp]: "fst ` set (bt_extend m kvs) = fst ` set m \<union> fst ` set kvs"
proof (induction kvs arbitrary: m)
  case (Cons p kvs)
  then show ?case by (cases p) simp
qed simp

lemma bt_ok_distinct: "bt_ok m \<Longrightarrow> distinct (map fst m)"
  unfolding bt_ok_def by (metis strict_sorted_iff)

text \<open>The interface clients rely on: insertion in any order gives the map of its last writes, and
  two maps with the same lookups are the same map.\<close>

lemma bt_ext:
  assumes "bt_ok m" "bt_ok m'" "map_of m = map_of m'"
  shows "m = m'"
proof -
  have keys: "fst ` set m = fst ` set m'"
    using assms(3) by (metis dom_map_of_conv_image_fst)
  have "map fst m = map fst m'"
    using assms(1,2) keys by (simp add: bt_ok_def strict_sorted_equal)
  moreover have vals: "map snd n = map (the \<circ> map_of n) (map fst n)" if "bt_ok n" for n :: "('a \<times> 'b) list"
    using bt_ok_distinct [OF that] by auto
  ultimately have "map snd m = map snd m'"
    unfolding vals [OF assms(1)] vals [OF assms(2)] assms(3) by simp
  with \<open>map fst m = map fst m'\<close> show ?thesis
    by (metis zip_map_fst_snd)
qed

end
