(* ===== verification/Units.thy ===== *)
theory Units
  imports Rust_Std
begin

section \<open>Sizes and durations in workload templates (contract/units.rs)\<close>

text \<open>
  Templates write sizes and durations as text with a unit; providers receive whole MiB and
  milliseconds. The size grammar is the source's own; durations are read by the \<open>humantime\<close> crate,
  a parameter that returns the duration or its error's text, and so is the debug rendering of a unit.
\<close>

record parse_unit_error =
  pu_kind :: string
  pu_text :: string
  pu_reason :: string

definition trim_start :: "string \<Rightarrow> string" where
  "trim_start s = concat (dropWhile char_is_whitespace (chars s))"

text \<open>The first suffix of the three that fits is taken off.\<close>

definition unit_prefix :: "string \<Rightarrow> string" where
  "unit_prefix u =
     (case strip_suffix ''ib'' u of Some p \<Rightarrow> p
      | None \<Rightarrow> (case strip_suffix ''b'' u of Some p \<Rightarrow> p
      | None \<Rightarrow> (case strip_suffix ''i'' u of Some p \<Rightarrow> p | None \<Rightarrow> u)))"

definition bytes_per_unit :: "(string \<Rightarrow> string) \<Rightarrow> string \<Rightarrow> (string, nat) result" where
  "bytes_per_unit dbg u =
     (let p = unit_prefix u in
      if p = [] then (if u = ''b'' then Ok 1 else Err ''requires a unit such as MiB or GB'')
      else if p = ''k'' then Ok (2 ^ 10)
      else if p = ''m'' then Ok (2 ^ 20)
      else if p = ''g'' then Ok (2 ^ 30)
      else if p = ''t'' then Ok (2 ^ 40)
      else Err (''unknown unit '' @ dbg u))"

definition parse_size_mib :: "(string \<Rightarrow> string) \<Rightarrow> string \<Rightarrow> (parse_unit_error, nat) result" where
  "parse_size_mib dbg text =
     (let fail = (\<lambda>reason. Err \<lparr>pu_kind = ''size'', pu_text = text, pu_reason = reason\<rparr>);
          trimmed = trim text in
      case parse_unsigned 64 (takeWhile is_ascii_digit trimmed) of
        None \<Rightarrow> fail ''must start with a whole number''
      | Some count \<Rightarrow>
          (case bytes_per_unit dbg (to_ascii_lowercase (trim_start (dropWhile is_ascii_digit trimmed))) of
             Err reason \<Rightarrow> fail reason
           | Ok per \<Rightarrow>
               if 2 ^ 64 \<le> count * per then fail ''is too large''
               else if count * per mod 2 ^ 20 \<noteq> 0 then fail ''must be a whole number of MiB''
               else Ok (count * per div 2 ^ 20)))"

definition parse_duration_ms ::
    "(string \<Rightarrow> (string, duration) result) \<Rightarrow> string \<Rightarrow> (parse_unit_error, nat) result" where
  "parse_duration_ms humantime text =
     (let fail = (\<lambda>reason. Err \<lparr>pu_kind = ''duration'', pu_text = text, pu_reason = reason\<rparr>) in
      case humantime (trim text) of
        Err e \<Rightarrow> fail e
      | Ok d \<Rightarrow> if 2 ^ 64 \<le> d div 1000000 then fail ''is too large'' else Ok (d div 1000000))"

text \<open>What a deserializer hands the visitor: a number or a text.\<close>

datatype unit_value = UnitU64 nat | UnitI64 int | UnitStr string

definition unit_visit ::
    "(parse_unit_error \<Rightarrow> string) \<Rightarrow> (string \<Rightarrow> (parse_unit_error, nat) result) \<Rightarrow> unit_value \<Rightarrow> (string, nat) result" where
  "unit_visit display parse v =
     (case v of
        UnitU64 n \<Rightarrow> Ok n
      | UnitI64 i \<Rightarrow> if i < 0 then Err ''must not be negative'' else Ok (nat i)
      | UnitStr s \<Rightarrow> (case parse s of Err e \<Rightarrow> Err (display e) | Ok n \<Rightarrow> Ok n))"

definition size_mib ::
    "(parse_unit_error \<Rightarrow> string) \<Rightarrow> (string \<Rightarrow> string) \<Rightarrow> unit_value option \<Rightarrow> (string, nat option) result" where
  "size_mib display dbg v =
     (case v of
        None \<Rightarrow> Ok None
      | Some u \<Rightarrow> bind_result (unit_visit display (parse_size_mib dbg) u)
                  (\<lambda>n. if n = 0 then Err ''must not be zero'' else Ok (Some n)))"

definition duration_ms ::
    "(parse_unit_error \<Rightarrow> string) \<Rightarrow> (string \<Rightarrow> (string, duration) result) \<Rightarrow> unit_value option \<Rightarrow> (string, nat option) result" where
  "duration_ms display humantime v =
     (case v of
        None \<Rightarrow> Ok None
      | Some u \<Rightarrow> bind_result (unit_visit display (parse_duration_ms humantime) u) (\<lambda>n. Ok (Some n)))"

subsection \<open>The grammar of sizes\<close>

text \<open>The units and the power of two each stands for, as the documentation lists them.\<close>

definition size_units :: "(string \<times> nat) list" where
  "size_units =
     (''b'', 0) # concat (map (\<lambda>(p, k). map (\<lambda>s. (p @ s, k)) ['''', ''b'', ''i'', ''ib''])
        [(''k'', 10), (''m'', 20), (''g'', 30), (''t'', 40)])"

lemma unit_prefix_cases:
  obtains s where "u = unit_prefix u @ s" "s \<in> {'''', ''b'', ''i'', ''ib''}"
proof -
  have "\<exists>s\<in>{'''', ''b'', ''i'', ''ib''}. u = unit_prefix u @ s"
    unfolding unit_prefix_def
    by (cases "strip_suffix ''ib'' u"; cases "strip_suffix ''b'' u"; cases "strip_suffix ''i'' u")
       (simp_all add: strip_suffix_Some)
  then show thesis using that by blast
qed

lemma unit_prefix_table:
  assumes "p \<in> {''k'', ''m'', ''g'', ''t''}" "s \<in> {'''', ''b'', ''i'', ''ib''}"
  shows "unit_prefix (p @ s) = p"
  using assms by (auto simp: unit_prefix_def strip_suffix_def)

lemma bytes_per_unit_Ok: "bytes_per_unit dbg u = Ok per \<longleftrightarrow> (\<exists>k. map_of size_units u = Some k \<and> per = 2 ^ k)"
proof (cases "unit_prefix u \<in> {''k'', ''m'', ''g'', ''t''}")
  case True
  obtain s where s: "u = unit_prefix u @ s" "s \<in> {'''', ''b'', ''i'', ''ib''}"
    by (rule unit_prefix_cases)
  obtain p where p: "u = p @ s" "p \<in> {''k'', ''m'', ''g'', ''t''}"
    using True s by metis
  have "unit_prefix u = p"
    unfolding p(1) by (rule unit_prefix_table [OF p(2) s(2)])
  moreover have "map_of size_units (p @ s) = map_of [(''k'', 10), (''m'', 20), (''g'', 30), (''t'', 40)] p"
    using p(2) s(2) by (elim insertE emptyE) (simp_all add: size_units_def)
  ultimately show ?thesis
    using p by (elim insertE emptyE) (auto simp: bytes_per_unit_def Let_def)
next
  case False
  show ?thesis
  proof (cases "u = ''b''")
    case True
    then show ?thesis
      by (auto simp: bytes_per_unit_def size_units_def unit_prefix_def strip_suffix_def)
  next
    case nb: False
    have "map_of size_units u = None"
    proof (rule ccontr)
      assume "map_of size_units u \<noteq> None"
      then have "u \<in> fst ` set size_units" by (simp add: map_of_eq_None_iff)
      moreover have "\<forall>v\<in>fst ` set size_units. v = ''b'' \<or> unit_prefix v \<in> {''k'', ''m'', ''g'', ''t''}"
        by (simp add: size_units_def unit_prefix_def strip_suffix_def)
      ultimately show False using nb False by blast
    qed
    moreover from False nb have "\<exists>e. bytes_per_unit dbg u = Err e"
      by (auto simp: bytes_per_unit_def Let_def)
    ultimately show ?thesis by auto
  qed
qed

text \<open>What a size text says: so many of a unit that stands for a power of two bytes.\<close>

definition size_text :: "string \<Rightarrow> nat \<Rightarrow> nat \<Rightarrow> bool" where
  "size_text text n k \<longleftrightarrow>
     (\<exists>ds u. trim text = ds @ u \<and> ds \<noteq> [] \<and> list_all is_ascii_digit ds \<and> (u \<noteq> [] \<longrightarrow> \<not> is_ascii_digit (hd u)) \<and>
        n = digits_val 0 ds \<and> map_of size_units (to_ascii_lowercase (trim_start u)) = Some k)"

lemma takeWhile_split:
  "list_all P ds \<Longrightarrow> (u \<noteq> [] \<longrightarrow> \<not> P (hd u)) \<Longrightarrow> takeWhile P (ds @ u) = ds \<and> dropWhile P (ds @ u) = u"
  by (induction ds) (auto simp: neq_Nil_conv, (cases u; simp)+)

lemma parse_digits:
  "list_all is_ascii_digit ds \<Longrightarrow>
     parse_unsigned w ds = (if ds = [] \<or> 2 ^ w \<le> digits_val 0 ds then None else Some (digits_val 0 ds))"
proof -
  assume ds: "list_all is_ascii_digit ds"
  have "(case ds of x # xs \<Rightarrow> if x = CHR ''+'' then xs else ds | [] \<Rightarrow> ds) = ds"
    using ds by (cases ds) (auto simp: ascii_defs)
  with ds show ?thesis by (auto simp: parse_unsigned_def Let_def not_less)
qed

lemma size_text_iff:
  "size_text text n k \<longleftrightarrow>
     (let ds = takeWhile is_ascii_digit (trim text) in
      ds \<noteq> [] \<and> n = digits_val 0 ds \<and>
      map_of size_units (to_ascii_lowercase (trim_start (dropWhile is_ascii_digit (trim text)))) = Some k)"
proof -
  let ?t = "trim text"
  have all: "list_all is_ascii_digit (takeWhile is_ascii_digit ?t)"
    by (auto simp: list_all_iff dest: set_takeWhileD)
  have hd: "dropWhile is_ascii_digit ?t \<noteq> [] \<longrightarrow> \<not> is_ascii_digit (hd (dropWhile is_ascii_digit ?t))"
    using hd_dropWhile by blast
  show ?thesis
    unfolding size_text_def Let_def
    using takeWhile_split [of is_ascii_digit] all hd takeWhile_dropWhile_id [of is_ascii_digit ?t]
    by (smt (verit, best))
qed

text \<open>
  The size grammar is exact: a text is read as \<open>m\<close> MiB just if it is a whole number of one of
  the documented units, in any case, whose bytes fit 64 bits and are \<open>m\<close> whole MiB; nothing is
  rounded, wrapped or read in a unit that is not written.
\<close>

lemma parse_size_exact:
  "parse_size_mib dbg text = Ok m \<longleftrightarrow>
     (\<exists>n k. size_text text n k \<and> n * 2 ^ k < 2 ^ 64 \<and> n * 2 ^ k = m * 2 ^ 20)"
proof -
  let ?t = "trim text"
  let ?ds = "takeWhile is_ascii_digit ?t"
  let ?u = "to_ascii_lowercase (trim_start (dropWhile is_ascii_digit ?t))"
  have all: "list_all is_ascii_digit ?ds"
    by (auto simp: list_all_iff dest: set_takeWhileD)
  have small: "digits_val 0 ?ds < 2 ^ 64" if "digits_val 0 ?ds * 2 ^ k < 2 ^ 64" for k
    using that by (rule le_less_trans [rotated]) simp
  have whole: "count * per mod 2 ^ 20 = 0 \<and> m = count * per div 2 ^ 20 \<longleftrightarrow> count * per = m * 2 ^ 20"
    for count per :: nat
    by auto
  show ?thesis
  proof (cases "\<exists>per. bytes_per_unit dbg ?u = Ok per")
    case True
    then obtain k where k: "map_of size_units ?u = Some k" and per: "bytes_per_unit dbg ?u = Ok (2 ^ k)"
      by (auto simp: bytes_per_unit_Ok)
    show ?thesis
      using small [of k] whole [of "digits_val 0 ?ds" "2 ^ k"]
      by (auto simp: parse_size_mib_def Let_def parse_digits [OF all] per size_text_iff k)
  next
    case False
    then obtain e where e: "bytes_per_unit dbg ?u = Err e"
      by (cases "bytes_per_unit dbg ?u") auto
    from False have "map_of size_units ?u = None"
      by (auto simp: bytes_per_unit_Ok)
    with e show ?thesis
      by (auto simp: parse_size_mib_def Let_def size_text_iff split: option.splits)
  qed
qed

end
