(* ===== verification/Workload.thy ===== *)
theory Workload
  imports Identifiers Ordered_Map Units
begin

section \<open>Workload specifications and their admission (contract/)\<close>

text \<open>
  The shared contract: what a caller may ask of a provider (contract/workload.rs), what a provider
  says it supports (contract/descriptor.rs), and the checks in between (contract/admission.rs). Values
  of a provider's own configuration are JSON, a type parameter. The display of a rejected name is a
  parameter.
\<close>

subsection \<open>Errors (contract/error.rs)\<close>

datatype mutation_outcome = NotStarted | OutcomeUnknown

datatype contract_error =
    NoProvider string
  | NoEnvironment string
  | InvalidConfig string string string
  | MissingSecret string string
  | NotFound_c string string
  | AlreadyExists string string
  | NotOwned_c string
  | NamespaceMismatch string string
  | Unavailable string mutation_outcome
  | Unauthenticated string
  | PermissionDenied string
  | ResourceExhausted string "nat option"
  | Busy string
  | Unsupported_c string
  | Unhealthy string
  | Stale mutation_outcome
  | InvalidSpec_c string string
  | IncompleteCleanup string "(string \<times> string) list"
  | FenceLeaked string
  | Transport_c string mutation_outcome

type_synonym check = "(contract_error, unit) result"

subsection \<open>What a provider supports (contract/descriptor.rs)\<close>

datatype source_kind = HostDirectoryKind | ImageKind | DockerfileKind | SnapshotKind
datatype resource_capability = CapCpu | CapMemory | CapDisk | CapGpus
datatype network_mode = ProviderDefaultMode | AllowAllMode | BlockMode | CidrAllowListMode | DomainAllowListMode
datatype timer_capability = CapAutoStop | CapAutoArchive | CapAutoDelete | CapTtl
datatype container_field =
  FieldInit | FieldPrivileged | FieldCapabilitiesAdd | FieldCapabilitiesDrop | FieldDns | FieldExtraHosts | FieldShmSizeMb
datatype lifecycle_capability = LifePause | LifeResume | LifeArchive | LifeRecover
datatype endpoint_capability = EndSsh | EndShellCommand | EndVnc
datatype durability = DurableProcess | DurableMachine | DurableRemote
datatype access_scope = OwnerProcess | SharedAccess
datatype port_support = NoPorts | AnyPort | SelectedPorts "nat set"
datatype namespace_scope = ScopeProcess | ScopeMachine | ScopeRemote

record capability_set =
  cs_lifecycle :: "lifecycle_capability set"
  cs_endpoints :: "endpoint_capability set"
  cs_services :: bool
  cs_containers :: bool
  cs_container_fields :: "container_field set"
  cs_timers :: "timer_capability set"

text \<open>A schema is a JSON object: its keys and their values.\<close>

type_synonym 'j json_schema = "(string, 'j) btree_map"

record 'j provider_schemas =
  ps_kind :: string
  ps_version :: string
  ps_config_schema :: "'j json_schema"
  ps_spec_schema :: "'j json_schema option"
  ps_secrets :: "string list"

record namespace =
  ns_id :: string
  ns_scope :: namespace_scope

record locality =
  lc_host_address :: "string option"
  lc_mounts_host_paths :: bool

record 'j descriptor =
  ds_schemas :: "'j provider_schemas"
  ds_namespace :: namespace
  ds_isolation :: isolation
  ds_durability :: durability
  ds_access :: access_scope
  ds_sources :: "source_kind set"
  ds_locality :: locality
  ds_resources :: "resource_capability set"
  ds_network :: "network_mode set"
  ds_ports :: port_support
  ds_capabilities :: capability_set

subsection \<open>What a caller asks for (contract/workload.rs)\<close>

datatype source = SourceImage string | SourceDockerfile string | SourceSnapshot string | SourceHostDirectory

fun source_kind_of :: "source \<Rightarrow> source_kind" where
  "source_kind_of (SourceImage _) = ImageKind"
| "source_kind_of (SourceDockerfile _) = DockerfileKind"
| "source_kind_of (SourceSnapshot _) = SnapshotKind"
| "source_kind_of SourceHostDirectory = HostDirectoryKind"

definition set_fields :: "(bool \<times> 'c \<times> string) list \<Rightarrow> ('c \<times> string) list" where
  "set_fields xs = List.map_filter (\<lambda>(on, c, path). if on then Some (c, path) else None) xs"

record resources =
  cpu_cores :: "nat option"
  memory_mb :: "nat option"
  disk_mb :: "nat option"
  gpus :: "nat option"

definition resources_requested :: "resources \<Rightarrow> (resource_capability \<times> string) list" where
  "resources_requested r = set_fields
     [(cpu_cores r \<noteq> None, CapCpu, ''resources.cpu_cores''),
      (memory_mb r \<noteq> None, CapMemory, ''resources.memory_mb''),
      (disk_mb r \<noteq> None, CapDisk, ''resources.disk_mb''),
      (case gpus r of None \<Rightarrow> False | Some n \<Rightarrow> n \<noteq> 0, CapGpus, ''resources.gpus'')]"

datatype network_policy =
    ProviderDefault | AllowAll | Block | CidrAllowList "string list" | DomainAllowList "string list"

definition network_of_raw :: "network_mode \<Rightarrow> string list option \<Rightarrow> (string, network_policy) result" where
  "network_of_raw mode allow =
     (case (mode, allow) of
        (CidrAllowListMode, Some cidrs) \<Rightarrow> Ok (CidrAllowList cidrs)
      | (DomainAllowListMode, Some domains) \<Rightarrow> Ok (DomainAllowList domains)
      | (CidrAllowListMode, None) \<Rightarrow> Err ''an allow-list mode requires allow''
      | (DomainAllowListMode, None) \<Rightarrow> Err ''an allow-list mode requires allow''
      | (_, Some _) \<Rightarrow> Err ''allow requires mode cidr_allow_list or domain_allow_list''
      | (ProviderDefaultMode, None) \<Rightarrow> Ok ProviderDefault
      | (AllowAllMode, None) \<Rightarrow> Ok AllowAll
      | (BlockMode, None) \<Rightarrow> Ok Block)"

definition network_requested :: "network_policy \<Rightarrow> (network_mode \<times> string) option" where
  "network_requested p =
     (case p of
        ProviderDefault \<Rightarrow> None
      | AllowAll \<Rightarrow> Some (AllowAllMode, ''network'')
      | Block \<Rightarrow> Some (BlockMode, ''network'')
      | CidrAllowList _ \<Rightarrow> Some (CidrAllowListMode, ''network'')
      | DomainAllowList _ \<Rightarrow> Some (DomainAllowListMode, ''network''))"

definition network_validate :: "network_policy \<Rightarrow> check" where
  "network_validate p =
     (case p of
        CidrAllowList allow \<Rightarrow> if allow = [] then Err (InvalidSpec_c ''network.allow'' ''must not be empty'') else Ok ()
      | DomainAllowList allow \<Rightarrow> if allow = [] then Err (InvalidSpec_c ''network.allow'' ''must not be empty'') else Ok ()
      | _ \<Rightarrow> Ok ())"

record timers =
  auto_stop_ms :: "nat option"
  auto_archive_ms :: "nat option"
  auto_delete_ms :: "nat option"
  ttl_ms :: "nat option"

definition timers_requested :: "timers \<Rightarrow> (timer_capability \<times> string) list" where
  "timers_requested t = set_fields
     [(auto_stop_ms t \<noteq> None, CapAutoStop, ''timers.auto_stop_ms''),
      (auto_archive_ms t \<noteq> None, CapAutoArchive, ''timers.auto_archive_ms''),
      (auto_delete_ms t \<noteq> None, CapAutoDelete, ''timers.auto_delete_ms''),
      (ttl_ms t \<noteq> None, CapTtl, ''timers.ttl_ms'')]"

abbreviation NUL :: byte where "NUL \<equiv> CHR 0x00"

definition valid_env_key :: "string \<Rightarrow> bool" where
  "valid_env_key key \<longleftrightarrow> key \<noteq> [] \<and> CHR ''='' \<notin> set key \<and> NUL \<notin> set key"

fun validate_env :: "string \<Rightarrow> (string, string) btree_map \<Rightarrow> check" where
  "validate_env path [] = Ok ()"
| "validate_env path ((key, v) # m) =
     (if \<not> valid_env_key key
      then Err (InvalidSpec_c path (''keys must be non-empty and must not contain '' @ [CHR 0x27] @ ''='' @ [CHR 0x27] @ '' or NUL''))
      else if NUL \<in> set v then Err (InvalidSpec_c path ''values must not contain NUL'')
      else validate_env path m)"

definition validate_argv :: "string \<Rightarrow> string list \<Rightarrow> check" where
  "validate_argv path argv =
     (if argv = [] \<or> hd argv = [] then Err (InvalidSpec_c path ''requires a non-empty executable'')
      else if list_ex (\<lambda>arg. NUL \<in> set arg) argv then Err (InvalidSpec_c path ''arguments must not contain NUL'')
      else Ok ())"

definition validate_name :: "string \<Rightarrow> string \<Rightarrow> check" where
  "validate_name path v =
     (if v = [] \<or> NUL \<in> set v then Err (InvalidSpec_c path ''must be non-empty and NUL-free'') else Ok ())"

record readiness_check =
  rc_command :: "string list"
  rc_interval_ms :: nat
  rc_timeout_ms :: nat
  rc_deadline_ms :: nat
  rc_retries :: nat

definition readiness_validate :: "string \<Rightarrow> readiness_check \<Rightarrow> check" where
  "readiness_validate path c =
     bind_result (validate_argv (path @ ''.command'') (rc_command c)) (\<lambda>_.
       if rc_deadline_ms c < rc_timeout_ms c
       then Err (InvalidSpec_c (path @ ''.timeout_ms'') ''must not exceed deadline_ms'')
       else if 1 < rc_retries c \<and> rc_deadline_ms c \<le> rc_interval_ms c
       then Err (InvalidSpec_c (path @ ''.interval_ms'')
              ''must be shorter than deadline_ms when retries allows a second attempt'')
       else Ok ())"

record service_request =
  sr_image :: string
  sr_env :: "(string, string) btree_map"
  sr_ports :: "nat list"
  sr_credential :: "string option"
  sr_ready :: "readiness_check option"

definition service_request_new :: "string \<Rightarrow> service_request" where
  "service_request_new img =
     \<lparr>sr_image = img, sr_env = [], sr_ports = [], sr_credential = None, sr_ready = None\<rparr>"

definition service_validate :: "string \<Rightarrow> service_request \<Rightarrow> check" where
  "service_validate path s =
     (if trim (sr_image s) = [] then Err (InvalidSpec_c (path @ ''.image'') ''must not be empty'')
      else if sr_credential s = Some [] then Err (InvalidSpec_c (path @ ''.credential'') ''must not be empty'')
      else bind_result (validate_env (path @ ''.env'') (sr_env s)) (\<lambda>_.
             case sr_ready s of None \<Rightarrow> Ok () | Some ready \<Rightarrow> readiness_validate (path @ ''.ready'') ready))"

record container_spec =
  ct_init :: "bool option"
  ct_privileged :: "bool option"
  ct_capabilities_add :: "string list"
  ct_capabilities_drop :: "string list"
  ct_dns :: "string list"
  ct_extra_hosts :: "(string, string) btree_map"
  ct_shm_size_mb :: "nat option"

definition container_requested :: "container_spec \<Rightarrow> (container_field \<times> string) list" where
  "container_requested c = set_fields
     [(ct_init c \<noteq> None, FieldInit, ''container.init''),
      (ct_privileged c \<noteq> None, FieldPrivileged, ''container.privileged''),
      (ct_capabilities_add c \<noteq> [], FieldCapabilitiesAdd, ''container.capabilities_add''),
      (ct_capabilities_drop c \<noteq> [], FieldCapabilitiesDrop, ''container.capabilities_drop''),
      (ct_dns c \<noteq> [], FieldDns, ''container.dns''),
      (ct_extra_hosts c \<noteq> [], FieldExtraHosts, ''container.extra_hosts''),
      (ct_shm_size_mb c \<noteq> None, FieldShmSizeMb, ''container.shm_size_mb'')]"

fun entries_nonempty :: "string \<Rightarrow> (string \<times> string list) list \<Rightarrow> check" where
  "entries_nonempty path [] = Ok ()"
| "entries_nonempty path ((field, es) # r) =
     (if list_ex (\<lambda>e. trim e = []) es
      then Err (InvalidSpec_c (path @ ''.'' @ field) ''entries must not be empty'')
      else entries_nonempty path r)"

definition container_validate :: "string \<Rightarrow> container_spec \<Rightarrow> check" where
  "container_validate path c =
     bind_result (entries_nonempty path
         [(''capabilities_add'', ct_capabilities_add c), (''capabilities_drop'', ct_capabilities_drop c),
          (''dns'', ct_dns c)]) (\<lambda>_.
       if list_ex (\<lambda>(host, address). trim host = [] \<or> trim address = []) (ct_extra_hosts c)
       then Err (InvalidSpec_c (path @ ''.extra_hosts'') ''hosts and addresses must not be empty'')
       else Ok ())"

datatype workspace_ownership = Designated | Managed

record 'j sandbox_spec =
  sp_source :: source
  sp_name :: "string option"
  sp_resources :: resources
  sp_network :: network_policy
  sp_timers :: timers
  sp_labels :: "(string, string) btree_map"
  sp_env :: "(string, string) btree_map"
  sp_working_directory :: "string option"
  sp_workspace_ownership :: "workspace_ownership option"
  sp_user :: "string option"
  sp_services :: "(string, service_request) btree_map"
  sp_container :: "container_spec option"
  sp_provider_config :: "(string, 'j) btree_map"

definition resources_default :: resources where
  "resources_default = \<lparr>cpu_cores = None, memory_mb = None, disk_mb = None, gpus = None\<rparr>"

definition timers_default :: timers where
  "timers_default = \<lparr>auto_stop_ms = None, auto_archive_ms = None, auto_delete_ms = None, ttl_ms = None\<rparr>"

definition sandbox_spec_new :: "source \<Rightarrow> 'j sandbox_spec" where
  "sandbox_spec_new s =
     \<lparr>sp_source = s, sp_name = None, sp_resources = resources_default, sp_network = ProviderDefault,
      sp_timers = timers_default, sp_labels = [], sp_env = [], sp_working_directory = None,
      sp_workspace_ownership = None, sp_user = None, sp_services = [], sp_container = None, sp_provider_config = []\<rparr>"

definition source_blank :: "source \<Rightarrow> bool" where
  "source_blank s \<longleftrightarrow>
     (case s of SourceImage v \<Rightarrow> trim v = [] | SourceDockerfile v \<Rightarrow> trim v = [] | _ \<Rightarrow> False)"

fun names_nonempty :: "(string \<times> string option) list \<Rightarrow> check" where
  "names_nonempty [] = Ok ()"
| "names_nonempty ((path, v) # r) =
     (if v = Some [] then Err (InvalidSpec_c path ''must not be empty'') else names_nonempty r)"

fun services_validate :: "(invalid_id \<Rightarrow> string) \<Rightarrow> (string, service_request) btree_map \<Rightarrow> check" where
  "services_validate show_invalid [] = Ok ()"
| "services_validate show_invalid ((name, s) # r) =
     (case validate_label ''service name'' name 63 of
        Err e \<Rightarrow> Err (InvalidSpec_c ''services'' (show_invalid e))
      | Ok _ \<Rightarrow> bind_result (service_validate (''services.'' @ name) s) (\<lambda>_. services_validate show_invalid r))"

definition spec_validate :: "(invalid_id \<Rightarrow> string) \<Rightarrow> 'j sandbox_spec \<Rightarrow> check" where
  "spec_validate show_invalid sp =
     (if source_blank (sp_source sp) then Err (InvalidSpec_c ''source'' ''must not be empty'')
      else bind_result (names_nonempty [(''name'', sp_name sp), (''user'', sp_user sp),
                          (''working_directory'', sp_working_directory sp)]) (\<lambda>_.
      bind_result (validate_env ''env'' (sp_env sp)) (\<lambda>_.
      if sp_workspace_ownership sp \<noteq> None \<and> sp_source sp \<noteq> SourceHostDirectory
      then Err (InvalidSpec_c ''workspace_ownership'' ''requires host_directory'')
      else if sp_workspace_ownership sp = Some Designated \<and> sp_working_directory sp = None
      then Err (InvalidSpec_c ''working_directory'' ''designated workspace requires a path'')
      else bind_result (network_validate (sp_network sp)) (\<lambda>_.
      bind_result (case sp_container sp of None \<Rightarrow> Ok () | Some c \<Rightarrow> container_validate ''container'' c) (\<lambda>_.
      services_validate show_invalid (sp_services sp))))))"

subsection \<open>Admission (contract/admission.rs)\<close>

definition require :: "bool \<Rightarrow> string \<Rightarrow> check" where
  "require supported field = (if supported then Ok () else Err (Unsupported_c field))"

fun require_all :: "'c set \<Rightarrow> ('c \<times> string) list \<Rightarrow> check" where
  "require_all supported [] = Ok ()"
| "require_all supported ((c, field) # r) =
     bind_result (require (c \<in> supported) field) (\<lambda>_. require_all supported r)"

definition validate_for :: "(invalid_id \<Rightarrow> string) \<Rightarrow> 'j sandbox_spec \<Rightarrow> 'j descriptor \<Rightarrow> check" where
  "validate_for show_invalid sp d =
     (let caps = ds_capabilities d in
      bind_result (spec_validate show_invalid sp) (\<lambda>_.
      bind_result (require (source_kind_of (sp_source sp) \<in> ds_sources d) ''source'') (\<lambda>_.
      bind_result (require_all (ds_resources d) (resources_requested (sp_resources sp))) (\<lambda>_.
      bind_result (case network_requested (sp_network sp) of
                     None \<Rightarrow> Ok () | Some (c, field) \<Rightarrow> require (c \<in> ds_network d) field) (\<lambda>_.
      bind_result (require_all (cs_timers caps) (timers_requested (sp_timers sp))) (\<lambda>_.
      bind_result (require (sp_services sp = [] \<or> cs_services caps) ''services'') (\<lambda>_.
      require_all (cs_container_fields caps)
        (case sp_container sp of None \<Rightarrow> [] | Some c \<Rightarrow> container_requested c))))))))"

record 'j environment =
  en_provider :: string
  en_spec :: "'j sandbox_spec"

definition environment_validate :: "(invalid_id \<Rightarrow> string) \<Rightarrow> 'j environment \<Rightarrow> 'j descriptor \<Rightarrow> check" where
  "environment_validate show_invalid e d = validate_for show_invalid (en_spec e) d"

subsection \<open>Executions and one-shot containers (contract/execution.rs, contract/runtime.rs)\<close>

record exec_request =
  xr_argv :: "string list"
  xr_env :: "(string, string) btree_map"
  xr_working_directory :: "string option"
  xr_timeout_ms :: "nat option"
  xr_tty :: bool

definition exec_request_argv :: "string list \<Rightarrow> exec_request" where
  "exec_request_argv argv =
     \<lparr>xr_argv = argv, xr_env = [], xr_working_directory = None, xr_timeout_ms = None, xr_tty = False\<rparr>"

definition validate_opt_name :: "string \<Rightarrow> string option \<Rightarrow> check" where
  "validate_opt_name path v = (case v of None \<Rightarrow> Ok () | Some n \<Rightarrow> validate_name path n)"

definition exec_request_validate :: "exec_request \<Rightarrow> check" where
  "exec_request_validate x =
     bind_result (validate_argv ''argv'' (xr_argv x)) (\<lambda>_.
     bind_result (validate_opt_name ''working_directory'' (xr_working_directory x)) (\<lambda>_.
     validate_env ''env'' (xr_env x)))"

datatype one_shot_image =
    OneShotRef string
  | OneShotBuild (os_context: string) (os_dockerfile: "string option") (os_tag: string) (os_reuse: bool)

record one_shot_request =
  or_image :: one_shot_image
  or_entrypoint :: "string option"
  or_args :: "string list"
  or_env :: "(string, string) btree_map"
  or_working_directory :: "string option"
  or_timeout_ms :: "nat option"

definition one_shot_request_new :: "one_shot_image \<Rightarrow> one_shot_request" where
  "one_shot_request_new img =
     \<lparr>or_image = img, or_entrypoint = None, or_args = [], or_env = [], or_working_directory = None,
      or_timeout_ms = None\<rparr>"

definition one_shot_image_validate :: "one_shot_image \<Rightarrow> check" where
  "one_shot_image_validate img =
     (case img of
        OneShotRef reference \<Rightarrow> validate_name ''image'' reference
      | OneShotBuild ctx dockerfile tag _ \<Rightarrow>
          bind_result (validate_name ''image.build.context'' ctx) (\<lambda>_.
          bind_result (validate_opt_name ''image.build.dockerfile'' dockerfile) (\<lambda>_.
          validate_name ''image.build.tag'' tag)))"

definition one_shot_request_validate :: "one_shot_request \<Rightarrow> check" where
  "one_shot_request_validate o' =
     bind_result (one_shot_image_validate (or_image o')) (\<lambda>_.
     bind_result (validate_opt_name ''entrypoint'' (or_entrypoint o')) (\<lambda>_.
     if list_ex (\<lambda>arg. NUL \<in> set arg) (or_args o') then Err (InvalidSpec_c ''args'' ''arguments must not contain NUL'')
     else bind_result (validate_opt_name ''working_directory'' (or_working_directory o')) (\<lambda>_.
     validate_env ''env'' (or_env o'))))"

subsection \<open>What the checks decide\<close>

text \<open>A map is accepted as an environment just if its entries survive as \<open>KEY=VALUE\<close> strings that end
  at a NUL, which is how a process receives them.\<close>

definition env_block :: "(string, string) btree_map \<Rightarrow> string" where
  "env_block m = concat (map (\<lambda>(k, v). k @ CHR ''='' # v @ [NUL]) m)"

definition read_env_block :: "string \<Rightarrow> (string \<times> string) option list" where
  "read_env_block b = map (split_once (CHR ''='')) (butlast (split_on NUL b))"

definition env_ok :: "(string, string) btree_map \<Rightarrow> bool" where
  "env_ok m \<longleftrightarrow> (\<forall>(k, v)\<in>set m. valid_env_key k \<and> NUL \<notin> set v)"

lemma validate_env_Ok: "validate_env path m = Ok () \<longleftrightarrow> env_ok m"
  by (induction path m rule: validate_env.induct) (auto simp: env_ok_def)

lemma validate_env_Err: "validate_env path m = Err e \<Longrightarrow> \<exists>reason. e = InvalidSpec_c path reason"
  by (induction path m rule: validate_env.induct) (auto split: if_splits)

lemma env_block_reads_back: "env_ok m \<Longrightarrow> read_env_block (env_block m) = map Some m"
proof (induction m)
  case Nil
  then show ?case by (simp add: env_block_def read_env_block_def)
next
  case (Cons p m)
  obtain k v where p: "p = (k, v)" by (cases p)
  from Cons.prems p have "NUL \<notin> set (k @ CHR ''='' # v)" "CHR ''='' \<notin> set k" "env_ok m"
    by (auto simp: env_ok_def valid_env_key_def)
  then have "split_on NUL (env_block ((k, v) # m)) = (k @ CHR ''='' # v) # split_on NUL (env_block m)"
    using split_on_append [of NUL "k @ CHR ''='' # v" "env_block m"] by (simp add: env_block_def)
  with Cons.IH [OF \<open>env_ok m\<close>] \<open>CHR ''='' \<notin> set k\<close> p show ?case
    by (simp add: read_env_block_def)
qed

definition argv_ok :: "string list \<Rightarrow> bool" where
  "argv_ok argv \<longleftrightarrow> argv \<noteq> [] \<and> hd argv \<noteq> [] \<and> (\<forall>a\<in>set argv. NUL \<notin> set a)"

lemma validate_argv_Ok: "validate_argv path argv = Ok () \<longleftrightarrow> argv_ok argv"
  by (auto simp: validate_argv_def argv_ok_def list_ex_iff)

definition ready_ok :: "readiness_check \<Rightarrow> bool" where
  "ready_ok c \<longleftrightarrow> argv_ok (rc_command c) \<and> rc_timeout_ms c \<le> rc_deadline_ms c \<and>
     (1 < rc_retries c \<longrightarrow> rc_interval_ms c < rc_deadline_ms c)"

lemma readiness_validate_Ok: "readiness_validate path c = Ok () \<longleftrightarrow> ready_ok c"
  by (auto simp: readiness_validate_def ready_ok_def bind_result_Ok_iff validate_argv_Ok)

definition label_ok :: "string \<Rightarrow> bool" where
  "label_ok l \<longleftrightarrow> l \<noteq> [] \<and> length l \<le> 63 \<and> hd l \<noteq> CHR ''-'' \<and> last l \<noteq> CHR ''-'' \<and>
     (\<forall>b\<in>set l. is_ascii_lowercase b \<or> is_ascii_digit b \<or> b = CHR ''-'')"

definition service_ok :: "service_request \<Rightarrow> bool" where
  "service_ok s \<longleftrightarrow> trim (sr_image s) \<noteq> [] \<and> sr_credential s \<noteq> Some [] \<and> env_ok (sr_env s) \<and>
     (\<forall>c. sr_ready s = Some c \<longrightarrow> ready_ok c)"

lemma service_validate_Ok: "service_validate path s = Ok () \<longleftrightarrow> service_ok s"
  by (auto simp: service_validate_def service_ok_def bind_result_Ok_iff validate_env_Ok readiness_validate_Ok
      split: option.splits)

lemma validate_label_Ok: "validate_label kind l 63 = Ok () \<longleftrightarrow> label_ok l"
  by (auto simp: validate_label_def label_ok_def list_all_iff)

lemma services_validate_Ok:
  "services_validate si m = Ok () \<longleftrightarrow> (\<forall>(n, s)\<in>set m. label_ok n \<and> service_ok s)"
proof (induction si m rule: services_validate.induct)
  case (2 si name s r)
  then show ?case
    using validate_label_Ok [of "''service name''" name]
    by (cases "validate_label ''service name'' name 63") (auto simp: bind_result_Ok_iff service_validate_Ok)
qed simp

definition container_ok :: "container_spec \<Rightarrow> bool" where
  "container_ok c \<longleftrightarrow>
     (\<forall>e\<in>set (ct_capabilities_add c @ ct_capabilities_drop c @ ct_dns c). trim e \<noteq> []) \<and>
     (\<forall>(host, address)\<in>set (ct_extra_hosts c). trim host \<noteq> [] \<and> trim address \<noteq> [])"

lemma container_validate_Ok: "container_validate path c = Ok () \<longleftrightarrow> container_ok c"
  by (auto simp: container_validate_def container_ok_def bind_result_Ok_iff list_ex_iff)

text \<open>The portable rules of a workload, as one predicate.\<close>

definition portable :: "'j sandbox_spec \<Rightarrow> bool" where
  "portable sp \<longleftrightarrow>
     \<not> source_blank (sp_source sp) \<and>
     Some [] \<notin> {sp_name sp, sp_user sp, sp_working_directory sp} \<and>
     env_ok (sp_env sp) \<and>
     (sp_workspace_ownership sp \<noteq> None \<longrightarrow> sp_source sp = SourceHostDirectory) \<and>
     (sp_workspace_ownership sp = Some Designated \<longrightarrow> sp_working_directory sp \<noteq> None) \<and>
     sp_network sp \<notin> {CidrAllowList [], DomainAllowList []} \<and>
     (\<forall>c. sp_container sp = Some c \<longrightarrow> container_ok c) \<and>
     (\<forall>(n, s)\<in>set (sp_services sp). label_ok n \<and> service_ok s)"

lemma network_validate_Ok: "network_validate p = Ok () \<longleftrightarrow> p \<notin> {CidrAllowList [], DomainAllowList []}"
  by (cases p) (auto simp: network_validate_def)

lemma spec_validate_Ok: "spec_validate si sp = Ok () \<longleftrightarrow> portable sp"
proof -
  have c: "(case sp_container sp of None \<Rightarrow> Ok () | Some c \<Rightarrow> container_validate ''container'' c) = Ok () \<longleftrightarrow>
      (\<forall>c. sp_container sp = Some c \<longrightarrow> container_ok c)"
    by (auto simp: container_validate_Ok split: option.splits)
  show ?thesis
    unfolding spec_validate_def portable_def
    using c by (auto simp: bind_result_Ok_iff validate_env_Ok network_validate_Ok services_validate_Ok)
qed

text \<open>Every feature a workload can ask for, in the order of the checks: whether it is asked for,
  whether it is advertised, and its path.\<close>

definition feature_table :: "'j sandbox_spec \<Rightarrow> 'j descriptor \<Rightarrow> (bool \<times> bool \<times> string) list" where
  "feature_table sp d =
     (let r = sp_resources sp; t = sp_timers sp; cs = ds_capabilities d;
          ct = (\<lambda>P. case sp_container sp of None \<Rightarrow> False | Some c \<Rightarrow> P c) in
      [(True, source_kind_of (sp_source sp) \<in> ds_sources d, ''source''),
       (cpu_cores r \<noteq> None, CapCpu \<in> ds_resources d, ''resources.cpu_cores''),
       (memory_mb r \<noteq> None, CapMemory \<in> ds_resources d, ''resources.memory_mb''),
       (disk_mb r \<noteq> None, CapDisk \<in> ds_resources d, ''resources.disk_mb''),
       (gpus r \<noteq> None \<and> gpus r \<noteq> Some 0, CapGpus \<in> ds_resources d, ''resources.gpus''),
       (sp_network sp = AllowAll, AllowAllMode \<in> ds_network d, ''network''),
       (sp_network sp = Block, BlockMode \<in> ds_network d, ''network''),
       (\<exists>l. sp_network sp = CidrAllowList l, CidrAllowListMode \<in> ds_network d, ''network''),
       (\<exists>l. sp_network sp = DomainAllowList l, DomainAllowListMode \<in> ds_network d, ''network''),
       (auto_stop_ms t \<noteq> None, CapAutoStop \<in> cs_timers cs, ''timers.auto_stop_ms''),
       (auto_archive_ms t \<noteq> None, CapAutoArchive \<in> cs_timers cs, ''timers.auto_archive_ms''),
       (auto_delete_ms t \<noteq> None, CapAutoDelete \<in> cs_timers cs, ''timers.auto_delete_ms''),
       (ttl_ms t \<noteq> None, CapTtl \<in> cs_timers cs, ''timers.ttl_ms''),
       (sp_services sp \<noteq> [], cs_services cs, ''services''),
       (ct (\<lambda>c. ct_init c \<noteq> None), FieldInit \<in> cs_container_fields cs, ''container.init''),
       (ct (\<lambda>c. ct_privileged c \<noteq> None), FieldPrivileged \<in> cs_container_fields cs, ''container.privileged''),
       (ct (\<lambda>c. ct_capabilities_add c \<noteq> []), FieldCapabilitiesAdd \<in> cs_container_fields cs, ''container.capabilities_add''),
       (ct (\<lambda>c. ct_capabilities_drop c \<noteq> []), FieldCapabilitiesDrop \<in> cs_container_fields cs, ''container.capabilities_drop''),
       (ct (\<lambda>c. ct_dns c \<noteq> []), FieldDns \<in> cs_container_fields cs, ''container.dns''),
       (ct (\<lambda>c. ct_extra_hosts c \<noteq> []), FieldExtraHosts \<in> cs_container_fields cs, ''container.extra_hosts''),
       (ct (\<lambda>c. ct_shm_size_mb c \<noteq> None), FieldShmSizeMb \<in> cs_container_fields cs, ''container.shm_size_mb'')])"

definition unmet :: "'j sandbox_spec \<Rightarrow> 'j descriptor \<Rightarrow> string list" where
  "unmet sp d = map (snd \<circ> snd) (filter (\<lambda>(asked, offered, _). asked \<and> \<not> offered) (feature_table sp d))"

definition first_unmet :: "string list \<Rightarrow> check" where
  "first_unmet xs = (case xs of [] \<Rightarrow> Ok () | f # _ \<Rightarrow> Err (Unsupported_c f))"

primrec check_features :: "(bool \<times> bool \<times> string) list \<Rightarrow> check" where
  "check_features [] = Ok ()"
| "check_features (x # r) =
     (case x of (asked, offered, f) \<Rightarrow> bind_result (require (asked \<longrightarrow> offered) f) (\<lambda>_. check_features r))"

lemma check_features_first:
  "check_features t = first_unmet (map (snd \<circ> snd) (filter (\<lambda>(asked, offered, _). asked \<and> \<not> offered) t))"
proof (induction t)
  case (Cons x t)
  obtain a b f where "x = (a, b, f)" by (cases x)
  with Cons show ?case by (cases "a \<longrightarrow> b") (auto simp: first_unmet_def require_def)
qed (simp add: first_unmet_def)

lemma require_True [simp]: "require True f = Ok ()"
  by (simp add: require_def)

lemma require_all_set_fields [simp]:
  "require_all S (set_fields []) = Ok ()"
  "require_all S (set_fields ((on, c, f) # xs)) =
     bind_result (require (on \<longrightarrow> c \<in> S) f) (\<lambda>_. require_all S (set_fields xs))"
  by (simp_all add: set_fields_def require_def)

lemma bind_assoc:
  "bind_result (bind_result r f) g = bind_result r (\<lambda>a. bind_result (f a) g)"
  by (cases r) simp_all

lemma validate_for_first:
  "validate_for si sp d = (case spec_validate si sp of Err e \<Rightarrow> Err e | Ok _ \<Rightarrow> first_unmet (unmet sp d))"
proof -
  let ?cs = "ds_capabilities d" and ?r = "sp_resources sp" and ?t = "sp_timers sp"
  have net: "(case network_requested (sp_network sp) of None \<Rightarrow> Ok () | Some (c, f) \<Rightarrow> require (c \<in> ds_network d) f) =
    check_features
      [(sp_network sp = AllowAll, AllowAllMode \<in> ds_network d, ''network''),
       (sp_network sp = Block, BlockMode \<in> ds_network d, ''network''),
       (\<exists>l. sp_network sp = CidrAllowList l, CidrAllowListMode \<in> ds_network d, ''network''),
       (\<exists>l. sp_network sp = DomainAllowList l, DomainAllowListMode \<in> ds_network d, ''network'')]"
    by (cases "sp_network sp") (simp_all add: network_requested_def require_def)
  have gpu: "(case gpus ?r of None \<Rightarrow> False | Some n \<Rightarrow> n \<noteq> 0) = (gpus ?r \<noteq> None \<and> gpus ?r \<noteq> Some 0)"
    by (cases "gpus ?r") auto
  have sv: "(sp_services sp = [] \<or> cs_services ?cs) = (sp_services sp \<noteq> [] \<longrightarrow> cs_services ?cs)"
    by auto
  have "validate_for si sp d = bind_result (spec_validate si sp) (\<lambda>_. check_features (feature_table sp d))"
    unfolding validate_for_def Let_def net resources_requested_def timers_requested_def gpu sv feature_table_def
    by (cases "sp_container sp") (simp_all add: container_requested_def bind_assoc)
  then show ?thesis
    by (cases "spec_validate si sp") (simp_all add: check_features_first unmet_def)
qed

text \<open>
  C19. Admission is exact. A workload is admitted just if it satisfies the portable rules and the
  provider advertises every feature it asks for, explicit disabling included; when it is refused for
  a feature, the error names the first one that is not advertised. An environment that passes reaches
  a process unchanged.
\<close>

theorem admission_exact:
  "validate_for si sp d =
     (case spec_validate si sp of Err e \<Rightarrow> Err e | Ok _ \<Rightarrow> first_unmet (unmet sp d)) \<and>
   (spec_validate si sp = Ok () \<longleftrightarrow> portable sp) \<and>
   (portable sp \<longrightarrow> read_env_block (env_block (sp_env sp)) = map Some (sp_env sp))"
proof -
  have "portable sp \<Longrightarrow> env_ok (sp_env sp)"
    by (simp add: portable_def)
  then show ?thesis
    using validate_for_first [of si sp d] spec_validate_Ok [of si sp] env_block_reads_back [of "sp_env sp"] by blast
qed

theorem admission_exact_witness:
  "read_env_block (env_block [(''A'', ''b=c''), (''PATH'', ''/bin'')]) =
     [Some (''A'', ''b=c''), Some (''PATH'', ''/bin'')]"
proof -
  let ?sp = "(sandbox_spec_new SourceHostDirectory :: unit sandbox_spec)
      \<lparr>sp_env := [(''A'', ''b=c''), (''PATH'', ''/bin'')]\<rparr>"
  have "portable ?sp"
    by (simp add: portable_def sandbox_spec_new_def source_blank_def env_ok_def valid_env_key_def)
  then have "read_env_block (env_block (sp_env ?sp)) = map Some (sp_env ?sp)"
    using admission_exact by blast
  then show ?thesis by simp
qed

lemma validate_name_Ok: "validate_name path v = Ok () \<longleftrightarrow> v \<noteq> [] \<and> NUL \<notin> set v"
  by (simp add: validate_name_def)

lemma validate_opt_name_Ok: "validate_opt_name path v = Ok () \<longleftrightarrow> (\<forall>n. v = Some n \<longrightarrow> n \<noteq> [] \<and> NUL \<notin> set n)"
  by (auto simp: validate_opt_name_def validate_name_Ok split: option.splits)

text \<open>What an accepted execution or one-shot container hands a process survives as C strings.\<close>

lemma exec_request_Ok:
  "exec_request_validate x = Ok () \<longleftrightarrow>
     argv_ok (xr_argv x) \<and> env_ok (xr_env x) \<and>
     (\<forall>n. xr_working_directory x = Some n \<longrightarrow> n \<noteq> [] \<and> NUL \<notin> set n)"
  by (auto simp: exec_request_validate_def bind_result_Ok_iff validate_argv_Ok validate_opt_name_Ok validate_env_Ok)

lemma one_shot_request_Ok:
  "one_shot_request_validate r = Ok () \<Longrightarrow>
     env_ok (or_env r) \<and> (\<forall>a\<in>set (or_args r). NUL \<notin> set a) \<and>
     (\<forall>n. or_entrypoint r = Some n \<longrightarrow> n \<noteq> [] \<and> NUL \<notin> set n)"
  by (auto simp: one_shot_request_validate_def bind_result_Ok_iff validate_opt_name_Ok validate_env_Ok list_ex_iff
      split: if_splits)

lemma network_of_raw_roundtrip:
  "network_of_raw mode allow = Ok p \<Longrightarrow>
     (case network_requested p of None \<Rightarrow> mode = ProviderDefaultMode \<and> allow = None | Some (m, _) \<Rightarrow> m = mode) \<and>
     (allow \<noteq> None \<longleftrightarrow> (\<exists>l. p = CidrAllowList l \<or> p = DomainAllowList l))"
  by (cases mode; cases allow) (auto simp: network_of_raw_def network_requested_def)

end
