(* ===== verification/Catalog.thy ===== *)
theory Catalog
  imports Workload "HOL-Library.Multiset"
begin

section \<open>The catalog of providers (contract/catalog.rs, contract/config.rs, contract/schema.rs)\<close>

text \<open>
  A catalog binds names to provider entries and starts a provider on first use. The factories,
  runtimes and sandboxes of providers, the credential store and the store of environments are code
  of others: handles on a world of their own, with one function per method. The JSON Schema engine
  is a parameter too. A verb changes the catalog's state and the world and stops at its first error.
\<close>

subsection \<open>Provider entries (contract/config.rs)\<close>

datatype plugin_trust = TrustSha256 string | Development

record 'j provider_entry =
  pe_plugin :: string
  pe_config :: "(string, 'j) btree_map"
  pe_secrets :: "string list"
  pe_path :: "string option"
  pe_trust :: "plugin_trust option"
  pe_args :: "string list"
  pe_env :: "(string, string) btree_map"
  pe_inherit_env :: "string list option"

record 'j raw_provider_entry =
  rw_plugin :: string
  rw_config :: "(string, 'j) btree_map"
  rw_secrets :: "string list"
  rw_path :: "string option"
  rw_sha256 :: "string option"
  rw_dev :: bool
  rw_args :: "string list"
  rw_env :: "(string, string) btree_map"
  rw_inherit_env :: "string list option"

definition entry_of_raw :: "'j raw_provider_entry \<Rightarrow> (string, 'j provider_entry) result" where
  "entry_of_raw raw =
     (let make = (\<lambda>trust. \<lparr>pe_plugin = rw_plugin raw, pe_config = rw_config raw, pe_secrets = rw_secrets raw,
                    pe_path = rw_path raw, pe_trust = trust, pe_args = rw_args raw, pe_env = rw_env raw,
                    pe_inherit_env = rw_inherit_env raw\<rparr>) in
      case (rw_sha256 raw, rw_dev raw) of
        (Some _, True) \<Rightarrow> Err ''dev trust does not take a sha256 pin''
      | (Some digest, False) \<Rightarrow> Ok (make (Some (TrustSha256 digest)))
      | (None, True) \<Rightarrow> Ok (make (Some Development))
      | (None, False) \<Rightarrow> Ok (make None))"

definition raw_of_entry :: "'j provider_entry \<Rightarrow> 'j raw_provider_entry" where
  "raw_of_entry e =
     (let (sha, dev) = (case pe_trust e of
          Some (TrustSha256 digest) \<Rightarrow> (Some digest, False)
        | Some Development \<Rightarrow> (None, True)
        | None \<Rightarrow> (None, False)) in
      \<lparr>rw_plugin = pe_plugin e, rw_config = pe_config e, rw_secrets = pe_secrets e, rw_path = pe_path e,
       rw_sha256 = sha, rw_dev = dev, rw_args = pe_args e, rw_env = pe_env e, rw_inherit_env = pe_inherit_env e\<rparr>)"

subsection \<open>Adapters\<close>

record 'f registry =
  rg_builtins :: "(string, 'f) btree_map"
  rg_plugins :: "'f option"

definition registry_new :: "'f registry" where
  "registry_new = \<lparr>rg_builtins = [], rg_plugins = None\<rparr>"

definition registry_plugins :: "'f \<Rightarrow> 'f registry \<Rightarrow> 'f registry" where
  "registry_plugins f r = r\<lparr>rg_plugins := Some f\<rparr>"

definition registry_builtin :: "string \<Rightarrow> 'f \<Rightarrow> 'f registry \<Rightarrow> (contract_error, 'f registry) result" where
  "registry_builtin kind f r =
     (if kind = ''host'' \<or> map_of (rg_builtins r) kind \<noteq> None
      then Err (Unsupported_c ''duplicate registration or built-in Host'')
      else Ok (r\<lparr>rg_builtins := bt_insert kind f (rg_builtins r)\<rparr>))"

definition registry_factory :: "'f registry \<Rightarrow> 'j provider_entry \<Rightarrow> 'f option" where
  "registry_factory r e =
     (if pe_path e \<noteq> None \<or> pe_trust e \<noteq> None then rg_plugins r
      else (case map_of (rg_builtins r) (pe_plugin e) of Some f \<Rightarrow> Some f | None \<Rightarrow> rg_plugins r))"

subsection \<open>Schemas (contract/schema.rs)\<close>

datatype draft = Draft7 | Draft201909 | Draft202012

record ('j, 'v) json_engine =
  je_as_str :: "'j \<Rightarrow> string option"
  je_build :: "draft \<Rightarrow> 'j json_schema \<Rightarrow> 'v option"
  je_validate :: "'v \<Rightarrow> (string, 'j) btree_map \<Rightarrow> string option"

record 'v schemas =
  sc_config :: 'v
  sc_spec :: "'v option"

definition draft_of :: "('j, 'v) json_engine \<Rightarrow> 'j json_schema \<Rightarrow> draft option" where
  "draft_of eng schema =
     (case Option.bind (map_of schema ''$schema'') (je_as_str eng) of
        None \<Rightarrow> None
      | Some s \<Rightarrow>
          if s = ''http://json-schema.org/draft-07/schema#'' then Some Draft7
          else if s = ''https://json-schema.org/draft/2019-09/schema'' then Some Draft201909
          else if s = ''https://json-schema.org/draft/2020-12/schema'' then Some Draft202012
          else None)"

definition compile_schema ::
    "('j, 'v) json_engine \<Rightarrow> string \<Rightarrow> string \<Rightarrow> 'j json_schema \<Rightarrow> (contract_error, 'v) result" where
  "compile_schema eng name path schema =
     (case draft_of eng schema of
        None \<Rightarrow> Err (InvalidConfig name path
          ''requires a supported declared JSON Schema dialect (draft-07, 2019-09 or 2020-12)'')
      | Some d \<Rightarrow>
          (case je_build eng d schema of
             None \<Rightarrow> Err (InvalidConfig name path ''invalid schema or unresolved external reference'')
           | Some v \<Rightarrow> Ok v))"

definition schemas_compile ::
    "('j, 'v) json_engine \<Rightarrow> string \<Rightarrow> 'j provider_schemas \<Rightarrow> (contract_error, 'v schemas) result" where
  "schemas_compile eng name ps =
     bind_result (compile_schema eng name ''config_schema'' (ps_config_schema ps)) (\<lambda>config.
     case ps_spec_schema ps of
       None \<Rightarrow> Ok \<lparr>sc_config = config, sc_spec = None\<rparr>
     | Some schema \<Rightarrow>
         bind_result (compile_schema eng name ''spec_schema'' schema) (\<lambda>v.
         Ok \<lparr>sc_config = config, sc_spec = Some v\<rparr>))"

definition schemas_config ::
    "('j, 'v) json_engine \<Rightarrow> 'v schemas \<Rightarrow> string \<Rightarrow> (string, 'j) btree_map \<Rightarrow> check" where
  "schemas_config eng s name config =
     (case je_validate eng (sc_config s) config of
        None \<Rightarrow> Ok ()
      | Some path \<Rightarrow> Err (InvalidConfig name (''config'' @ path) ''does not satisfy provider config_schema''))"

definition schemas_spec :: "('j, 'v) json_engine \<Rightarrow> 'v schemas \<Rightarrow> (string, 'j) btree_map \<Rightarrow> check" where
  "schemas_spec eng s config =
     (case sc_spec s of
        None \<Rightarrow> Ok ()
      | Some v \<Rightarrow>
          (case je_validate eng v config of
             None \<Rightarrow> Ok ()
           | Some path \<Rightarrow> Err (InvalidSpec_c (''provider_config'' @ path) ''does not satisfy provider spec_schema'')))"

subsection \<open>The boundary to providers (contract/runtime.rs, contract/identity.rs)\<close>

record sandbox_ref =
  rf_provider :: string
  rf_namespace :: string
  rf_id :: string

definition check_namespace :: "sandbox_ref \<Rightarrow> string \<Rightarrow> check" where
  "check_namespace r observed =
     (if rf_namespace r = observed then Ok () else Err (NamespaceMismatch (rf_namespace r) observed))"

type_synonym label_filter = "(string, string) btree_map"

definition filter_matches :: "label_filter \<Rightarrow> (string, string) btree_map \<Rightarrow> bool" where
  "filter_matches f ls \<longleftrightarrow> list_all (\<lambda>(key, v). map_of ls key = Some v) f"

datatype contract_state =
    Creating_c | Starting_c | Running_c | Stopping_c | Stopped_c | Paused_c | Archived_c | Deleting_c | Deleted_c
  | Unhealthy_c | Unavailable_c | Lost_c | Unknown_c

record sandbox_summary =
  sm_reference :: sandbox_ref
  sm_name :: "string option"
  sm_state :: contract_state
  sm_labels :: "(string, string) btree_map"

record health =
  hl_healthy :: bool
  hl_message :: "string option"

record plugin_location =
  pl_kind :: string
  pl_path :: "string option"
  pl_trust :: "plugin_trust option"

record 'j activation =
  at_name :: string
  at_entry :: "'j provider_entry"
  at_schemas :: "'j provider_schemas"
  at_environment :: "(string, string) btree_map"
  at_secrets :: "(string, string) btree_map"

record 'j workload_admission =
  wa_spec :: "'j sandbox_spec"
  wa_credentials :: "(string, string) btree_map"

type_synonym ('w, 'a) call = "'w \<Rightarrow> 'w \<times> (contract_error, 'a) result"

record ('w, 'f, 'r, 's, 'j) backend =
  be_discover :: "'f \<Rightarrow> plugin_location \<Rightarrow> ('w, 'j provider_schemas) call"
  be_activate :: "'f \<Rightarrow> 'j activation \<Rightarrow> ('w, 'r) call"
  be_describe :: "'r \<Rightarrow> ('w, 'j descriptor) call"
  be_health :: "'r \<Rightarrow> ('w, health) call"
  be_create :: "'r \<Rightarrow> 'j workload_admission \<Rightarrow> ('w, 's) call"
  be_attach :: "'r \<Rightarrow> string \<Rightarrow> ('w, 's) call"
  be_list :: "'r \<Rightarrow> label_filter \<Rightarrow> ('w, sandbox_summary list) call"
  be_destroy :: "'r \<Rightarrow> string \<Rightarrow> ('w, unit) call"
  be_shutdown :: "'r \<Rightarrow> ('w, unit) call"
  be_reference :: "'s \<Rightarrow> sandbox_ref"
  be_resolve :: "string \<Rightarrow> ('w, string option) call"
  be_env_names :: "('w, string list) call"
  be_env_get :: "string \<Rightarrow> ('w, 'j environment option) call"

subsection \<open>Entries and the catalog\<close>

record ('j, 'f) entry =
  et_name :: string
  et_config :: "'j provider_entry"
  et_environment :: "(string, string) btree_map"
  et_factory :: "'f option"
  et_local_error :: "contract_error option"

record ('j, 'v, 'r) active =
  ac_runtime :: 'r
  ac_schemas :: "'v schemas"
  ac_descriptor :: "'j descriptor"

record ('w, 'j, 'v, 'r) catalog_state =
  cs_active :: "string \<Rightarrow> ('j, 'v, 'r) active option"
  cs_closed :: bool
  cs_shutdown_result :: "check option"
  cs_world :: 'w

type_synonym ('j, 'f) catalog = "(string, ('j, 'f) entry) btree_map"

definition unavailable :: "string \<Rightarrow> mutation_outcome \<Rightarrow> contract_error" where
  "unavailable message outcome = Unavailable message outcome"

definition transport_c :: "string \<Rightarrow> contract_error" where
  "transport_c message = Transport_c message OutcomeUnknown"

definition launch_environment ::
    "'j provider_entry \<Rightarrow> (string, string) btree_map \<Rightarrow> (string, string) btree_map" where
  "launch_environment e ambient =
     (let names = (case pe_inherit_env e of Some ns \<Rightarrow> ns | None \<Rightarrow> [''PATH'', ''HOME'', ''TMPDIR'', ''USER'']);
          inherited = bt_collect (List.map_filter (\<lambda>n. map_option (Pair n) (map_of ambient n))
                        (filter (\<lambda>n. n \<notin> set (pe_secrets e)) names)) in
      bt_extend inherited (pe_env e))"

definition is_err :: "('e, 'a) result \<Rightarrow> bool" where
  "is_err r = (case r of Err _ \<Rightarrow> True | Ok _ \<Rightarrow> False)"

definition validate_entry :: "string \<Rightarrow> 'j provider_entry \<Rightarrow> check" where
  "validate_entry name e =
     (if is_err (validate_env ''env'' (pe_env e))
      then Err (InvalidConfig name ''env'' ''invalid launch environment'')
      else if \<not> distinct (pe_secrets e) \<or> list_ex (\<lambda>k. \<not> valid_env_key k) (pe_secrets e)
      then Err (InvalidConfig name ''secrets'' ''secret names must be unique valid environment keys'')
      else if list_ex (\<lambda>(k, _). k \<in> set (pe_secrets e)) (pe_env e)
      then Err (InvalidConfig name ''env'' ''explicit environment conflicts with a secret name'')
      else if (case pe_inherit_env e of None \<Rightarrow> False | Some ns \<Rightarrow> list_ex (\<lambda>n. \<not> valid_env_key n) ns)
      then Err (InvalidConfig name ''inherit_env'' ''invalid environment key'')
      else if list_ex (\<lambda>a. NUL \<in> set a) (pe_args e) \<or>
              (case pe_path e of None \<Rightarrow> False | Some p \<Rightarrow> validate_name ''path'' p \<noteq> Ok ())
      then Err (InvalidConfig name ''launch'' ''invalid executable path or argument'')
      else Ok ())"

definition local_error_of :: "string \<Rightarrow> 'j provider_entry \<Rightarrow> (string, string) btree_map \<Rightarrow> contract_error option" where
  "local_error_of name config environ =
     (case validate_entry name config of
        Err e \<Rightarrow> Some e
      | Ok _ \<Rightarrow> if is_err (validate_env ''env'' environ)
               then Some (InvalidConfig name ''inherit_env'' ''invalid inherited environment'') else None)"

fun catalog_entries ::
    "'f registry \<Rightarrow> (string, string) btree_map \<Rightarrow> ('j, 'f) catalog \<Rightarrow> (string \<times> 'j provider_entry) list \<Rightarrow>
     (contract_error, ('j, 'f) catalog) result" where
  "catalog_entries reg ambient acc [] = Ok acc"
| "catalog_entries reg ambient acc ((name, config) # ps) =
     (if map_of acc name \<noteq> None then Err (InvalidConfig name ''provider'' ''duplicate provider entry'')
      else let environ = launch_environment config ambient in
        catalog_entries reg ambient
          (bt_insert name \<lparr>et_name = name, et_config = config, et_environment = environ,
                           et_factory = registry_factory reg config,
                           et_local_error = local_error_of name config environ\<rparr> acc) ps)"

definition sandboxes_try_new ::
    "'f registry \<Rightarrow> (string, string) btree_map \<Rightarrow> (string \<times> 'j provider_entry) list \<Rightarrow>
     (contract_error, ('j, 'f) catalog) result" where
  "sandboxes_try_new reg ambient providers = catalog_entries reg ambient [] providers"

subsection \<open>Verbs\<close>

type_synonym ('w, 'j, 'v, 'r, 'a) verb =
  "('w, 'j, 'v, 'r) catalog_state \<Rightarrow> ('w, 'j, 'v, 'r) catalog_state \<times> (contract_error, 'a) result"

definition vbind :: "('st \<Rightarrow> 'st \<times> ('e, 'a) result) \<Rightarrow> ('a \<Rightarrow> 'st \<Rightarrow> 'st \<times> ('e, 'b) result) \<Rightarrow> 'st \<Rightarrow> 'st \<times> ('e, 'b) result" where
  "vbind m f st = (case m st of (st', Err e) \<Rightarrow> (st', Err e) | (st', Ok a) \<Rightarrow> f a st')"

definition vof :: "('e, 'a) result \<Rightarrow> 'st \<Rightarrow> 'st \<times> ('e, 'a) result" where
  "vof r st = (st, r)"

definition ask :: "('w, 'a) call \<Rightarrow> ('w, 'j, 'v, 'r, 'a) verb" where
  "ask c st = (case c (cs_world st) of (w, r) \<Rightarrow> (st\<lparr>cs_world := w\<rparr>, r))"

definition ensure_open :: "('w, 'j, 'v, 'r, unit) verb" where
  "ensure_open st = (st, if cs_closed st then Err (Stale NotStarted) else Ok ())"

fun resolve_names ::
    "('w, 'f, 'r, 's, 'j) backend \<Rightarrow> string \<Rightarrow> (string, string) btree_map \<Rightarrow> string list \<Rightarrow>
     ('w, 'j, 'v, 'r, (string, string) btree_map) verb" where
  "resolve_names be entry_name got [] = vof (Ok got)"
| "resolve_names be entry_name got (n # ns) =
     (if map_of got n \<noteq> None then resolve_names be entry_name got ns
      else vbind (ask (be_resolve be n)) (\<lambda>v.
        case v of
          None \<Rightarrow> vof (Err (MissingSecret entry_name n))
        | Some s \<Rightarrow>
            if NUL \<in> set s then vof (Err (InvalidConfig entry_name ''secrets'' ''secret value contains NUL''))
            else resolve_names be entry_name (bt_insert n s got) ns))"

definition resolve_secrets ::
    "('w, 'f, 'r, 's, 'j) backend \<Rightarrow> string \<Rightarrow> string list \<Rightarrow> ('w, 'j, 'v, 'r, (string, string) btree_map) verb" where
  "resolve_secrets be entry_name names = resolve_names be entry_name [] names"

definition declared_secrets :: "string \<Rightarrow> string list \<Rightarrow> string list \<Rightarrow> check" where
  "declared_secrets entry_name given required =
     (case List.find (\<lambda>n. n \<notin> set given) required of
        None \<Rightarrow> Ok () | Some n \<Rightarrow> Err (MissingSecret entry_name n))"

definition set_active ::
    "string \<Rightarrow> ('j, 'v, 'r) active \<Rightarrow> ('w, 'j, 'v, 'r, ('j, 'v, 'r) active) verb" where
  "set_active name a st = (st\<lparr>cs_active := (cs_active st)(name \<mapsto> a)\<rparr>, Ok a)"

text \<open>The check of a fresh runtime against what was discovered; a runtime that fails it is shut down.\<close>

definition checked_descriptor ::
    "('w, 'f, 'r, 's, 'j) backend \<Rightarrow> string \<Rightarrow> 'j provider_schemas \<Rightarrow> 'r \<Rightarrow> ('w, 'j, 'v, 'r, 'j descriptor) verb" where
  "checked_descriptor be name metadata r st =
     (case ask (be_describe be r) st of
        (st1, res) \<Rightarrow>
          (case bind_result res (\<lambda>d. if ds_schemas d = metadata then Ok d
                  else Err (InvalidConfig name ''schemas'' ''runtime metadata disagrees with discovery'')) of
             Ok d \<Rightarrow> (st1, Ok d)
           | Err e \<Rightarrow> vbind (ask (be_shutdown be r)) (\<lambda>_. vof (Err e)) st1))"

definition activate ::
    "('w, 'f, 'r, 's, 'j) backend \<Rightarrow> ('j, 'v) json_engine \<Rightarrow> ('j, 'f) entry \<Rightarrow> 'f \<Rightarrow>
     ('w, 'j, 'v, 'r, ('j, 'v, 'r) active) verb" where
  "activate be eng e f =
     (let name = et_name e; config = et_config e in
      vbind (ask (be_discover be f \<lparr>pl_kind = pe_plugin config, pl_path = pe_path config, pl_trust = pe_trust config\<rparr>)) (\<lambda>metadata.
      if ps_kind metadata \<noteq> pe_plugin config
      then vof (Err (InvalidConfig name ''plugin'' ''metadata kind differs from configured plugin''))
      else
      vbind (vof (schemas_compile eng name metadata)) (\<lambda>schemas.
      vbind (vof (schemas_config eng schemas name (pe_config config))) (\<lambda>_.
      vbind (vof (declared_secrets name (pe_secrets config) (ps_secrets metadata))) (\<lambda>_.
      vbind (resolve_secrets be name (pe_secrets config)) (\<lambda>secrets.
      vbind (ask (be_activate be f \<lparr>at_name = name, at_entry = config, at_schemas = metadata,
                    at_environment = et_environment e, at_secrets = secrets\<rparr>)) (\<lambda>r.
      vbind (checked_descriptor be name metadata r) (\<lambda>d.
      set_active name \<lparr>ac_runtime = r, ac_schemas = schemas, ac_descriptor = d\<rparr>))))))))"

definition entry_active ::
    "('w, 'f, 'r, 's, 'j) backend \<Rightarrow> ('j, 'v) json_engine \<Rightarrow> ('j, 'f) entry \<Rightarrow>
     ('w, 'j, 'v, 'r, ('j, 'v, 'r) active) verb" where
  "entry_active be eng e =
     vbind ensure_open (\<lambda>_ st.
       case cs_active st (et_name e) of
         Some a \<Rightarrow> (st, Ok a)
       | None \<Rightarrow>
           (case et_local_error e of
              Some err \<Rightarrow> (st, Err err)
            | None \<Rightarrow>
                (case et_factory e of
                   None \<Rightarrow> (st, Err (unavailable ''provider adapter is not installed'' NotStarted))
                 | Some f \<Rightarrow> activate be eng e f st)))"

definition ready ::
    "('w, 'f, 'r, 's, 'j) backend \<Rightarrow> ('j, 'v) json_engine \<Rightarrow> ('j, 'f) entry \<Rightarrow>
     ('w, 'j, 'v, 'r, ('j, 'v, 'r) active \<times> 'j descriptor) verb" where
  "ready be eng e =
     vbind (entry_active be eng e) (\<lambda>a.
     vbind ensure_open (\<lambda>_.
     vbind (ask (be_describe be (ac_runtime a))) (\<lambda>d.
     vof (if ds_schemas d \<noteq> ds_schemas (ac_descriptor a)
          then Err (transport_c ''runtime metadata changed after activation'')
          else if ds_namespace d \<noteq> ds_namespace (ac_descriptor a)
          then Err (NamespaceMismatch (ns_id (ds_namespace (ac_descriptor a))) (ns_id (ds_namespace d)))
          else Ok (a, d)))))"

definition admit ::
    "('w, 'f, 'r, 's, 'j) backend \<Rightarrow> ('j, 'v) json_engine \<Rightarrow> (invalid_id \<Rightarrow> string) \<Rightarrow> ('j, 'f) entry \<Rightarrow>
     'j sandbox_spec \<Rightarrow> ('w, 'j, 'v, 'r, ('j, 'v, 'r) active \<times> 'j descriptor) verb" where
  "admit be eng si e sp =
     vbind (vof (spec_validate si sp)) (\<lambda>_.
     vbind (ready be eng e) (\<lambda>(a, d).
     vbind (vof (validate_for si sp d)) (\<lambda>_.
     vbind (vof (schemas_spec eng (ac_schemas a) (sp_provider_config sp))) (\<lambda>_.
     vof (Ok (a, d))))))"

definition validate_spec where
  "validate_spec be eng si e sp = vbind (admit be eng si e sp) (\<lambda>_. vof (Ok ()))"

definition entry_describe where
  "entry_describe be eng e = vbind (ready be eng e) (\<lambda>(_, d). vof (Ok d))"

definition entry_health where
  "entry_health be eng e = vbind (entry_active be eng e) (\<lambda>a. ask (be_health be (ac_runtime a)))"

text \<open>One entry's inventory: a provider that answers for another entry or namespace, or with labels
  that do not match, or twice and differently for one sandbox, is not believed at all.\<close>

fun unique_summaries ::
    "string \<Rightarrow> string \<Rightarrow> label_filter \<Rightarrow> (string, sandbox_summary) btree_map \<Rightarrow> sandbox_summary list \<Rightarrow>
     (contract_error, (string, sandbox_summary) btree_map) result" where
  "unique_summaries name ns f got [] = Ok got"
| "unique_summaries name ns f got (s # ss) =
     (if rf_provider (sm_reference s) \<noteq> name \<or> rf_namespace (sm_reference s) \<noteq> ns \<or> \<not> filter_matches f (sm_labels s)
      then Err (transport_c ''inventory returned a mismatched reference or labels'')
      else case map_of got (rf_id (sm_reference s)) of
             None \<Rightarrow> unique_summaries name ns f (bt_insert (rf_id (sm_reference s)) s got) ss
           | Some s' \<Rightarrow>
               if s' \<noteq> s then Err (transport_c ''inventory returned conflicting duplicate references'')
               else unique_summaries name ns f got ss)"

definition entry_list ::
    "('w, 'f, 'r, 's, 'j) backend \<Rightarrow> ('j, 'v) json_engine \<Rightarrow> ('j, 'f) entry \<Rightarrow> label_filter \<Rightarrow>
     ('w, 'j, 'v, 'r, sandbox_summary list) verb" where
  "entry_list be eng e f =
     vbind (ready be eng e) (\<lambda>(a, d).
     vbind (ask (be_list be (ac_runtime a) f)) (\<lambda>matches.
     vof (bind_result (unique_summaries (et_name e) (ns_id (ds_namespace d)) f [] matches) (\<lambda>m. Ok (map snd m)))))"

definition catalog_handle :: "('j, 'f) catalog \<Rightarrow> string \<Rightarrow> (contract_error, ('j, 'f) entry) result" where
  "catalog_handle cat name = (case map_of cat name of None \<Rightarrow> Err (NoProvider name) | Some e \<Rightarrow> Ok e)"

definition catalog_provider :: "('j, 'f) catalog \<Rightarrow> string \<Rightarrow> (contract_error, ('j, 'f) entry) result" where
  "catalog_provider cat name =
     (case try_new ProviderName name of
        Err _ \<Rightarrow> Err (InvalidSpec_c ''provider'' ''invalid provider entry name'')
      | Ok n \<Rightarrow> catalog_handle cat n)"

definition route ::
    "('w, 'f, 'r, 's, 'j) backend \<Rightarrow> ('j, 'v) json_engine \<Rightarrow> ('j, 'f) catalog \<Rightarrow> sandbox_ref \<Rightarrow>
     ('w, 'j, 'v, 'r, ('j, 'v, 'r) active) verb" where
  "route be eng cat ref =
     vbind (vof (catalog_handle cat (rf_provider ref))) (\<lambda>e.
     vbind (ready be eng e) (\<lambda>(a, d).
     vbind (vof (check_namespace ref (ns_id (ds_namespace d)))) (\<lambda>_.
     vof (Ok a))))"

definition catalog_attach ::
    "('w, 'f, 'r, 's, 'j) backend \<Rightarrow> ('j, 'v) json_engine \<Rightarrow> ('j, 'f) catalog \<Rightarrow> sandbox_ref \<Rightarrow>
     ('w, 'j, 'v, 'r, 's) verb" where
  "catalog_attach be eng cat ref =
     vbind (route be eng cat ref) (\<lambda>a.
     vbind (ask (be_attach be (ac_runtime a) (rf_id ref))) (\<lambda>s.
     vof (if be_reference be s \<noteq> ref then Err (transport_c ''attach returned a different sandbox reference'')
          else Ok s)))"

definition catalog_destroy ::
    "('w, 'f, 'r, 's, 'j) backend \<Rightarrow> ('j, 'v) json_engine \<Rightarrow> ('j, 'f) catalog \<Rightarrow> sandbox_ref \<Rightarrow>
     ('w, 'j, 'v, 'r, unit) verb" where
  "catalog_destroy be eng cat ref =
     vbind (route be eng cat ref) (\<lambda>a. ask (be_destroy be (ac_runtime a) (rf_id ref)))"

definition catalog_environment ::
    "('w, 'f, 'r, 's, 'j) backend \<Rightarrow> string \<Rightarrow> ('w, 'j, 'v, 'r, 'j environment) verb" where
  "catalog_environment be name =
     vbind (vof (case try_new EnvironmentName name of
              Err _ \<Rightarrow> Err (InvalidSpec_c ''environment'' ''invalid environment name'') | Ok n \<Rightarrow> Ok n)) (\<lambda>n.
     vbind (ask (be_env_get be name)) (\<lambda>e.
     vof (case e of None \<Rightarrow> Err (NoEnvironment n) | Some x \<Rightarrow> Ok x)))"

subsection \<open>Building and creating a sandbox\<close>

record ('j, 'f) builder =
  bd_entry :: "('j, 'f) entry"
  bd_spec :: "'j sandbox_spec"
  bd_error :: "contract_error option"

definition catalog_builder ::
    "('w, 'f, 'r, 's, 'j) backend \<Rightarrow> ('j, 'f) catalog \<Rightarrow> string \<Rightarrow> ('w, 'j, 'v, 'r, ('j, 'f) builder) verb" where
  "catalog_builder be cat name =
     vbind (catalog_environment be name) (\<lambda>x.
     vof (bind_result (catalog_handle cat (en_provider x)) (\<lambda>e.
       Ok \<lparr>bd_entry = e, bd_spec = en_spec x, bd_error = None\<rparr>)))"

datatype 'j change =
    SetSpec "'j sandbox_spec" | SetImage string | SetDockerfile string | AddLabel string string | AddEnv string string
  | SetWorkingDirectory string | SetUser string | SetNetwork network_policy | SetTimers timers | SetCpu nat
  | SetMemory string | SetDisk string | AddProviderConfig "(string, 'j) btree_map"

definition builder_size :: "(string \<Rightarrow> string) \<Rightarrow> string \<Rightarrow> nat option" where
  "builder_size dbg v = (case parse_size_mib dbg v of Err _ \<Rightarrow> None | Ok n \<Rightarrow> if n = 0 then None else Some n)"

definition defer_size_error :: "string \<Rightarrow> ('j, 'f) builder \<Rightarrow> ('j, 'f) builder" where
  "defer_size_error path b =
     b\<lparr>bd_error := (case bd_error b of Some e \<Rightarrow> Some e
                    | None \<Rightarrow> Some (InvalidSpec_c path ''requires a positive size with units''))\<rparr>"

definition on_spec :: "('j sandbox_spec \<Rightarrow> 'j sandbox_spec) \<Rightarrow> ('j, 'f) builder \<Rightarrow> ('j, 'f) builder" where
  "on_spec f b = b\<lparr>bd_spec := f (bd_spec b)\<rparr>"

definition builder_apply :: "(string \<Rightarrow> string) \<Rightarrow> 'j change \<Rightarrow> ('j, 'f) builder \<Rightarrow> ('j, 'f) builder" where
  "builder_apply dbg c =
     (case c of
        SetSpec sp \<Rightarrow> on_spec (\<lambda>_. sp)
      | SetImage i \<Rightarrow> on_spec (\<lambda>sp. sp\<lparr>sp_source := SourceImage i\<rparr>)
      | SetDockerfile d \<Rightarrow> on_spec (\<lambda>sp. sp\<lparr>sp_source := SourceDockerfile d\<rparr>)
      | AddLabel k v \<Rightarrow> on_spec (\<lambda>sp. sp\<lparr>sp_labels := bt_insert k v (sp_labels sp)\<rparr>)
      | AddEnv k v \<Rightarrow> on_spec (\<lambda>sp. sp\<lparr>sp_env := bt_insert k v (sp_env sp)\<rparr>)
      | SetWorkingDirectory p \<Rightarrow> on_spec (\<lambda>sp. sp\<lparr>sp_working_directory := Some p\<rparr>)
      | SetUser u \<Rightarrow> on_spec (\<lambda>sp. sp\<lparr>sp_user := Some u\<rparr>)
      | SetNetwork n \<Rightarrow> on_spec (\<lambda>sp. sp\<lparr>sp_network := n\<rparr>)
      | SetTimers t \<Rightarrow> on_spec (\<lambda>sp. sp\<lparr>sp_timers := t\<rparr>)
      | SetCpu n \<Rightarrow> on_spec (\<lambda>sp. sp\<lparr>sp_resources := (sp_resources sp)\<lparr>cpu_cores := Some n\<rparr>\<rparr>)
      | SetMemory v \<Rightarrow>
          (case builder_size dbg v of
             None \<Rightarrow> defer_size_error ''resources.memory''
           | Some n \<Rightarrow> on_spec (\<lambda>sp. sp\<lparr>sp_resources := (sp_resources sp)\<lparr>memory_mb := Some n\<rparr>\<rparr>))
      | SetDisk v \<Rightarrow>
          (case builder_size dbg v of
             None \<Rightarrow> defer_size_error ''resources.disk''
           | Some n \<Rightarrow> on_spec (\<lambda>sp. sp\<lparr>sp_resources := (sp_resources sp)\<lparr>disk_mb := Some n\<rparr>\<rparr>))
      | AddProviderConfig m \<Rightarrow> on_spec (\<lambda>sp. sp\<lparr>sp_provider_config := bt_extend (sp_provider_config sp) m\<rparr>))"

definition service_credentials :: "'j sandbox_spec \<Rightarrow> string list" where
  "service_credentials sp = List.map_filter (sr_credential \<circ> snd) (sp_services sp)"

definition builder_create ::
    "('w, 'f, 'r, 's, 'j) backend \<Rightarrow> ('j, 'v) json_engine \<Rightarrow> (invalid_id \<Rightarrow> string) \<Rightarrow> ('j, 'f) builder \<Rightarrow>
     ('w, 'j, 'v, 'r, 's) verb" where
  "builder_create be eng si b =
     (case bd_error b of
        Some e \<Rightarrow> vof (Err e)
      | None \<Rightarrow>
          vbind (admit be eng si (bd_entry b) (bd_spec b)) (\<lambda>(a, d).
          vbind (resolve_secrets be (et_name (bd_entry b)) (service_credentials (bd_spec b))) (\<lambda>credentials.
          vbind (ask (be_create be (ac_runtime a) \<lparr>wa_spec = bd_spec b, wa_credentials = credentials\<rparr>)) (\<lambda>s.
          let ref = be_reference be s in
          vof (if rf_provider ref \<noteq> et_name (bd_entry b) \<or> rf_namespace ref \<noteq> ns_id (ds_namespace d)
               then Err (transport_c ''create returned a mismatched provider or namespace; outcome is unknown'')
               else Ok s)))))"

subsection \<open>Inventory over all entries\<close>

text \<open>The entries are asked concurrently, so their answers are complete in some order; an answer that
  misses the deadline is an error of its own. \<open>find_collect\<close> is what is made of the answers.\<close>

record found =
  fd_sandboxes :: "sandbox_summary list"
  fd_unavailable :: "string list"
  fd_failures :: "(string \<times> contract_error) list"

definition deadline_elapsed :: contract_error where
  "deadline_elapsed = unavailable ''inventory deadline elapsed'' NotStarted"

definition find_step :: "found \<Rightarrow> string \<times> (contract_error, sandbox_summary list) result \<Rightarrow> found" where
  "find_step fd x =
     (case x of
        (_, Ok ms) \<Rightarrow> fd\<lparr>fd_sandboxes := fd_sandboxes fd @ ms\<rparr>
      | (e, Err err) \<Rightarrow> fd\<lparr>fd_unavailable := fd_unavailable fd @ [e], fd_failures := fd_failures fd @ [(e, err)]\<rparr>)"

definition find_collect :: "(string \<times> (contract_error, sandbox_summary list) result) list \<Rightarrow> found" where
  "find_collect results =
     foldl find_step \<lparr>fd_sandboxes = [], fd_unavailable = [], fd_failures = []\<rparr> (sort_key fst results)"

subsection \<open>Diagnostics\<close>

record catalog_diagnostic =
  dg_environment :: "string option"
  dg_entry :: string
  dg_error :: contract_error

definition local_diagnostics :: "('j, 'f) catalog \<Rightarrow> catalog_diagnostic list" where
  "local_diagnostics cat =
     List.map_filter (\<lambda>(_, e). map_option (\<lambda>err. \<lparr>dg_environment = None, dg_entry = et_name e, dg_error = err\<rparr>)
       (et_local_error e)) cat"

fun environment_diagnostics ::
    "('w, 'f, 'r, 's, 'j) backend \<Rightarrow> ('j, 'f) catalog \<Rightarrow> catalog_diagnostic list \<Rightarrow> string list \<Rightarrow>
     ('w, 'j, 'v, 'r, catalog_diagnostic list) verb" where
  "environment_diagnostics be cat acc [] = vof (Ok acc)"
| "environment_diagnostics be cat acc (n # ns) =
     vbind (ask (be_env_get be n)) (\<lambda>x.
       case x of
         None \<Rightarrow> environment_diagnostics be cat acc ns
       | Some en \<Rightarrow>
           if map_of cat (en_provider en) = None
           then environment_diagnostics be cat
                  (acc @ [\<lparr>dg_environment = Some n, dg_entry = en_provider en, dg_error = NoProvider (en_provider en)\<rparr>]) ns
           else environment_diagnostics be cat acc ns)"

definition catalog_diagnostics ::
    "('w, 'f, 'r, 's, 'j) backend \<Rightarrow> ('j, 'f) catalog \<Rightarrow> ('w, 'j, 'v, 'r, catalog_diagnostic list) verb" where
  "catalog_diagnostics be cat =
     vbind (ask (be_env_names be)) (\<lambda>ns. environment_diagnostics be cat (local_diagnostics cat) ns)"

subsection \<open>Shutting down\<close>

text \<open>Every entry that was activated is tried, in the order of names, also after a failure; the first
  failure is reported, and the result is kept for every later caller. Entries are locked one by one;
  how that interleaves with activations is the subject of \<open>Catalog_Life\<close>.\<close>

fun shutdown_entries ::
    "('w, 'f, 'r, 's, 'j) backend \<Rightarrow> ('j, 'f) catalog \<Rightarrow> ('w, 'j, 'v, 'r) catalog_state \<Rightarrow>
     ('w, 'j, 'v, 'r) catalog_state \<times> check list" where
  "shutdown_entries be [] st = (st, [])"
| "shutdown_entries be ((_, e) # es) st =
     (case cs_active st (et_name e) of
        None \<Rightarrow> map_prod id ((#) (Ok ())) (shutdown_entries be es st)
      | Some a \<Rightarrow>
          (case ask (be_shutdown be (ac_runtime a)) st of
             (st', r) \<Rightarrow> map_prod id ((#) r) (shutdown_entries be es st')))"

fun first_failure :: "check list \<Rightarrow> check" where
  "first_failure [] = Ok ()"
| "first_failure (r # rs) = bind_result r (\<lambda>_. first_failure rs)"

definition catalog_shutdown :: "('w, 'f, 'r, 's, 'j) backend \<Rightarrow> ('j, 'f) catalog \<Rightarrow> ('w, 'j, 'v, 'r, unit) verb" where
  "catalog_shutdown be cat st =
     (let st0 = st\<lparr>cs_closed := True\<rparr> in
      case cs_shutdown_result st0 of
        Some r \<Rightarrow> (st0, r)
      | None \<Rightarrow>
          (case shutdown_entries be cat st0 of
             (st1, rs) \<Rightarrow> (st1\<lparr>cs_shutdown_result := Some (first_failure rs)\<rparr>, first_failure rs)))"

subsection \<open>What entries are\<close>

lemma entry_raw_roundtrip: "entry_of_raw (raw_of_entry e) = Ok e"
  by (cases e; cases "pe_trust e") (auto simp: entry_of_raw_def raw_of_entry_def split: plugin_trust.splits option.splits)

lemma raw_entry_roundtrip: "entry_of_raw raw = Ok e \<Longrightarrow> raw_of_entry e = raw"
  by (cases raw) (auto simp: entry_of_raw_def raw_of_entry_def Let_def split: option.splits bool.splits)

text \<open>A pinned or located plugin is never served by a built-in of the same kind, and the host provider
  is never built in.\<close>

lemma pinned_is_plugin: "pe_path e \<noteq> None \<or> pe_trust e \<noteq> None \<Longrightarrow> registry_factory r e = rg_plugins r"
  by (simp add: registry_factory_def)

lemma registry_builtin_host: "registry_builtin kind f r = Ok r' \<Longrightarrow> map_of (rg_builtins r) ''host'' = None \<Longrightarrow>
   map_of (rg_builtins r') ''host'' = None"
  by (auto simp: registry_builtin_def split: if_splits)

lemma map_of_map_filter_ambient:
  "map_of (rev (List.map_filter (\<lambda>n. map_option (Pair n) (map_of amb n)) ns)) k = (if k \<in> set ns then map_of amb k else None)"
  by (induction ns) (auto simp: map_add_def split: option.splits if_splits)

text \<open>What a provider process is started with: its own entries win, names listed are inherited, and
  a name that is a secret is never taken from the ambient environment.\<close>

lemma launch_environment_get:
  "bt_ok (pe_env e) \<Longrightarrow>
   map_of (launch_environment e ambient) k =
     (case map_of (pe_env e) k of
        Some v \<Rightarrow> Some v
      | None \<Rightarrow>
          if k \<in> set (case pe_inherit_env e of Some ns \<Rightarrow> ns | None \<Rightarrow> [''PATH'', ''HOME'', ''TMPDIR'', ''USER'']) \<and>
             k \<notin> set (pe_secrets e)
          then map_of ambient k else None)"
proof -
  assume ok: "bt_ok (pe_env e)"
  have rv: "map_of (rev (pe_env e)) = map_of (pe_env e)"
    using map_of_eqI [of "rev (pe_env e)" "pe_env e"] by (metis bt_ok_distinct distinct_rev map_of_inject_set ok rev_map set_rev)
  show ?thesis
    by (simp add: launch_environment_def Let_def bt_extend_get rv map_add_def map_of_map_filter_ambient split: option.split)
qed

lemma catalog_entries_ok:
  assumes "catalog_entries reg amb acc ps = Ok cat" "bt_ok acc" "\<forall>(n, e)\<in>set acc. et_name e = n"
  shows "bt_ok cat \<and> (\<forall>n e. map_of cat n = Some e \<longrightarrow> et_name e = n)"
  using assms
proof (induction reg amb acc ps rule: catalog_entries.induct)
  case (1 reg amb acc)
  then show ?case by (auto dest: map_of_SomeD)
next
  case (2 reg amb acc name config ps)
  let ?e = "\<lparr>et_name = name, et_config = config, et_environment = launch_environment config amb,
     et_factory = registry_factory reg config, et_local_error = local_error_of name config (launch_environment config amb)\<rparr>"
  have "\<forall>(n, e)\<in>set (bt_insert name ?e acc). et_name e = n"
    using "2.prems"(3) bt_insert_set [of name ?e acc] by fastforce
  with 2 show ?case by (auto simp: Let_def split: if_splits)
qed

lemma try_new_names: "sandboxes_try_new reg amb ps = Ok cat \<Longrightarrow> map_of cat n = Some e \<Longrightarrow> et_name e = n"
  using catalog_entries_ok [of reg amb "[]" ps cat] by (simp add: sandboxes_try_new_def)

subsection \<open>Reasoning about verbs\<close>

lemma vbind_Ok: "vbind m f st = (st', Ok b) \<longleftrightarrow> (\<exists>st1 a. m st = (st1, Ok a) \<and> f a st1 = (st', Ok b))"
  by (auto simp: vbind_def split: prod.splits sum.splits)

lemma vof_eq [simp]: "vof r st = (st', r') \<longleftrightarrow> st' = st \<and> r = r'"
  by (auto simp: vof_def)

lemma ask_state: "ask c st = (st', r) \<Longrightarrow> cs_active st' = cs_active st \<and> cs_closed st' = cs_closed st"
  by (auto simp: ask_def split: prod.splits)

lemma ensure_open_Ok: "ensure_open st = (st', Ok u) \<longleftrightarrow> st' = st \<and> \<not> cs_closed st"
  by (auto simp: ensure_open_def)

text \<open>No admission, route or inventory depends on what creating, attaching or destroying does.\<close>

lemma resolve_names_indep:
  "resolve_names (be\<lparr>be_create := c\<rparr>) n got ns = resolve_names be n got ns"
  "resolve_names (be\<lparr>be_attach := c'\<rparr>) n got ns = resolve_names be n got ns"
  "resolve_names (be\<lparr>be_destroy := c''\<rparr>) n got ns = resolve_names be n got ns"
  by (induction ns arbitrary: got) (auto simp: fun_eq_iff vbind_def split: prod.splits sum.splits option.splits)

lemma activate_indep:
  "activate (be\<lparr>be_create := c\<rparr>) eng e f = activate be eng e f"
  "activate (be\<lparr>be_attach := c'\<rparr>) eng e f = activate be eng e f"
  "activate (be\<lparr>be_destroy := c''\<rparr>) eng e f = activate be eng e f"
  by (simp_all add: activate_def checked_descriptor_def [abs_def] resolve_secrets_def [abs_def] resolve_names_indep
      cong: if_cong sum.case_cong prod.case_cong)

lemma ready_indep:
  "ready (be\<lparr>be_create := c\<rparr>) eng e = ready be eng e"
  "ready (be\<lparr>be_attach := c'\<rparr>) eng e = ready be eng e"
  "ready (be\<lparr>be_destroy := c''\<rparr>) eng e = ready be eng e"
  by (simp_all add: ready_def entry_active_def activate_indep cong: option.case_cong)

lemma admit_indep: "admit (be\<lparr>be_create := c\<rparr>) eng si e sp = admit be eng si e sp"
  by (simp add: admit_def ready_indep)

lemma route_indep:
  "route (be\<lparr>be_attach := c'\<rparr>) eng cat ref = route be eng cat ref"
  "route (be\<lparr>be_destroy := c''\<rparr>) eng cat ref = route be eng cat ref"
  by (simp_all add: route_def ready_indep)

lemma resolve_names_frame:
  "resolve_names be n got ns st = (st', r) \<Longrightarrow> cs_active st' = cs_active st \<and> cs_closed st' = cs_closed st"
proof (induction ns arbitrary: got st)
  case (Cons k ns)
  show ?case
  proof (cases "map_of got k")
    case None
    obtain st1 r1 where a: "ask (be_resolve be k) st = (st1, r1)" by fastforce
    with Cons None show ?thesis
      by (auto simp: vbind_def split: sum.splits option.splits if_splits dest!: ask_state)
  qed (use Cons in auto)
qed auto

lemma checked_descriptor_frame:
  "checked_descriptor be n md r st = (st', res) \<Longrightarrow> cs_active st' = cs_active st \<and> cs_closed st' = cs_closed st"
  by (auto simp: checked_descriptor_def vbind_def split: prod.splits sum.splits dest!: ask_state)

lemma checked_descriptor_Ok:
  "checked_descriptor be n md r st = (st', Ok d) \<Longrightarrow> ds_schemas d = md"
  by (auto simp: checked_descriptor_def vbind_def bind_result_Ok_iff split: prod.splits sum.splits if_splits)

text \<open>Activation either records the runtime it started or leaves the entry as it was.\<close>

lemma activate_frame:
  assumes "activate be eng e f st = (st', res)"
  shows "cs_closed st' = cs_closed st \<and>
    (case res of Ok a \<Rightarrow> cs_active st' = (cs_active st)(et_name e \<mapsto> a) | Err _ \<Rightarrow> cs_active st' = cs_active st)"
  using assms
  by (auto simp: activate_def Let_def vbind_def vof_def set_active_def resolve_secrets_def
      split: prod.splits sum.splits if_splits dest!: ask_state resolve_names_frame checked_descriptor_frame)

lemma entry_active_Ok:
  assumes "entry_active be eng e st = (st', Ok a)"
  shows "cs_active st' (et_name e) = Some a \<and> \<not> cs_closed st' \<and> entry_active be eng e st' = (st', Ok a)"
proof -
  have "\<not> cs_closed st" and *: "cs_active st' (et_name e) = Some a" "cs_closed st' = cs_closed st"
    using assms activate_frame [of be eng e _ st st' "Ok a"]
    by (auto simp: entry_active_def vbind_Ok ensure_open_Ok split: option.splits)
  then show ?thesis by (simp add: entry_active_def vbind_def ensure_open_def)
qed

lemma shutdown_entries_frame:
  "shutdown_entries be es st = (st', rs) \<Longrightarrow>
     cs_closed st' = cs_closed st \<and> cs_active st' = cs_active st \<and> length rs = length es"
proof (induction es arbitrary: st st' rs)
  case (Cons x es)
  obtain n e where x: "x = (n, e)" by (cases x)
  show ?case
  proof (cases "cs_active st (et_name e)")
    case None
    with Cons.prems x obtain rs' where "shutdown_entries be es st = (st', rs')" "rs = Ok () # rs'"
      by (cases "shutdown_entries be es st") auto
    with Cons.IH [of st st' rs'] show ?thesis by simp
  next
    case (Some a)
    obtain st1 r where a: "ask (be_shutdown be (ac_runtime a)) st = (st1, r)" by fastforce
    with Cons.prems x Some obtain rs' where "shutdown_entries be es st1 = (st', rs')" "rs = r # rs'"
      by (cases "shutdown_entries be es st1") auto
    with Cons.IH [of st1 st' rs'] ask_state [OF a] show ?thesis by simp
  qed
qed simp

lemma catalog_shutdown_closes:
  assumes "catalog_shutdown be cat st = (st', r)"
  shows "cs_closed st' \<and> entry_active be' eng e st' = (st', Err (Stale NotStarted)) \<and>
    (cs_shutdown_result st' = Some r \<longrightarrow> catalog_shutdown be'' cat st' = (st', r))"
proof -
  have "cs_closed st'"
    using assms by (auto simp: catalog_shutdown_def Let_def split: option.splits prod.splits dest!: shutdown_entries_frame)
  then have "st'\<lparr>cs_closed := True\<rparr> = st'" by simp
  with \<open>cs_closed st'\<close> show ?thesis
    by (simp add: entry_active_def vbind_def ensure_open_def catalog_shutdown_def Let_def)
qed

lemma ready_Ok:
  assumes "ready be eng e st = (st', Ok (a, d))"
  shows "cs_active st' (et_name e) = Some a \<and> ds_schemas d = ds_schemas (ac_descriptor a) \<and>
    ds_namespace d = ds_namespace (ac_descriptor a)"
proof -
  from assms obtain st1 where a: "entry_active be eng e st = (st1, Ok a)"
    and d: "ask (be_describe be (ac_runtime a)) st1 = (st', Ok d)"
    and eq: "ds_schemas d = ds_schemas (ac_descriptor a)" "ds_namespace d = ds_namespace (ac_descriptor a)"
    by (auto simp: ready_def vbind_Ok ensure_open_Ok split: if_splits)
  from entry_active_Ok [OF a] ask_state [OF d] eq show ?thesis by simp
qed

lemma admit_Ok:
  assumes "admit be eng si e sp st = (st', Ok (a, d))"
  shows "portable sp \<and> unmet sp d = [] \<and> ready be eng e st = (st', Ok (a, d)) \<and>
    schemas_spec eng (ac_schemas a) (sp_provider_config sp) = Ok ()"
proof -
  have "spec_validate si sp = Ok ()" "validate_for si sp d = Ok ()" "ready be eng e st = (st', Ok (a, d))"
    "schemas_spec eng (ac_schemas a) (sp_provider_config sp) = Ok ()"
    using assms by (auto simp: admit_def vbind_Ok)
  moreover from this have "unmet sp d = []"
    using validate_for_first [of si sp d] by (cases "unmet sp d") (auto simp: first_unmet_def)
  ultimately show ?thesis by (simp add: spec_validate_Ok)
qed

text \<open>
  C17. Nothing is created that was not admitted. A builder with an invalid size or a workload that
  breaks the portable rules is refused before anything is started. Whatever is refused, is refused
  without the provider's create being called. And a sandbox that is returned was created by the
  runtime of the entry asked for, from a workload whose every request that runtime advertised when
  it was last asked, in the namespace it had when it was activated.
\<close>

theorem create_only_admitted:
  "(bd_error b \<noteq> None \<or> \<not> portable (bd_spec b) \<longrightarrow>
      fst (builder_create be eng si b st) = st \<and> is_err (snd (builder_create be eng si b st))) \<and>
   ((\<nexists>st1 x. admit be eng si (bd_entry b) (bd_spec b) st = (st1, Ok x)) \<longrightarrow>
      builder_create (be\<lparr>be_create := c\<rparr>) eng si b st = builder_create be eng si b st) \<and>
   (\<forall>st' s. builder_create be eng si b st = (st', Ok s) \<longrightarrow>
      (\<exists>st1 a d. ready be eng (bd_entry b) st = (st1, Ok (a, d)) \<and> cs_active st1 (et_name (bd_entry b)) = Some a \<and>
         portable (bd_spec b) \<and> unmet (bd_spec b) d = [] \<and>
         rf_provider (be_reference be s) = et_name (bd_entry b) \<and>
         rf_namespace (be_reference be s) = ns_id (ds_namespace (ac_descriptor a))))"
  (is "?A \<and> ?B \<and> ?C")
proof -
  have ?A
    by (auto simp: builder_create_def admit_def vbind_def vof_def is_err_def spec_validate_Ok [of si, symmetric]
        split: option.splits sum.splits)
  moreover have ?B
    by (auto simp: builder_create_def vbind_def admit_indep resolve_secrets_def resolve_names_indep
        split: option.splits sum.splits prod.splits)
  moreover have ?C
    by (fastforce simp: builder_create_def vbind_Ok Let_def split: option.splits if_splits dest!: admit_Ok dest: ready_Ok)
  ultimately show ?thesis by blast
qed

text \<open>A provider that accepts everything, for concrete instances.\<close>

definition plain_schemas :: "string provider_schemas" where
  "plain_schemas = \<lparr>ps_kind = ''demo'', ps_version = ''1'',
     ps_config_schema = [(''$schema'', ''https://json-schema.org/draft/2020-12/schema'')], ps_spec_schema = None, ps_secrets = []\<rparr>"

definition plain_descriptor :: "string descriptor" where
  "plain_descriptor = \<lparr>ds_schemas = plain_schemas, ds_namespace = \<lparr>ns_id = ''ns'', ns_scope = ScopeMachine\<rparr>,
     ds_isolation = IsolationNone, ds_durability = DurableMachine, ds_access = OwnerProcess, ds_sources = {HostDirectoryKind},
     ds_locality = \<lparr>lc_host_address = None, lc_mounts_host_paths = True\<rparr>, ds_resources = {}, ds_network = {},
     ds_ports = NoPorts, ds_capabilities = \<lparr>cs_lifecycle = {}, cs_endpoints = {}, cs_services = False,
     cs_containers = False, cs_container_fields = {}, cs_timers = {}\<rparr>\<rparr>"

definition plain_backend :: "(unit, unit, unit, sandbox_ref, string) backend" where
  "plain_backend =
     \<lparr>be_discover = \<lambda>_ _ w. (w, Ok plain_schemas), be_activate = \<lambda>_ _ w. (w, Ok ()),
      be_describe = \<lambda>_ w. (w, Ok plain_descriptor), be_health = \<lambda>_ w. (w, Ok \<lparr>hl_healthy = True, hl_message = None\<rparr>),
      be_create = \<lambda>_ _ w. (w, Ok \<lparr>rf_provider = ''p'', rf_namespace = ''ns'', rf_id = ''1''\<rparr>),
      be_attach = \<lambda>_ i w. (w, Ok \<lparr>rf_provider = ''p'', rf_namespace = ''ns'', rf_id = i\<rparr>),
      be_list = \<lambda>_ _ w. (w, Ok []), be_destroy = \<lambda>_ _ w. (w, Ok ()), be_shutdown = \<lambda>_ w. (w, Ok ()),
      be_reference = id, be_resolve = \<lambda>_ w. (w, Ok None), be_env_names = \<lambda>w. (w, Ok []), be_env_get = \<lambda>_ w. (w, Ok None)\<rparr>"

definition plain_engine :: "(string, unit) json_engine" where
  "plain_engine = \<lparr>je_as_str = Some, je_build = \<lambda>_ _. Some (), je_validate = \<lambda>_ _. None\<rparr>"

definition plain_config :: "string provider_entry" where
  "plain_config = \<lparr>pe_plugin = ''demo'', pe_config = [], pe_secrets = [], pe_path = None, pe_trust = None, pe_args = [],
     pe_env = [], pe_inherit_env = Some []\<rparr>"

definition plain_entry :: "(string, unit) entry" where
  "plain_entry = \<lparr>et_name = ''p'', et_config = plain_config, et_environment = [], et_factory = Some (), et_local_error = None\<rparr>"

definition plain_state :: "(unit, string, unit, unit) catalog_state" where
  "plain_state = \<lparr>cs_active = Map.empty, cs_closed = False, cs_shutdown_result = None, cs_world = ()\<rparr>"

lemmas plain_defs = plain_schemas_def plain_descriptor_def plain_backend_def plain_engine_def plain_config_def
  plain_entry_def plain_state_def

lemma plain_ready:
  "\<exists>st a. ready plain_backend plain_engine plain_entry plain_state = (st, Ok (a, plain_descriptor)) \<and>
     ac_schemas a = \<lparr>sc_config = (), sc_spec = None\<rparr>"
  by (simp add: plain_defs ready_def entry_active_def activate_def vbind_def vof_def ask_def ensure_open_def set_active_def
      resolve_secrets_def checked_descriptor_def declared_secrets_def schemas_compile_def schemas_config_def
      compile_schema_def draft_of_def Let_def)

theorem create_only_admitted_witness:
  "\<exists>st' s. builder_create plain_backend plain_engine iv_reason
      \<lparr>bd_entry = plain_entry, bd_spec = sandbox_spec_new SourceHostDirectory, bd_error = None\<rparr> plain_state = (st', Ok s) \<and>
     rf_provider (be_reference plain_backend s) = ''p''"
proof -
  let ?sp = "sandbox_spec_new SourceHostDirectory :: string sandbox_spec"
  let ?b = "\<lparr>bd_entry = plain_entry, bd_spec = ?sp, bd_error = None\<rparr>"
  obtain st a where r: "ready plain_backend plain_engine plain_entry plain_state = (st, Ok (a, plain_descriptor))"
    and a: "ac_schemas a = \<lparr>sc_config = (), sc_spec = None\<rparr>"
    using plain_ready by blast
  have p: "portable ?sp"
    by (simp add: portable_def sandbox_spec_new_def source_blank_def env_ok_def)
  have u: "unmet ?sp plain_descriptor = []"
    by (simp add: unmet_def feature_table_def sandbox_spec_new_def plain_descriptor_def resources_default_def timers_default_def)
  have v: "spec_validate iv_reason ?sp = Ok ()" using p by (simp add: spec_validate_Ok)
  with u have vf: "validate_for iv_reason ?sp plain_descriptor = Ok ()"
    by (simp add: validate_for_first first_unmet_def)
  have "admit plain_backend plain_engine iv_reason plain_entry ?sp plain_state = (st, Ok (a, plain_descriptor))"
    using r a by (simp add: admit_def vbind_def vof_def v vf schemas_spec_def)
  then obtain st' s where c: "builder_create plain_backend plain_engine iv_reason ?b plain_state = (st', Ok s)"
    by (auto simp: builder_create_def vbind_def vof_def service_credentials_def sandbox_spec_new_def resolve_secrets_def
        ask_def plain_backend_def plain_entry_def plain_descriptor_def)
  with create_only_admitted [of ?b plain_backend plain_engine iv_reason plain_state]
  have "rf_provider (be_reference plain_backend s) = et_name (bd_entry ?b)" by blast
  with c show ?thesis by (auto simp: plain_entry_def)
qed

subsection \<open>References and inventory\<close>

lemma route_Ok:
  assumes "route be eng cat ref st = (st', Ok a)"
  shows "\<exists>e. map_of cat (rf_provider ref) = Some e \<and> cs_active st' (et_name e) = Some a \<and>
    ns_id (ds_namespace (ac_descriptor a)) = rf_namespace ref"
proof -
  from assms obtain e d where "catalog_handle cat (rf_provider ref) = Ok e" and r: "ready be eng e st = (st', Ok (a, d))"
    and n: "check_namespace ref (ns_id (ds_namespace d)) = Ok ()"
    by (auto simp: route_def vbind_Ok)
  moreover from this(1) have "map_of cat (rf_provider ref) = Some e"
    by (auto simp: catalog_handle_def split: option.splits)
  ultimately show ?thesis using ready_Ok [OF r] by (auto simp: check_namespace_def split: if_splits)
qed

text \<open>
  C18. A saved reference reaches only the sandbox it names. Destroying and attaching go to the
  runtime that the catalog has active under the reference's entry, whose namespace is the
  reference's; otherwise the result does not depend on what the provider's destroy and attach do,
  so that neither is called. And what attaching returns carries the reference itself.
\<close>

theorem reference_routing:
  assumes "sandboxes_try_new reg ambient providers = Ok cat"
  shows "(\<forall>st' a. route be eng cat ref st = (st', Ok a) \<longrightarrow>
       cs_active st' (rf_provider ref) = Some a \<and> ns_id (ds_namespace (ac_descriptor a)) = rf_namespace ref) \<and>
     ((\<nexists>st' a. route be eng cat ref st = (st', Ok a)) \<longrightarrow>
       catalog_destroy (be\<lparr>be_destroy := dest\<rparr>) eng cat ref st = catalog_destroy be eng cat ref st \<and>
       catalog_attach (be\<lparr>be_attach := att\<rparr>) eng cat ref st = catalog_attach be eng cat ref st) \<and>
     (\<forall>st' s. catalog_attach be eng cat ref st = (st', Ok s) \<longrightarrow> be_reference be s = ref)"
proof -
  have "cs_active st' (rf_provider ref) = Some a \<and> ns_id (ds_namespace (ac_descriptor a)) = rf_namespace ref"
    if "route be eng cat ref st = (st', Ok a)" for st' a
    using route_Ok [OF that] try_new_names [OF assms] by auto
  moreover have "catalog_destroy (be\<lparr>be_destroy := dest\<rparr>) eng cat ref st = catalog_destroy be eng cat ref st"
    "catalog_attach (be\<lparr>be_attach := att\<rparr>) eng cat ref st = catalog_attach be eng cat ref st"
    if "\<nexists>st' a. route be eng cat ref st = (st', Ok a)"
    using that by (auto simp: catalog_destroy_def catalog_attach_def vbind_def route_indep split: prod.splits sum.splits)
  moreover have "be_reference be s = ref" if "catalog_attach be eng cat ref st = (st', Ok s)" for st' s
    using that by (auto simp: catalog_attach_def vbind_Ok split: if_splits)
  ultimately show ?thesis by blast
qed

theorem reference_routing_witness:
  "\<exists>cat. sandboxes_try_new (registry_plugins () registry_new) [] [(''p'', plain_config)] = Ok cat \<and>
     catalog_destroy (plain_backend\<lparr>be_destroy := \<lambda>_ _ w. (w, Err (Busy []))\<rparr>) plain_engine cat
       \<lparr>rf_provider = ''q'', rf_namespace = ''ns'', rf_id = ''1''\<rparr> plain_state = (plain_state, Err (NoProvider ''q''))"
proof -
  let ?ref = "\<lparr>rf_provider = ''q'', rf_namespace = ''ns'', rf_id = ''1''\<rparr>"
  obtain cat where cat: "sandboxes_try_new (registry_plugins () registry_new) [] [(''p'', plain_config)] = Ok cat"
    and q: "map_of cat ''q'' = None"
    by (simp add: sandboxes_try_new_def Let_def)
  have r: "route plain_backend plain_engine cat ?ref plain_state = (plain_state, Err (NoProvider ''q''))"
    by (simp add: route_def vbind_def vof_def catalog_handle_def q)
  then have "catalog_destroy plain_backend plain_engine cat ?ref plain_state = (plain_state, Err (NoProvider ''q''))"
    by (simp add: catalog_destroy_def vbind_def)
  moreover have "catalog_destroy (plain_backend\<lparr>be_destroy := \<lambda>_ _ w. (w, Err (Busy []))\<rparr>) plain_engine cat ?ref plain_state =
      catalog_destroy plain_backend plain_engine cat ?ref plain_state"
    using reference_routing [OF cat, of plain_backend plain_engine ?ref plain_state "\<lambda>_ _ w. (w, Err (Busy []))"] r by auto
  ultimately show ?thesis using cat by auto
qed

lemma unique_summaries_Ok:
  assumes "unique_summaries name ns f got ss = Ok m" "bt_ok got" "\<forall>(i, s)\<in>set got. rf_id (sm_reference s) = i"
  shows "bt_ok m \<and> (\<forall>(i, s)\<in>set m. rf_id (sm_reference s) = i) \<and> snd ` set m = snd ` set got \<union> set ss \<and>
    (\<forall>s\<in>set ss. rf_provider (sm_reference s) = name \<and> rf_namespace (sm_reference s) = ns \<and> filter_matches f (sm_labels s))"
  using assms
proof (induction name ns f got ss rule: unique_summaries.induct)
  case (2 name ns f got s ss)
  let ?i = "rf_id (sm_reference s)"
  from "2.prems"(1) have fits: "rf_provider (sm_reference s) = name" "rf_namespace (sm_reference s) = ns"
    "filter_matches f (sm_labels s)"
    by (auto split: if_splits)
  show ?case
  proof (cases "map_of got ?i")
    case None
    then have new: "?i \<notin> fst ` set got" by (simp add: map_of_eq_None_iff)
    have ids: "\<forall>(i, x)\<in>set (bt_insert ?i s got). rf_id (sm_reference x) = i"
      using "2.prems"(3) bt_insert_set [of ?i s got] by fastforce
    have "unique_summaries name ns f (bt_insert ?i s got) ss = Ok m"
      using "2.prems"(1) None fits by simp
    from "2.IH"(1) [OF _ None this bt_insert_ok [OF "2.prems"(2)] ids] fits
    have "bt_ok m" "\<forall>(i, s)\<in>set m. rf_id (sm_reference s) = i"
      "snd ` set m = snd ` set (bt_insert ?i s got) \<union> set ss"
      "\<forall>s\<in>set ss. rf_provider (sm_reference s) = name \<and> rf_namespace (sm_reference s) = ns \<and> filter_matches f (sm_labels s)"
      by blast+
    with fits show ?thesis by (simp add: bt_insert_new [OF new])
  next
    case (Some s')
    then have got: "s' \<in> snd ` set got" by (metis image_eqI map_of_SomeD snd_conv)
    have eq: "s' = s" and "unique_summaries name ns f got ss = Ok m"
      using "2.prems"(1) Some fits by (auto split: if_splits)
    from "2.IH"(2) [OF _ Some _ this(2) "2.prems"(2,3)] fits eq
    have "bt_ok m" "\<forall>(i, s)\<in>set m. rf_id (sm_reference s) = i" "snd ` set m = snd ` set got \<union> set ss"
      "\<forall>s\<in>set ss. rf_provider (sm_reference s) = name \<and> rf_namespace (sm_reference s) = ns \<and> filter_matches f (sm_labels s)"
      by blast+
    with fits got show ?thesis unfolding eq by (simp add: insert_absorb)
  qed
qed auto

lemma sorted_ids:
  assumes "bt_ok m" "\<forall>(i, s)\<in>set m. rf_id (sm_reference s) = i"
  shows "sorted_wrt (<) (map (rf_id \<circ> sm_reference) (map snd m))"
proof -
  have eq: "map (rf_id \<circ> sm_reference) (map snd m) = map fst m"
    using assms(2) by auto
  show ?thesis using assms(1) unfolding eq bt_ok_def .
qed

lemma entry_list_Ok:
  assumes "entry_list be eng e f st = (st', Ok ss)"
  shows "sorted_wrt (<) (map (rf_id \<circ> sm_reference) ss) \<and>
    (\<exists>st1 a d raw. ready be eng e st = (st1, Ok (a, d)) \<and> ask (be_list be (ac_runtime a) f) st1 = (st', Ok raw) \<and>
       set ss = set raw \<and>
       (\<forall>s\<in>set ss. rf_provider (sm_reference s) = et_name e \<and> rf_namespace (sm_reference s) = ns_id (ds_namespace d) \<and>
          filter_matches f (sm_labels s)))"
proof -
  from assms obtain st1 a d raw m where *: "ready be eng e st = (st1, Ok (a, d))"
    "ask (be_list be (ac_runtime a) f) st1 = (st', Ok raw)"
    "unique_summaries (et_name e) (ns_id (ds_namespace d)) f [] raw = Ok m" "ss = map snd m"
    by (auto simp: entry_list_def vbind_Ok bind_result_Ok_iff)
  from unique_summaries_Ok [OF this(3)] have m: "bt_ok m" "\<forall>(i, s)\<in>set m. rf_id (sm_reference s) = i" "snd ` set m = set raw"
    "\<forall>s\<in>set raw. rf_provider (sm_reference s) = et_name e \<and> rf_namespace (sm_reference s) = ns_id (ds_namespace d) \<and>
       filter_matches f (sm_labels s)"
    by auto
  from sorted_ids [OF m(1,2)] have "sorted_wrt (<) (map (rf_id \<circ> sm_reference) ss)"
    by (simp add: *(4))
  moreover have "set ss = set raw" using m(3) *(4) by simp
  ultimately show ?thesis using * m(4) by blast
qed

lemma find_step_fold:
  "foldl find_step fd rs =
     \<lparr>fd_sandboxes = fd_sandboxes fd @ concat (map (\<lambda>(_, r). case r of Ok ms \<Rightarrow> ms | Err _ \<Rightarrow> []) rs),
      fd_unavailable = fd_unavailable fd @ map fst (filter (is_err \<circ> snd) rs),
      fd_failures = fd_failures fd @ List.map_filter (\<lambda>(e, r). case r of Ok _ \<Rightarrow> None | Err x \<Rightarrow> Some (e, x)) rs\<rparr>"
  by (induction rs arbitrary: fd) (auto simp: find_step_def is_err_def split: sum.splits)

lemma find_collect_order:
  assumes "distinct (map fst answers)" and "mset answers = mset answers'"
  shows "find_collect answers = find_collect answers'"
proof -
  have "inj_on fst (set answers)"
    using assms(1) by (simp add: distinct_map)
  then have "sort_key fst answers = sort_key fst answers'"
    using assms(2) by (intro sort_key_inj_key_eq) simp_all
  then show ?thesis by (simp add: find_collect_def)
qed

lemma find_collect_failures:
  "set (fd_failures (find_collect answers)) = {(e, err). (e, Err err) \<in> set answers}"
  "fd_unavailable (find_collect answers) = map fst (fd_failures (find_collect answers))"
  "sorted (fd_unavailable (find_collect answers))"
proof -
  have f: "set (List.map_filter (\<lambda>(e, r). case r of Ok _ \<Rightarrow> None | Err x \<Rightarrow> Some (e, x)) rs) =
      {(e, err). (e, Err err) \<in> set rs}" for rs :: "(string \<times> (contract_error, sandbox_summary list) result) list"
    by (induction rs) (auto split: sum.splits)
  show "set (fd_failures (find_collect answers)) = {(e, err). (e, Err err) \<in> set answers}"
    by (simp add: find_collect_def find_step_fold f)
  have "map fst (filter (is_err \<circ> snd) rs) =
      map fst (List.map_filter (\<lambda>(e, r). case r of Ok _ \<Rightarrow> None | Err x \<Rightarrow> Some (e, x)) rs)"
    for rs :: "(string \<times> (contract_error, sandbox_summary list) result) list"
    by (induction rs) (auto simp: is_err_def split: sum.splits)
  then show "fd_unavailable (find_collect answers) = map fst (fd_failures (find_collect answers))"
    by (simp add: find_collect_def find_step_fold)
  show "sorted (fd_unavailable (find_collect answers))"
    by (simp add: find_collect_def find_step_fold sorted_filter)
qed



end
