(* ===== verification/Catalog_Life.thy ===== *)
theory Catalog_Life
  imports Prelude
begin

section \<open>Activation against shutdown (contract/catalog.rs)\<close>

text \<open>
  An entry's provider is started by whichever caller needs it first, and any clone of the catalog
  may be shut down meanwhile. Between two awaits the code runs undisturbed; what may interleave are
  the pieces between them. An entry's lock is held through an activation, and through the shutdown
  of what the entry has active, so at most one of them is under way per entry: \<open>holder\<close> says how far
  it is. The future of an activation may be dropped at any await (an inventory that misses its
  deadline does so); that of a shutdown is taken to be awaited.

  The history keeps the runtimes a factory returned, those whose shutdown was called, and those
  that a dropped activation let go of.
\<close>

datatype 'r holder = Free | Activating | Launched 'r | Discarding | Stopping

record 'r life =
  lf_lock :: "string \<Rightarrow> 'r holder"
  lf_active :: "string \<Rightarrow> 'r option"
  lf_closed :: bool
  lf_pending :: "string set option"
  lf_done :: bool
  lf_launched :: "'r set"
  lf_stopped :: "'r list"
  lf_dropped :: "'r set"

definition life_new :: "'r life" where
  "life_new = \<lparr>lf_lock = \<lambda>_. Free, lf_active = \<lambda>_. None, lf_closed = False, lf_pending = None, lf_done = False,
     lf_launched = {}, lf_stopped = [], lf_dropped = {}\<rparr>"

text \<open>
  The steps of an activation: taking the lock and checking once more that the catalog is open;
  failing before a runtime exists; the factory's answer; the runtime's description accepted or
  rejected; the rejected runtime's shutdown; a dropped future. And of a shutdown: closing, the
  first caller to initialise the result, taking an entry's lock, its runtime's shutdown, the end.
\<close>

inductive life_step :: "string set \<Rightarrow> 'r life \<Rightarrow> 'r life \<Rightarrow> bool" for E where
  acquire: "e \<in> E \<Longrightarrow> lf_lock s e = Free \<Longrightarrow> \<not> lf_closed s \<Longrightarrow> lf_active s e = None \<Longrightarrow>
    life_step E s (s\<lparr>lf_lock := (lf_lock s)(e := Activating)\<rparr>)"
| fail: "lf_lock s e = Activating \<Longrightarrow> life_step E s (s\<lparr>lf_lock := (lf_lock s)(e := Free)\<rparr>)"
| launch: "lf_lock s e = Activating \<Longrightarrow> r \<notin> lf_launched s \<Longrightarrow>
    life_step E s (s\<lparr>lf_lock := (lf_lock s)(e := Launched r), lf_launched := insert r (lf_launched s)\<rparr>)"
| keep: "lf_lock s e = Launched r \<Longrightarrow>
    life_step E s (s\<lparr>lf_lock := (lf_lock s)(e := Free), lf_active := (lf_active s)(e \<mapsto> r)\<rparr>)"
| reject: "lf_lock s e = Launched r \<Longrightarrow>
    life_step E s (s\<lparr>lf_lock := (lf_lock s)(e := Discarding), lf_stopped := lf_stopped s @ [r]\<rparr>)"
| discarded: "lf_lock s e = Discarding \<Longrightarrow> life_step E s (s\<lparr>lf_lock := (lf_lock s)(e := Free)\<rparr>)"
| drop: "lf_lock s e = Launched r \<Longrightarrow>
    life_step E s (s\<lparr>lf_lock := (lf_lock s)(e := Free), lf_dropped := insert r (lf_dropped s)\<rparr>)"
| close: "life_step E s (s\<lparr>lf_closed := True\<rparr>)"
| begin_shutdown: "lf_closed s \<Longrightarrow> lf_pending s = None \<Longrightarrow> life_step E s (s\<lparr>lf_pending := Some E\<rparr>)"
| visit_idle: "lf_pending s = Some P \<Longrightarrow> e \<in> P \<Longrightarrow> lf_lock s e = Free \<Longrightarrow> lf_active s e = None \<Longrightarrow>
    life_step E s (s\<lparr>lf_pending := Some (P - {e})\<rparr>)"
| visit_active: "lf_pending s = Some P \<Longrightarrow> e \<in> P \<Longrightarrow> lf_lock s e = Free \<Longrightarrow> lf_active s e = Some r \<Longrightarrow>
    life_step E s (s\<lparr>lf_lock := (lf_lock s)(e := Stopping), lf_stopped := lf_stopped s @ [r]\<rparr>)"
| visited: "lf_pending s = Some P \<Longrightarrow> lf_lock s e = Stopping \<Longrightarrow>
    life_step E s (s\<lparr>lf_lock := (lf_lock s)(e := Free), lf_pending := Some (P - {e})\<rparr>)"
| finish: "lf_pending s = Some {} \<Longrightarrow> life_step E s (s\<lparr>lf_done := True\<rparr>)"

inductive_cases life_stepE: "life_step E s s'"

inductive life_reachable :: "string set \<Rightarrow> 'r life \<Rightarrow> bool" for E where
  start: "life_reachable E life_new"
| step: "life_reachable E s \<Longrightarrow> life_step E s s' \<Longrightarrow> life_reachable E s'"

subsection \<open>The invariant\<close>

definition owns :: "'r life \<Rightarrow> string \<Rightarrow> 'r \<Rightarrow> bool" where
  "owns s e r \<longleftrightarrow> lf_active s e = Some r \<or> lf_lock s e = Launched r"

text \<open>The entries a shutdown has got past.\<close>

definition past :: "'r life \<Rightarrow> string \<Rightarrow> bool" where
  "past s e \<longleftrightarrow> (case lf_pending s of None \<Rightarrow> False | Some P \<Rightarrow> e \<notin> P)"

definition inv_pending :: "string set \<Rightarrow> 'r life \<Rightarrow> bool" where
  "inv_pending E s \<longleftrightarrow>
     (case lf_pending s of None \<Rightarrow> \<not> lf_done s | Some P \<Rightarrow> lf_closed s \<and> P \<subseteq> E \<and> (lf_done s \<longrightarrow> P = {}))"

definition inv_lock :: "string set \<Rightarrow> 'r life \<Rightarrow> string \<Rightarrow> bool" where
  "inv_lock E s e \<longleftrightarrow>
     (lf_lock s e \<noteq> Free \<or> lf_active s e \<noteq> None \<longrightarrow> e \<in> E) \<and>
     (lf_active s e \<noteq> None \<longrightarrow> lf_lock s e = Free \<or> lf_lock s e = Stopping) \<and>
     (lf_lock s e = Stopping \<longrightarrow> lf_active s e \<noteq> None \<and> lf_pending s \<noteq> None) \<and>
     (past s e \<longrightarrow> lf_lock s e = Free)"

definition inv_stopped :: "'r life \<Rightarrow> string \<Rightarrow> 'r \<Rightarrow> bool" where
  "inv_stopped s e r \<longleftrightarrow>
     (owns s e r \<longrightarrow> r \<in> lf_launched s \<and> r \<notin> lf_dropped s \<and>
        (r \<in> set (lf_stopped s) \<longleftrightarrow> lf_lock s e = Stopping \<or> past s e))"

definition inv_once :: "'r life \<Rightarrow> bool" where
  "inv_once s \<longleftrightarrow> distinct (lf_stopped s) \<and> set (lf_stopped s) \<inter> lf_dropped s = {} \<and>
     set (lf_stopped s) \<union> lf_dropped s \<subseteq> lf_launched s"

definition inv_owned :: "'r life \<Rightarrow> 'r \<Rightarrow> bool" where
  "inv_owned s r \<longleftrightarrow> (r \<in> lf_launched s \<longrightarrow> (\<exists>e. owns s e r) \<or> r \<in> set (lf_stopped s) \<or> r \<in> lf_dropped s)"

definition inv_unique :: "'r life \<Rightarrow> bool" where
  "inv_unique s \<longleftrightarrow> (\<forall>e e' r. owns s e r \<longrightarrow> owns s e' r \<longrightarrow> e = e')"

definition life_inv :: "string set \<Rightarrow> 'r life \<Rightarrow> bool" where
  "life_inv E s \<longleftrightarrow> inv_pending E s \<and> (\<forall>e. inv_lock E s e) \<and> (\<forall>e r. inv_stopped s e r) \<and> inv_once s \<and>
     (\<forall>r. inv_owned s r) \<and> inv_unique s"

lemmas inv_defs = inv_pending_def inv_lock_def inv_stopped_def inv_once_def inv_owned_def inv_unique_def past_def owns_def

lemma inv_pending_step: "life_step E s s' \<Longrightarrow> inv_pending E s \<Longrightarrow> inv_pending E s'"
  by (erule life_step.cases) (auto simp: inv_pending_def split: option.splits)

lemma inv_lock_step:
  assumes "life_step E s s'" "inv_pending E s" "inv_lock E s x" shows "inv_lock E s' x"
  using assms
  by (cases rule: life_step.cases) (auto simp: inv_lock_def inv_pending_def past_def split: option.splits if_splits)

lemma inv_stopped_step:
  assumes "life_step E s s'" "life_inv E s" shows "inv_stopped s' x q"
proof -
  have l: "inv_lock E s x" and p: "inv_pending E s" and o: "inv_once s" and st: "inv_stopped s x q"
    and u: "\<And>e. owns s e q \<Longrightarrow> owns s x q \<Longrightarrow> e = x"
    using assms(2) by (auto simp: life_inv_def inv_unique_def)
  from assms(1) show ?thesis
  proof (cases rule: life_step.cases)
    case (launch e r)
    then show ?thesis using st l o by (cases "e = x") (auto simp: inv_stopped_def owns_def past_def inv_once_def inv_lock_def)
  next
    case (keep e r)
    then show ?thesis using st l by (cases "e = x") (auto simp: inv_stopped_def owns_def past_def inv_lock_def)
  next
    case (reject e r)
    then show ?thesis using st l u [of e] by (cases "e = x") (auto simp: inv_stopped_def owns_def past_def inv_lock_def)
  next
    case (drop e r)
    then show ?thesis using st l u [of e] by (cases "e = x") (auto simp: inv_stopped_def owns_def past_def inv_lock_def)
  next
    case (visit_active P e r)
    then show ?thesis using st l u [of e] by (cases "e = x") (auto simp: inv_stopped_def owns_def past_def inv_lock_def)
  qed (use st l in \<open>auto simp: inv_stopped_def owns_def past_def inv_lock_def inv_pending_def split: option.splits if_splits\<close>)
qed

lemma inv_once_step:
  assumes "life_step E s s'" "life_inv E s" shows "inv_once s'"
proof -
  have l: "\<And>e. inv_lock E s e" and o: "inv_once s" and st: "\<And>e r. inv_stopped s e r"
    using assms(2) by (auto simp: life_inv_def)
  from assms(1) show ?thesis
  proof (cases rule: life_step.cases)
    case (reject e r)
    then show ?thesis using o st [of e r] l [of e] by (auto simp: inv_stopped_def owns_def inv_once_def inv_lock_def)
  next
    case (drop e r)
    then show ?thesis using o st [of e r] l [of e] by (auto simp: inv_stopped_def owns_def inv_once_def inv_lock_def)
  next
    case (visit_active P e r)
    then show ?thesis using o st [of e r] by (auto simp: inv_stopped_def owns_def past_def inv_once_def)
  qed (use o in \<open>auto simp: inv_once_def\<close>)
qed

text \<open>What an entry owns changes only by the step that touches the entry.\<close>

lemma owns_step:
  assumes "life_step E s s'" "life_inv E s" "owns s x q"
  shows "owns s' x q \<or> q \<in> set (lf_stopped s') \<or> q \<in> lf_dropped s'"
proof -
  have l: "inv_lock E s x" using assms(2) by (simp add: life_inv_def)
  from assms(1) show ?thesis
    using l assms(3)
    by (cases rule: life_step.cases) (auto simp: owns_def inv_lock_def)
qed

lemma owns_step_back:
  assumes "life_step E s s'" "life_inv E s" "owns s' x q"
  shows "owns s x q \<or> q \<notin> lf_launched s"
  using assms(1,3) by (cases rule: life_step.cases) (auto simp: owns_def split: if_splits)

lemma grows_step:
  assumes "life_step E s s'"
  shows "set (lf_stopped s) \<subseteq> set (lf_stopped s')" "lf_dropped s \<subseteq> lf_dropped s'"
  using assms by (auto elim!: life_step.cases)

lemma inv_owned_step:
  assumes "life_step E s s'" "life_inv E s" shows "inv_owned s' r"
proof (cases "r \<in> lf_launched s")
  case True
  then have "(\<exists>e. owns s e r) \<or> r \<in> set (lf_stopped s) \<or> r \<in> lf_dropped s"
    using assms(2) by (auto simp: life_inv_def inv_owned_def)
  then show ?thesis
    using owns_step [OF assms] grows_step [OF assms(1)] unfolding inv_owned_def by blast
next
  case False
  with assms(1) show ?thesis
    by (cases rule: life_step.cases) (auto simp: inv_owned_def owns_def)
qed

lemma inv_unique_step:
  assumes "life_step E s s'" "life_inv E s" shows "inv_unique s'"
  unfolding inv_unique_def
proof (intro allI impI)
  fix x y q
  assume o: "owns s' x q" "owns s' y q"
  have st: "\<And>e r. inv_stopped s e r" and u: "inv_unique s" using assms(2) by (auto simp: life_inv_def)
  show "x = y"
  proof (cases "q \<in> lf_launched s")
    case True
    then show ?thesis
      using owns_step_back [OF assms o(1)] owns_step_back [OF assms o(2)] u by (auto simp: inv_unique_def)
  next
    case False
    then have "\<not> owns s x q" "\<not> owns s y q" using st by (auto simp: inv_stopped_def)
    with assms(1) o show ?thesis
      by (cases rule: life_step.cases) (auto simp: owns_def split: if_splits)
  qed
qed

lemma life_reachable_inv: "life_reachable E s \<Longrightarrow> life_inv E s"
proof (induction rule: life_reachable.induct)
  case start
  show ?case by (simp add: life_inv_def inv_defs life_new_def)
next
  case (step s s')
  have "inv_pending E s" "\<And>e. inv_lock E s e" using step.IH by (auto simp: life_inv_def)
  then have "inv_pending E s'" "\<And>e. inv_lock E s' e"
    using inv_pending_step [OF step.hyps(2)] inv_lock_step [OF step.hyps(2)] by auto
  then show ?case
    unfolding life_inv_def
    using inv_stopped_step [OF step.hyps(2) step.IH] inv_once_step [OF step.hyps(2) step.IH]
      inv_owned_step [OF step.hyps(2) step.IH] inv_unique_step [OF step.hyps(2) step.IH]
    by blast
qed

lemma count_once: "distinct xs \<Longrightarrow> x \<in> set xs \<Longrightarrow> count_list xs x = 1"
  by (induction xs) (auto simp: count_list_0_iff)

lemma done_all:
  assumes "life_inv E s" "lf_done s" "r \<in> lf_launched s" "r \<notin> lf_dropped s"
  shows "count_list (lf_stopped s) r = 1"
proof -
  have p: "lf_pending s = Some {}" using assms(1,2) by (auto simp: life_inv_def inv_pending_def split: option.splits)
  have "r \<in> set (lf_stopped s)"
    using assms(1,3,4) p by (auto simp: life_inv_def inv_owned_def inv_stopped_def past_def)
  moreover have "distinct (lf_stopped s)" using assms(1) by (simp add: life_inv_def inv_once_def)
  ultimately show ?thesis by (rule count_once [rotated])
qed

lemma done_stays:
  assumes "life_inv E s" "lf_done s" "life_step E s s'"
  shows "lf_launched s' = lf_launched s \<and> lf_done s' \<and> lf_stopped s' = lf_stopped s"
proof -
  have p: "lf_pending s = Some {}" "lf_closed s"
    using assms(1,2) by (auto simp: life_inv_def inv_pending_def split: option.splits)
  then have f: "\<And>e. lf_lock s e = Free" using assms(1) by (auto simp: life_inv_def inv_lock_def past_def)
  show ?thesis using assms(3) p f assms(2) by (cases rule: life_step.cases) auto
qed



subsection \<open>A shutdown gets through\<close>

text \<open>Whatever activations are under way, a shutdown that has begun can finish: every lock's holder
  has a step that leads to its release.\<close>

lemma visit_idle_one:
  "lf_pending t = Some P \<Longrightarrow> e \<in> P \<Longrightarrow> lf_lock t e = Free \<Longrightarrow> lf_active t e = None \<Longrightarrow>
   \<exists>s'. (life_step E)\<^sup>*\<^sup>* t s' \<and> lf_pending s' = Some (P - {e})"
  by (intro exI conjI, rule r_into_rtranclp, rule visit_idle) simp_all

lemma visit_stopping_one:
  "lf_pending t = Some P \<Longrightarrow> lf_lock t e = Stopping \<Longrightarrow>
   \<exists>s'. (life_step E)\<^sup>*\<^sup>* t s' \<and> lf_pending s' = Some (P - {e})"
  by (intro exI conjI, rule r_into_rtranclp, rule visited) simp_all

lemma visit_after:
  "life_step E s t \<Longrightarrow> \<exists>s'. (life_step E)\<^sup>*\<^sup>* t s' \<and> lf_pending s' = Q \<Longrightarrow>
   \<exists>s'. (life_step E)\<^sup>*\<^sup>* s s' \<and> lf_pending s' = Q"
  by (blast intro: converse_rtranclp_into_rtranclp)

lemma visit_one:
  assumes "inv_lock E s e" "lf_pending s = Some P" "e \<in> P"
  shows "\<exists>s'. (life_step E)\<^sup>*\<^sup>* s s' \<and> lf_pending s' = Some (P - {e})"
proof (cases "lf_lock s e")
  case Free
  show ?thesis
  proof (cases "lf_active s e")
    case (Some r)
    show ?thesis
      by (rule visit_after [OF visit_active [OF assms(2,3) Free Some]], rule visit_stopping_one) (simp_all add: assms)
  qed (use visit_idle_one assms Free in blast)
next
  case Activating
  then have idle: "lf_active s e = None" using assms(1) by (auto simp: inv_lock_def)
  show ?thesis
    by (rule visit_after [OF fail [OF Activating]], rule visit_idle_one) (simp_all add: assms idle)
next
  case (Launched r)
  then have idle: "lf_active s e = None" using assms(1) by (auto simp: inv_lock_def)
  show ?thesis
    by (rule visit_after [OF reject [OF Launched]], rule visit_after [OF discarded [where e = e]], simp,
        rule visit_idle_one) (simp_all add: assms idle)
next
  case Discarding
  then have idle: "lf_active s e = None" using assms(1) by (auto simp: inv_lock_def)
  show ?thesis
    by (rule visit_after [OF discarded [OF Discarding]], rule visit_idle_one) (simp_all add: assms idle)
next
  case Stopping
  with assms show ?thesis by (intro visit_stopping_one)
qed

lemma life_reachable_steps: "(life_step E)\<^sup>*\<^sup>* s s' \<Longrightarrow> life_reachable E s \<Longrightarrow> life_reachable E s'"
  by (induction rule: rtranclp_induct) (auto intro: life_reachable.step)

lemma shutdown_can_finish:
  assumes "finite P" "life_reachable E s" "lf_pending s = Some P"
  shows "\<exists>s'. (life_step E)\<^sup>*\<^sup>* s s' \<and> lf_done s'"
  using assms
proof (induction "card P" arbitrary: P s)
  case 0
  then have "life_step E s (s\<lparr>lf_done := True\<rparr>)" by (intro finish) simp
  then show ?case by (intro exI conjI, rule r_into_rtranclp) simp_all
next
  case (Suc n)
  then obtain e where e: "e \<in> P" by fastforce
  have "inv_lock E s e" using life_reachable_inv [OF Suc.prems(2)] by (simp add: life_inv_def)
  from visit_one [OF this Suc.prems(3) e] obtain t where t: "(life_step E)\<^sup>*\<^sup>* s t" "lf_pending t = Some (P - {e})"
    by blast
  have "n = card (P - {e})" using Suc.hyps(2) Suc.prems(1) e by simp
  from Suc.hyps(1) [OF this _ life_reachable_steps [OF t(1) Suc.prems(2)] t(2)] Suc.prems(1) t(1) show ?case
    by (meson finite_Diff rtranclp_trans)
qed

text \<open>A dropped activation is the one way a started runtime escapes its shutdown.\<close>

lemma dropped_runtime_escapes:
  assumes "life_reachable E s" "lf_done s" "r \<in> lf_launched s"
  shows "r \<in> set (lf_stopped s) \<longleftrightarrow> r \<notin> lf_dropped s"
proof -
  have inv: "life_inv E s" by (rule life_reachable_inv [OF assms(1)])
  then have "set (lf_stopped s) \<inter> lf_dropped s = {}" by (simp add: life_inv_def inv_once_def)
  moreover have "r \<in> set (lf_stopped s)" if "r \<notin> lf_dropped s"
    using done_all [OF inv assms(2,3) that] by (metis count_notin zero_neq_one)
  ultimately show ?thesis by blast
qed

end
