(* ===== verification/Specs.thy ===== *)
theory Specs
  imports Workload Wait Acts
begin

section \<open>Provisioning requests and statuses (spec.rs, state.rs)\<close>

text \<open>
  What a provider is asked to provision, before any provider looks at it, the checks every provider
  makes first, and the description of a sandbox. The JSON of the provider's own options is a type
  parameter.
\<close>

datatype driver_source = SrcImage string | SrcDockerfile string | SrcSnapshot string | SrcHostDirectory

record driver_resources =
  dr_cpu_cores :: "nat option"
  dr_memory_mb :: "nat option"
  dr_disk_mb :: "nat option"
  dr_gpus :: "nat option"

definition driver_resources_default :: driver_resources where
  "driver_resources_default = \<lparr>dr_cpu_cores = None, dr_memory_mb = None, dr_disk_mb = None, dr_gpus = None\<rparr>"

datatype driver_network =
    NetProviderDefault
  | NetAllowAll
  | NetBlock
  | NetCidrAllowList "string list"
  | NetDomainAllowList "string list"

definition network_validate :: "driver_network \<Rightarrow> (error, unit) result" where
  "network_validate n =
     (if n = NetCidrAllowList [] then Err (InvalidSpec ''network'' ''cidr allow-list must not be empty'')
      else if n = NetDomainAllowList [] then Err (InvalidSpec ''network'' ''domain allow-list must not be empty'')
      else Ok ())"

record volume_mount =
  vm_volume :: string
  vm_mount_path :: string
  vm_subpath :: "string option"

record lifecycle_timers =
  lt_auto_stop_after_idle :: "duration option"
  lt_auto_pause_after_idle :: "duration option"
  lt_auto_archive_after_stop :: "duration option"
  lt_auto_delete_after_stop :: "duration option"
  lt_ttl :: "duration option"

definition lifecycle_timers_default :: lifecycle_timers where
  "lifecycle_timers_default =
     \<lparr>lt_auto_stop_after_idle = None, lt_auto_pause_after_idle = None, lt_auto_archive_after_stop = None,
      lt_auto_delete_after_stop = None, lt_ttl = None\<rparr>"

record 'j driver_spec =
  dp_name :: "string option"
  dp_source :: driver_source
  dp_resources :: driver_resources
  dp_sandbox_kind :: "sandbox_kind option"
  dp_env :: "(string, string) btree_map"
  dp_labels :: "(string, string) btree_map"
  dp_user :: "string option"
  dp_working_directory :: "string option"
  dp_workspace_ownership :: "workspace_ownership option"
  dp_network :: driver_network
  dp_volumes :: "volume_mount list"
  dp_timers :: lifecycle_timers
  dp_ephemeral :: bool
  dp_public :: "bool option"
  dp_region :: "string option"
  dp_provider_config :: 'j

definition driver_spec_new :: "'j \<Rightarrow> driver_source \<Rightarrow> 'j driver_spec" where
  "driver_spec_new json_null s =
     \<lparr>dp_name = None, dp_source = s, dp_resources = driver_resources_default, dp_sandbox_kind = None, dp_env = [],
      dp_labels = [], dp_user = None, dp_working_directory = None, dp_workspace_ownership = None,
      dp_network = NetProviderDefault, dp_volumes = [], dp_timers = lifecycle_timers_default, dp_ephemeral = False,
      dp_public = None, dp_region = None, dp_provider_config = json_null\<rparr>"

text \<open>\<open>is_some_and(|value| !value.is_zero())\<close>.\<close>

definition set_nonzero :: "duration option \<Rightarrow> bool" where
  "set_nonzero t \<longleftrightarrow> (case t of None \<Rightarrow> False | Some d \<Rightarrow> d \<noteq> 0)"

fun volumes_validate :: "volume_mount list \<Rightarrow> (error, unit) result" where
  "volumes_validate [] = Ok ()"
| "volumes_validate (m # ms) =
     (if vm_volume m = [] then Err (InvalidSpec ''volumes'' ''volume id must not be empty'')
      else if \<not> starts_with ''/'' (vm_mount_path m) then Err (InvalidSpec ''volumes'' ''mount_path must be an absolute path'')
      else volumes_validate ms)"

definition driver_spec_validate :: "'j driver_spec \<Rightarrow> (error, unit) result" where
  "driver_spec_validate s =
     (if dp_workspace_ownership s \<noteq> None \<and> dp_source s \<noteq> SrcHostDirectory
      then Err (InvalidSpec ''workspace_ownership'' ''only a host directory has explicit workspace ownership'')
      else if dp_workspace_ownership s = Some Designated \<and> dp_working_directory s = None
      then Err (InvalidSpec ''working_directory'' ''a designated workspace needs a directory'')
      else if dp_sandbox_kind s = Some KindUnknown
      then Err (InvalidSpec ''sandbox_kind'' ''unknown sandbox kind'')
      else if dp_region s = Some [] then Err (InvalidSpec ''region'' ''must not be empty'')
      else bind_result (network_validate (dp_network s)) (\<lambda>_.
        if set_nonzero (lt_auto_stop_after_idle (dp_timers s)) \<and> set_nonzero (lt_auto_pause_after_idle (dp_timers s))
        then Err (InvalidSpec ''timers'' ''auto_stop_after_idle and auto_pause_after_idle are mutually exclusive'')
        else if dp_working_directory s = Some [] then Err (InvalidSpec ''working_directory'' ''must not be empty'')
        else volumes_validate (dp_volumes s)))"

text \<open>The rest of a \<^typ>\<open>'x sandbox_status\<close>.\<close>

record status_details =
  sd_name :: "string option"
  sd_provider_state :: string
  sd_resources :: "driver_resources option"
  sd_sandbox_kind :: "sandbox_kind option"
  sd_region :: "string option"
  sd_labels :: "(string, string) btree_map"
  sd_image :: "string option"
  sd_snapshot :: "string option"
  sd_network :: "driver_network option"
  sd_workspace_ownership :: "workspace_ownership option"
  sd_web_url :: "string option"
  sd_created_at :: "nat option"
  sd_updated_at :: "nat option"

type_synonym driver_status = "status_details sandbox_status"

abbreviation status_labels :: "driver_status \<Rightarrow> (string, string) btree_map" where
  "status_labels s \<equiv> sd_labels (status_rest s)"

definition status_new :: "string \<Rightarrow> sandbox_state \<Rightarrow> driver_status" where
  "status_new i st =
     \<lparr>status_id = i, status_state = st, status_error_reason = None,
      status_rest = \<lparr>sd_name = None, sd_provider_state = [], sd_resources = None, sd_sandbox_kind = None, sd_region = None,
        sd_labels = [], sd_image = None, sd_snapshot = None, sd_network = None, sd_workspace_ownership = None,
        sd_web_url = None, sd_created_at = None, sd_updated_at = None\<rparr>\<rparr>"

subsection \<open>What passes\<close>

lemma volumes_validate_Ok:
  "volumes_validate ms = Ok () \<longleftrightarrow> (\<forall>m\<in>set ms. vm_volume m \<noteq> [] \<and> starts_with ''/'' (vm_mount_path m))"
  by (induction ms) auto

text \<open>A request passes just if ownership is asked for a host directory only, a designated workspace
  and a named directory, region and volume are named, an allow list allows something, and at most one
  of the two idle timers runs.\<close>

lemma driver_spec_validate_exact:
  "driver_spec_validate s = Ok () \<longleftrightarrow>
     (dp_workspace_ownership s \<noteq> None \<longrightarrow> dp_source s = SrcHostDirectory) \<and>
     (dp_workspace_ownership s = Some Designated \<longrightarrow> dp_working_directory s \<noteq> None) \<and>
     dp_sandbox_kind s \<noteq> Some KindUnknown \<and> dp_region s \<noteq> Some [] \<and> dp_working_directory s \<noteq> Some [] \<and>
     dp_network s \<notin> {NetCidrAllowList [], NetDomainAllowList []} \<and>
     \<not> (set_nonzero (lt_auto_stop_after_idle (dp_timers s)) \<and> set_nonzero (lt_auto_pause_after_idle (dp_timers s))) \<and>
     (\<forall>m\<in>set (dp_volumes s). vm_volume m \<noteq> [] \<and> starts_with ''/'' (vm_mount_path m))"
  by (simp add: driver_spec_validate_def network_validate_def bind_result_Ok_iff volumes_validate_Ok)

lemma driver_spec_new_valid: "driver_spec_validate (driver_spec_new j s) = Ok ()"
  by (simp add: driver_spec_validate_exact driver_spec_new_def lifecycle_timers_default_def set_nonzero_def)

end
