(* ===== verification/Plugins.thy ===== *)
theory Plugins
  imports Acts Ordered_Map
begin

section \<open>Finding, trusting and supervising plugins (discovery.rs, supervisor.rs)\<close>

text \<open>
  A provider may be a plugin: an executable found by a path or a naming convention, launched only when
  its checksum is the pinned one or the embedder allowed development, in an environment of its own.
  The supervisor keeps one live plugin and replaces it when its transport has closed.

  The file system, the process environment, SHA-256, starting a process and the calls of the
  resulting provider are parameters on a world of their own; paths are strings.
\<close>

subsection \<open>Configuration and discovery (discovery.rs)\<close>

record plugin_config =
  pc_kind :: string
  pc_path :: "string option"
  pc_sha256 :: "string option"
  pc_dev :: bool
  pc_args :: "string list"
  pc_env :: "(string, string) btree_map"
  pc_inherit_env :: "string list"

definition plugin_config_new :: "string \<Rightarrow> plugin_config" where
  "plugin_config_new kind =
     \<lparr>pc_kind = kind, pc_path = None, pc_sha256 = None, pc_dev = False, pc_args = [], pc_env = [], pc_inherit_env = []\<rparr>"

datatype health_status = HealthOk | HealthUnreachable | HealthUnauthorized | HealthUnknown

record provider_health =
  ph_status :: health_status
  ph_message :: "string option"
  ph_missing_permissions :: "string list"
  ph_required_permissions :: "string list"
  ph_identity :: "string option"

text \<open>A file is what its metadata says: whether it is a regular file, and its mode.\<close>

record ('w, 'p) plugin_os =
  po_metadata :: "'w \<Rightarrow> string \<Rightarrow> (bool \<times> nat) option"
  po_read :: "'w \<Rightarrow> string \<Rightarrow> (io_error, bytes) result"
  po_env :: "'w \<Rightarrow> string \<Rightarrow> string option"
  po_sha256 :: "bytes \<Rightarrow> bytes"
  po_spawn :: "string \<Rightarrow> string list \<Rightarrow> (string, string) btree_map \<Rightarrow> ('w, 'p) act"
  po_health :: "'p \<Rightarrow> ('w, provider_health) act"
  po_shutdown :: "'p \<Rightarrow> ('w, unit) act"
  po_closed :: "'w \<Rightarrow> 'p \<Rightarrow> bool"
  po_capabilities :: "'p \<Rightarrow> capabilities"

text \<open>Any of the three execute bits.\<close>

definition is_executable_file :: "('w, 'p) plugin_os \<Rightarrow> 'w \<Rightarrow> string \<Rightarrow> bool" where
  "is_executable_file os w path =
     (case po_metadata os w path of
        None \<Rightarrow> False
      | Some (is_file, mode) \<Rightarrow> is_file \<and> (odd mode \<or> odd (mode div 8) \<or> odd (mode div 64)))"

text \<open>\<open>Path::join\<close>.\<close>

definition path_join :: "string \<Rightarrow> string \<Rightarrow> string" where
  "path_join dir name =
     (if starts_with ''/'' name then name
      else if dir = [] \<or> last dir = CHR ''/'' then dir @ name else dir @ ''/'' @ name)"

definition resolve_on_search_path :: "('w, 'p) plugin_os \<Rightarrow> 'w \<Rightarrow> string \<Rightarrow> string \<Rightarrow> string option" where
  "resolve_on_search_path os w name dirs =
     List.find (is_executable_file os w) (map (\<lambda>dir. path_join dir name) (split_on (CHR '':'') dirs))"

definition plugin_name :: "string \<Rightarrow> plugin_config \<Rightarrow> string" where
  "plugin_name prefix config = prefix @ ''-'' @ pc_kind config"

definition resolve_plugin_binary :: "('w, 'p) plugin_os \<Rightarrow> string \<Rightarrow> plugin_config \<Rightarrow> 'w \<Rightarrow> (error, string) result" where
  "resolve_plugin_binary os prefix config w =
     (case pc_path config of
        Some path \<Rightarrow> if is_executable_file os w path then Ok path else Err (NotFound ResPlugin path)
      | None \<Rightarrow>
          (let name = plugin_name prefix config;
               dirs = (case po_env os w ''PATH'' of None \<Rightarrow> [] | Some s \<Rightarrow> s) in
           case resolve_on_search_path os w name dirs of
             None \<Rightarrow> Err (NotFound ResPlugin (name @ '' (searched PATH)''))
           | Some path \<Rightarrow> Ok path))"

definition hex_digit_char :: "nat \<Rightarrow> byte" where
  "hex_digit_char n = byte_of (if n < 10 then 48 + n else 87 + n)"

definition hex_byte :: "byte \<Rightarrow> string" where
  "hex_byte b = [hex_digit_char (byte_val b div 16), hex_digit_char (byte_val b mod 16)]"

definition file_sha256 :: "('w, 'p) plugin_os \<Rightarrow> string \<Rightarrow> 'w \<Rightarrow> (error, string) result" where
  "file_sha256 os path w =
     (case po_read os w path of
        Err e \<Rightarrow> Err (Io (''reading '' @ path) e)
      | Ok content \<Rightarrow> Ok (concat (map hex_byte (po_sha256 os content))))"

definition eq_ignore_ascii_case :: "string \<Rightarrow> string \<Rightarrow> bool" where
  "eq_ignore_ascii_case a b \<longleftrightarrow> to_ascii_lowercase a = to_ascii_lowercase b"

definition enforce_checksum :: "('w, 'p) plugin_os \<Rightarrow> string \<Rightarrow> plugin_config \<Rightarrow> 'w \<Rightarrow> (error, bool) result" where
  "enforce_checksum os path config w =
     (case pc_sha256 config of
        Some expected \<Rightarrow>
          bind_result (file_sha256 os path w) (\<lambda>actual.
            if \<not> eq_ignore_ascii_case actual (trim expected)
            then Err (InvalidSpec ''sha256'' (''checksum mismatch for '' @ path @ '': pinned '' @ expected @ '', found '' @ actual))
            else Ok True)
      | None \<Rightarrow>
          if pc_dev config then Ok False
          else Err (InvalidSpec ''sha256'' (''plugin '' @ pc_kind config @
                 '' has no pinned sha256; pin one or explicitly mark the plugin dev'')))"

definition plugin_env :: "('w, 'p) plugin_os \<Rightarrow> plugin_config \<Rightarrow> 'w \<Rightarrow> (string, string) btree_map" where
  "plugin_env os config w =
     bt_extend (bt_collect (List.map_filter (\<lambda>key. map_option (Pair key) (po_env os w key)) (pc_inherit_env config)))
       (pc_env config)"

record 'p plugin_launch =
  pl_provider :: 'p
  pl_path :: string
  pl_verified :: bool

definition launch_plugin :: "('w, 'p) plugin_os \<Rightarrow> string \<Rightarrow> plugin_config \<Rightarrow> ('w, 'p plugin_launch) act" where
  "launch_plugin os prefix config w =
     (case resolve_plugin_binary os prefix config w of
        Err e \<Rightarrow> (w, Err e)
      | Ok path \<Rightarrow>
          (case enforce_checksum os path config w of
             Err e \<Rightarrow> (w, Err e)
           | Ok verified \<Rightarrow>
               act_map (\<lambda>p. \<lparr>pl_provider = p, pl_path = path, pl_verified = verified\<rparr>)
                 (po_spawn os path (pc_args config) (plugin_env os config w)) w))"

subsection \<open>What is launched\<close>

lemma find_Some_in: "List.find P xs = Some x \<Longrightarrow> x \<in> set xs \<and> P x"
  by (induction xs) (auto split: if_splits)

definition candidate :: "('w, 'p) plugin_os \<Rightarrow> string \<Rightarrow> plugin_config \<Rightarrow> 'w \<Rightarrow> string \<Rightarrow> bool" where
  "candidate os prefix config w path \<longleftrightarrow>
     is_executable_file os w path \<and>
     (case pc_path config of
        Some p \<Rightarrow> path = p
      | None \<Rightarrow> \<exists>dir\<in>set (split_on (CHR '':'') (case po_env os w ''PATH'' of None \<Rightarrow> [] | Some s \<Rightarrow> s)).
                 path = path_join dir (plugin_name prefix config))"

definition trusted :: "('w, 'p) plugin_os \<Rightarrow> plugin_config \<Rightarrow> 'w \<Rightarrow> string \<Rightarrow> bool \<Rightarrow> bool" where
  "trusted os config w path verified \<longleftrightarrow>
     (case pc_sha256 config of
        Some pin \<Rightarrow> verified \<and> (\<exists>content. po_read os w path = Ok content \<and>
           eq_ignore_ascii_case (concat (map hex_byte (po_sha256 os content))) (trim pin))
      | None \<Rightarrow> \<not> verified \<and> pc_dev config)"

lemma resolve_candidate: "resolve_plugin_binary os prefix config w = Ok path \<Longrightarrow> candidate os prefix config w path"
  by (auto simp: resolve_plugin_binary_def candidate_def resolve_on_search_path_def Let_def
      split: option.splits if_splits dest!: find_Some_in)

lemma checksum_trusted: "enforce_checksum os path config w = Ok v \<longleftrightarrow> trusted os config w path v"
  by (auto simp: enforce_checksum_def trusted_def file_sha256_def bind_result_Ok_iff split: option.splits sum.splits if_splits)

lemma inherited_get:
  "map_of (rev (List.map_filter (\<lambda>k. map_option (Pair k) (f k)) ks)) k = (if k \<in> set ks then f k else None)"
  by (induction ks) (auto simp: map_add_def split: option.splits if_splits)

lemma map_of_rev_bt: "bt_ok m \<Longrightarrow> map_of (rev m) = map_of m"
  using bt_ok_distinct [of m] by (metis distinct_rev map_of_inject_set rev_map set_rev)

lemma plugin_env_get:
  "bt_ok (pc_env config) \<Longrightarrow>
   map_of (plugin_env os config w) k =
     (case map_of (pc_env config) k of
        Some v \<Rightarrow> Some v
      | None \<Rightarrow> if k \<in> set (pc_inherit_env config) then po_env os w k else None)"
  by (auto simp: plugin_env_def bt_extend_get map_of_rev_bt map_add_def inherited_get split: option.splits)


text \<open>With no search path, or an empty element in it, the convention finds a bare name relative to
  the working directory, and a bare name is looked up again when it is executed.\<close>

lemma unset_path_resolves_bare_name:
  assumes "pc_path config = None" "po_env os w ''PATH'' = None" "is_executable_file os w (plugin_name prefix config)"
    and "\<not> starts_with ''/'' (plugin_name prefix config)"
  shows "resolve_plugin_binary os prefix config w = Ok (plugin_name prefix config)"
  using assms by (simp add: resolve_plugin_binary_def resolve_on_search_path_def path_join_def)


subsection \<open>Supervision (supervisor.rs)\<close>

record 'p plugin_generation =
  pg_provider :: 'p
  pg_number :: nat
  pg_path :: string
  pg_verified :: bool
  pg_health :: provider_health

record 'p generations =
  gs_live :: "'p plugin_generation option"
  gs_served :: nat

record supervisor =
  sv_prefix :: string
  sv_config :: plugin_config
  sv_kind :: string
  sv_capabilities :: capabilities
  sv_identity :: "string option"

fun join_comma :: "string list \<Rightarrow> string" where
  "join_comma [] = []"
| "join_comma [x] = x"
| "join_comma (x # xs) = x @ '', '' @ join_comma xs"

definition health_refusal :: "string \<Rightarrow> provider_health \<Rightarrow> error option" where
  "health_refusal kind h =
     (let detail = (case ph_message h of None \<Rightarrow> ''the plugin gave no detail'' | Some m \<Rightarrow> m) in
      case ph_status h of
        HealthUnreachable \<Rightarrow>
          Some (Provider ((provider_error_new kind (''the plugin'' @ [CHR 0x27] @ ''s backend is unreachable: '' @ detail))
            \<lparr>pe_code := Some ''unreachable''\<rparr>))
      | HealthUnauthorized \<Rightarrow>
          Some (Auth \<lparr>auth_provider = kind,
            auth_reason = ''the plugin'' @ [CHR 0x27] @ ''s backend rejected its credential: '' @ detail @
              (if ph_missing_permissions h = [] then []
               else ''; missing permissions: '' @ join_comma (ph_missing_permissions h)),
            auth_source = []\<rparr>)
      | _ \<Rightarrow> None)"

definition identity_changed :: "string \<Rightarrow> string option \<Rightarrow> string option \<Rightarrow> error" where
  "identity_changed kind first replacement =
     (let or_none = (\<lambda>x. case x of None \<Rightarrow> ''none'' | Some s \<Rightarrow> s) in
      Provider ((provider_error_new kind
        (''the replacement plugin reports resource namespace '' @ or_none replacement @
         '', but the first generation reported '' @ or_none first @ ''; recovery does not continue into another account''))
        \<lparr>pe_code := Some ''identity_changed''\<rparr>))"

text \<open>A result that is thrown away.\<close>

definition ignoring :: "('w, 'a) act \<Rightarrow> (error, 'b) result \<Rightarrow> ('w, 'b) act" where
  "ignoring m r w = (fst (m w), r)"

definition launch_generation ::
    "('w, 'p) plugin_os \<Rightarrow> string \<Rightarrow> plugin_config \<Rightarrow> nat \<Rightarrow> ('w, 'p plugin_generation) act" where
  "launch_generation os prefix config number =
     act_bind (launch_plugin os prefix config) (\<lambda>l w.
       case po_health os (pl_provider l) w of
         (w', Err e) \<Rightarrow> ignoring (po_shutdown os (pl_provider l)) (Err e) w'
       | (w', Ok h) \<Rightarrow>
           (case health_refusal (pc_kind config) h of
              Some refusal \<Rightarrow> ignoring (po_shutdown os (pl_provider l)) (Err refusal) w'
            | None \<Rightarrow> (w', Ok \<lparr>pg_provider = pl_provider l, pg_number = number, pg_path = pl_path l,
                         pg_verified = pl_verified l, pg_health = h\<rparr>)))"

text \<open>Forwarded variables are read once, when the supervisor is launched; a variable that is declared
  too is left as declared.\<close>

fun freeze_env :: "('w, 'p) plugin_os \<Rightarrow> 'w \<Rightarrow> (string, string) btree_map \<Rightarrow> string list \<Rightarrow> (string, string) btree_map" where
  "freeze_env os w m [] = m"
| "freeze_env os w m (k # ks) =
     (case map_of m k of
        Some _ \<Rightarrow> freeze_env os w m ks
      | None \<Rightarrow> (case po_env os w k of None \<Rightarrow> freeze_env os w m ks | Some v \<Rightarrow> freeze_env os w (bt_insert k v m) ks))"

definition supervisor_launch ::
    "('w, 'p) plugin_os \<Rightarrow> string \<Rightarrow> plugin_config \<Rightarrow> ('w, supervisor \<times> 'p generations) act" where
  "supervisor_launch os prefix config w =
     (let frozen = config\<lparr>pc_env := freeze_env os w (pc_env config) (pc_inherit_env config), pc_inherit_env := []\<rparr> in
      act_map (\<lambda>g. (\<lparr>sv_prefix = prefix, sv_config = frozen, sv_kind = pc_kind config,
                     sv_capabilities = po_capabilities os (pg_provider g), sv_identity = ph_identity (pg_health g)\<rparr>,
                    \<lparr>gs_live = Some g, gs_served = pg_number g\<rparr>))
        (launch_generation os prefix frozen 1) w)"

text \<open>The verbs hold the lock of the generations throughout, so each is one step of the state.\<close>

type_synonym ('w, 'p, 'a) sup_act = "'w \<times> 'p generations \<Rightarrow> ('w \<times> 'p generations) \<times> (error, 'a) result"

definition replace_generation :: "('w, 'p) plugin_os \<Rightarrow> supervisor \<Rightarrow> ('w, 'p, 'p plugin_generation) sup_act" where
  "replace_generation os sv st =
     (case st of (w, gs) \<Rightarrow>
        (case launch_generation os (sv_prefix sv) (sv_config sv) (gs_served gs + 1) w of
           (w', Err e) \<Rightarrow> ((w', gs\<lparr>gs_live := None\<rparr>), Err e)
         | (w', Ok g) \<Rightarrow>
             if ph_identity (pg_health g) \<noteq> sv_identity sv
             then ((fst (po_shutdown os (pg_provider g) w'), gs\<lparr>gs_live := None\<rparr>),
                   Err (identity_changed (sv_kind sv) (sv_identity sv) (ph_identity (pg_health g))))
             else ((w', \<lparr>gs_live = Some g, gs_served = pg_number g\<rparr>), Ok g)))"

definition supervisor_current :: "('w, 'p) plugin_os \<Rightarrow> supervisor \<Rightarrow> ('w, 'p, 'p plugin_generation) sup_act" where
  "supervisor_current os sv st =
     (case st of (w, gs) \<Rightarrow>
        (case gs_live gs of
           None \<Rightarrow> replace_generation os sv (w, gs)
         | Some g \<Rightarrow>
             if \<not> po_closed os w (pg_provider g) then ((w, gs), Ok g)
             else replace_generation os sv (fst (po_shutdown os (pg_provider g) w), gs\<lparr>gs_live := None\<rparr>)))"

definition supervisor_shutdown :: "('w, 'p) plugin_os \<Rightarrow> ('w, 'p, unit) sup_act" where
  "supervisor_shutdown os st =
     (case st of (w, gs) \<Rightarrow>
        (case gs_live gs of
           None \<Rightarrow> ((w, gs), Ok ())
         | Some g \<Rightarrow> (case po_shutdown os (pg_provider g) w of (w', r) \<Rightarrow> ((w', gs\<lparr>gs_live := None\<rparr>), r))))"

text \<open>Every call of the provider's interface takes the current generation and calls it once. The call
  does not hold the lock, so it may be arbitrary, also in what it does to the world.\<close>

definition supervised_call ::
    "('w, 'p) plugin_os \<Rightarrow> supervisor \<Rightarrow> ('p \<Rightarrow> ('w, 'a) act) \<Rightarrow> ('w, 'p, 'a) sup_act" where
  "supervised_call os sv f st =
     (case supervisor_current os sv st of
        (st', Err e) \<Rightarrow> (st', Err e)
      | ((w, gs), Ok g) \<Rightarrow> (case f (pg_provider g) w of (w', r) \<Rightarrow> ((w', gs), r)))"

definition snapshot_service ::
    "('w, 'p) plugin_os \<Rightarrow> supervisor \<Rightarrow> ('p \<Rightarrow> ('w, 'a) act) \<Rightarrow> ('w, 'p, 'a) sup_act" where
  "snapshot_service os sv f =
     supervised_call os sv (\<lambda>p w. if snapshots (po_capabilities os p) = None then (w, Err (Unsupported CapSnapshots)) else f p w)"

definition volume_service ::
    "('w, 'p) plugin_os \<Rightarrow> supervisor \<Rightarrow> ('p \<Rightarrow> ('w, 'a) act) \<Rightarrow> ('w, 'p, 'a) sup_act" where
  "volume_service os sv f =
     supervised_call os sv (\<lambda>p w. if volumes (po_capabilities os p) = None then (w, Err (Unsupported CapVolumes)) else f p w)"

subsection \<open>Generations\<close>

datatype 'w sup_op = Current | Shutdown | Outside "'w \<Rightarrow> 'w"

text \<open>A run: calls obtain the current generation, shut down, or the world moves on its own (transports
  close, backends change). The generations obtained are collected in order.\<close>

fun sup_run :: "('w, 'p) plugin_os \<Rightarrow> supervisor \<Rightarrow> 'w \<times> 'p generations \<Rightarrow> 'w sup_op list \<Rightarrow>
    ('w \<times> 'p generations) \<times> 'p plugin_generation list" where
  "sup_run os sv st [] = (st, [])"
| "sup_run os sv st (Current # ops) =
     (case supervisor_current os sv st of
        (st', Ok g) \<Rightarrow> map_prod id ((#) g) (sup_run os sv st' ops)
      | (st', Err _) \<Rightarrow> sup_run os sv st' ops)"
| "sup_run os sv st (Shutdown # ops) = sup_run os sv (fst (supervisor_shutdown os st)) ops"
| "sup_run os sv st (Outside f # ops) = sup_run os sv (f (fst st), snd st) ops"

definition serves :: "supervisor \<Rightarrow> 'p plugin_generation \<Rightarrow> bool" where
  "serves sv g \<longleftrightarrow> ph_identity (pg_health g) = sv_identity sv \<and>
     ph_status (pg_health g) \<notin> {HealthUnreachable, HealthUnauthorized} \<and>
     (pg_verified g \<or> pc_sha256 (sv_config sv) = None \<and> pc_dev (sv_config sv))"

definition sup_ok :: "supervisor \<Rightarrow> 'p generations \<Rightarrow> bool" where
  "sup_ok sv gs \<longleftrightarrow> (\<forall>g. gs_live gs = Some g \<longrightarrow> serves sv g \<and> pg_number g = gs_served gs)"

lemma health_refusal_None: "health_refusal kind h = None \<longleftrightarrow> ph_status h \<notin> {HealthUnreachable, HealthUnauthorized}"
  by (cases "ph_status h") (simp_all add: health_refusal_def Let_def)

lemma launch_plugin_verified:
  "launch_plugin os prefix config w = (w', Ok l) \<Longrightarrow> pl_verified l \<or> pc_sha256 config = None \<and> pc_dev config"
  by (auto simp: launch_plugin_def enforce_checksum_def act_map_def act_bind_def act_of_def bind_result_Ok_iff
      split: sum.splits prod.splits option.splits if_splits)

lemma launch_generation_Ok:
  assumes "launch_generation os prefix config n w = (w', Ok g)"
  shows "pg_number g = n \<and> ph_status (pg_health g) \<notin> {HealthUnreachable, HealthUnauthorized} \<and>
     (pg_verified g \<or> pc_sha256 config = None \<and> pc_dev config)"
  using assms launch_plugin_verified [of os prefix config w]
  by (auto simp: launch_generation_def act_bind_def ignoring_def health_refusal_None
      split: prod.splits sum.splits option.splits)

lemma replace_generation_step:
  assumes "replace_generation os sv (w, gs) = ((w', gs'), r)" "gs_live gs = None"
  shows "sup_ok sv gs' \<and> (case r of Err _ \<Rightarrow> gs' = gs | Ok g \<Rightarrow> gs_live gs' = Some g \<and> pg_number g = gs_served gs + 1)"
proof -
  obtain w1 r1 where l: "launch_generation os (sv_prefix sv) (sv_config sv) (gs_served gs + 1) w = (w1, r1)" by fastforce
  have eq: "gs\<lparr>gs_live := None\<rparr> = gs" using assms(2) by simp
  show ?thesis
  proof (cases r1)
    case (Inr g)
    with launch_generation_Ok [of os "sv_prefix sv" "sv_config sv" "gs_served gs + 1" w w1 g] l assms eq show ?thesis
      by (auto simp: replace_generation_def sup_ok_def serves_def split: if_splits)
  qed (use l assms eq in \<open>auto simp: replace_generation_def sup_ok_def\<close>)
qed

lemma current_step:
  assumes "supervisor_current os sv (w, gs) = ((w', gs'), r)" "sup_ok sv gs"
  shows "sup_ok sv gs' \<and> gs_served gs \<le> gs_served gs' \<and>
    (\<forall>e. r = Err e \<longrightarrow> gs_live gs' = None) \<and>
    (\<forall>g. r = Ok g \<longrightarrow> gs_live gs' = Some g \<and> (gs_live gs = Some g \<or> gs_served gs < pg_number g))"
proof -
  consider (live) g where "gs_live gs = Some g" "r = Ok g" "gs' = gs"
    | (none) w0 gs0 where "replace_generation os sv (w0, gs0) = ((w', gs'), r)" "gs_live gs0 = None" "gs_served gs0 = gs_served gs"
    using assms(1) by (auto simp: supervisor_current_def split: option.splits if_splits)
  then show ?thesis
  proof cases
    case live
    with assms(2) show ?thesis by auto
  next
    case none
    from replace_generation_step [OF none(1,2)] none(3) show ?thesis
      using none(2) by (cases r) (auto simp: sup_ok_def)
  qed
qed

lemma shutdown_step: "sup_ok sv gs \<Longrightarrow> supervisor_shutdown os (w, gs) = ((w', gs'), r) \<Longrightarrow>
   sup_ok sv gs' \<and> gs_served gs' = gs_served gs \<and> (gs' = gs \<or> gs_live gs' = None)"
  by (auto simp: supervisor_shutdown_def sup_ok_def split: option.splits prod.splits)

lemma sup_run_gens:
  assumes "sup_run os sv (w, gs) ops = (st', gens)" "sup_ok sv gs"
  shows "sorted (map pg_number gens) \<and> (\<forall>g\<in>set gens. \<forall>h\<in>set gens. pg_number g = pg_number h \<longrightarrow> g = h) \<and>
    (\<forall>g\<in>set gens. serves sv g \<and> (gs_live gs = Some g \<or> gs_served gs < pg_number g))"
  using assms
proof (induction ops arbitrary: w gs gens)
  case (Cons op ops)
  show ?case
  proof (cases op)
    case Current
    obtain w1 gs1 r where c: "supervisor_current os sv (w, gs) = ((w1, gs1), r)" by (metis surj_pair)
    note step = current_step [OF c Cons.prems(2)]
    show ?thesis
    proof (cases r)
      case (Inl e)
      with Cons.prems(1) Current c have "sup_run os sv (w1, gs1) ops = (st', gens)" by simp
      from Cons.IH [OF this] step Inl show ?thesis by auto
    next
      case (Inr g)
      with Cons.prems(1) Current c obtain gens1 where run: "sup_run os sv (w1, gs1) ops = (st', gens1)" and gens: "gens = g # gens1"
        by (cases "sup_run os sv (w1, gs1) ops") auto
      have ok: "sup_ok sv gs1" and live: "gs_live gs1 = Some g" and old: "gs_live gs = Some g \<or> gs_served gs < pg_number g"
        and le: "gs_served gs \<le> gs_served gs1"
        using step Inr by auto
      have n: "pg_number g = gs_served gs1" "serves sv g" using ok live by (auto simp: sup_ok_def)
      from Cons.IH [OF run ok] live have ih: "sorted (map pg_number gens1)"
        "\<forall>a\<in>set gens1. \<forall>b\<in>set gens1. pg_number a = pg_number b \<longrightarrow> a = b"
        "\<forall>h\<in>set gens1. serves sv h \<and> (h = g \<or> gs_served gs1 < pg_number h)"
        by auto
      have above: "h = g \<or> pg_number g < pg_number h" if "h \<in> set gens1" for h using ih(3) that n(1) by auto
      have "sorted (map pg_number gens)" unfolding gens using ih(1) above by (fastforce intro: less_imp_le)
      moreover have "\<forall>a\<in>set gens. \<forall>b\<in>set gens. pg_number a = pg_number b \<longrightarrow> a = b"
        unfolding gens using ih(2) above by fastforce
      moreover have "\<forall>h\<in>set gens. serves sv h \<and> (gs_live gs = Some h \<or> gs_served gs < pg_number h)"
        unfolding gens using ih(3) n old le by fastforce
      ultimately show ?thesis by blast
    qed
  next
    case Shutdown
    obtain w1 gs1 r where c: "supervisor_shutdown os (w, gs) = ((w1, gs1), r)" by (metis surj_pair)
    with Cons.prems(1) Shutdown have "sup_run os sv (w1, gs1) ops = (st', gens)" by simp
    from Cons.IH [OF this] shutdown_step [OF Cons.prems(2) c] show ?thesis by auto
  next
    case (Outside f)
    with Cons.prems(1) have "sup_run os sv (f w, gs) ops = (st', gens)" by simp
    from Cons.IH [OF this Cons.prems(2)] show ?thesis .
  qed
qed simp

lemma freeze_env_get:
  "map_of (freeze_env os w m ks) k = (case map_of m k of Some v \<Rightarrow> Some v | None \<Rightarrow> if k \<in> set ks then po_env os w k else None)"
  by (induction os w m ks rule: freeze_env.induct) (auto split: option.splits)

lemma supervisor_launch_Ok:
  assumes "supervisor_launch os prefix config w0 = (w, Ok (sv, gs))"
  shows "sup_ok sv gs \<and> gs_served gs = 1 \<and> gs_live gs \<noteq> None \<and> pc_inherit_env (sv_config sv) = [] \<and>
    pc_sha256 (sv_config sv) = pc_sha256 config \<and> pc_dev (sv_config sv) = pc_dev config \<and>
    (\<forall>k. map_of (pc_env (sv_config sv)) k =
       (case map_of (pc_env config) k of Some v \<Rightarrow> Some v | None \<Rightarrow> if k \<in> set (pc_inherit_env config) then po_env os w0 k else None))"
proof -
  let ?frozen = "config\<lparr>pc_env := freeze_env os w0 (pc_env config) (pc_inherit_env config), pc_inherit_env := []\<rparr>"
  from assms obtain g where g: "launch_generation os prefix ?frozen 1 w0 = (w, Ok g)"
    and sv: "sv_config sv = ?frozen" "sv_identity sv = ph_identity (pg_health g)"
    and gs: "gs = \<lparr>gs_live = Some g, gs_served = pg_number g\<rparr>"
    by (auto simp: supervisor_launch_def Let_def act_map_def act_bind_def act_of_def split: prod.splits sum.splits)
  from launch_generation_Ok [OF g] sv gs show ?thesis
    by (simp add: sup_ok_def serves_def freeze_env_get)
qed



end
