(* ===== verification/Providers.thy ===== *)
theory Providers
  imports Specs Plugins
begin

section \<open>The provider interface and what is built on it (provider.rs, sandbox.rs, owned.rs)\<close>

text \<open>
  A provider is a record of functions of a world, and so are the handles it gives out; both are
  parameters, the code of one provider or another. What the crate itself adds are the default
  methods of the traits, the loop that makes a snapshot usable, and the provider narrowed to the
  sandboxes of one owner.
\<close>

subsection \<open>Traits and their default methods\<close>

record ('w, 'h, 'e, 'j) provider =
  pv_kind :: string
  pv_capabilities :: capabilities
  pv_create :: "'j driver_spec \<Rightarrow> 'e \<Rightarrow> ('w, 'h) act"
  pv_attach :: "string \<Rightarrow> 'e \<Rightarrow> ('w, 'h) act"
  pv_undelete :: "string \<Rightarrow> 'e \<Rightarrow> ('w, 'h) act"
  pv_delete :: "string \<Rightarrow> 'e \<Rightarrow> ('w, unit) act"
  pv_list :: "(string, string) btree_map \<Rightarrow> ('w, driver_status list) act"
  pv_health :: "('w, provider_health) act"

record ('w, 'h) handles =
  hd_id :: "'h \<Rightarrow> string"
  hd_describe :: "'h \<Rightarrow> ('w, driver_status) act"
  hd_delete :: "'h \<Rightarrow> ('w, unit) act"

definition default_undelete :: "string \<Rightarrow> 'e \<Rightarrow> ('w, 'h) act" where
  "default_undelete i ev = act_of (Err (Unsupported LifecycleUndelete))"

definition default_delete ::
    "('w, 'h) handles \<Rightarrow> (string \<Rightarrow> 'e \<Rightarrow> ('w, 'h) act) \<Rightarrow> string \<Rightarrow> 'e \<Rightarrow> ('w, unit) act" where
  "default_delete hs attach i ev w =
     (case attach i ev w of
        (w', Ok h) \<Rightarrow> hd_delete hs h w'
      | (w', Err (NotFound ResSandbox _)) \<Rightarrow> (w', Ok ())
      | (w', Err e) \<Rightarrow> (w', Err e))"

definition provider_health_new :: "health_status \<Rightarrow> provider_health" where
  "provider_health_new s =
     \<lparr>ph_status = s, ph_message = None, ph_missing_permissions = [], ph_required_permissions = [], ph_identity = None\<rparr>"

definition default_health :: "('w, provider_health) act" where
  "default_health = act_of (Ok (provider_health_new HealthUnknown))"

text \<open>The optional verbs of a sandbox and the capability their default names.\<close>

datatype optional_verb =
    VerbEnvironment | VerbPause | VerbResume | VerbArchive | VerbFork | VerbResize | VerbSnapshot | VerbRecover
  | VerbRefreshActivity | VerbSetTimers | VerbSetLabels | VerbUpdateNetwork

definition verb_capability :: "optional_verb \<Rightarrow> capability" where
  "verb_capability v = (case v of
     VerbEnvironment \<Rightarrow> ExecEnvironment | VerbPause \<Rightarrow> LifecyclePause | VerbResume \<Rightarrow> LifecyclePause
   | VerbArchive \<Rightarrow> LifecycleArchive | VerbFork \<Rightarrow> LifecycleFork | VerbResize \<Rightarrow> LifecycleResize
   | VerbSnapshot \<Rightarrow> LifecycleSnapshotSandbox | VerbRecover \<Rightarrow> LifecycleRecover
   | VerbRefreshActivity \<Rightarrow> LifecycleRefreshActivity | VerbSetTimers \<Rightarrow> LifecycleTimers
   | VerbSetLabels \<Rightarrow> LifecycleLabels | VerbUpdateNetwork \<Rightarrow> LifecycleUpdateNetwork)"

definition default_verb :: "optional_verb \<Rightarrow> ('w, 'a) act" where
  "default_verb v = act_of (Err (Unsupported (verb_capability v)))"

text \<open>A facet is the provider's own, or derived from exec, or absent.\<close>

datatype ('p, 'd) facet = FromProvider 'p | Derived 'd

definition facet_of :: "bool \<Rightarrow> 'p option \<Rightarrow> 'd \<Rightarrow> ('p, 'd) facet option" where
  "facet_of supported own derived =
     (if \<not> supported then None else Some (case own of Some p \<Rightarrow> FromProvider p | None \<Rightarrow> Derived derived))"

definition search_facet :: "capabilities \<Rightarrow> 'p option \<Rightarrow> 'x \<Rightarrow> ('p, 'x) facet option" where
  "search_facet caps own ex = facet_of (search_supported (search caps)) own ex"

definition git_facet :: "capabilities \<Rightarrow> 'p option \<Rightarrow> 'x \<Rightarrow> string option \<Rightarrow> ('p, 'x \<times> string option) facet option" where
  "git_facet caps own ex runtime_directory = facet_of (git_supported (git caps)) own (ex, runtime_directory)"

definition services_facet :: "capabilities \<Rightarrow> 'p option \<Rightarrow> 'x \<Rightarrow> ('p, 'x) facet option" where
  "services_facet caps own ex = facet_of (service_supported (services caps)) own ex"

subsection \<open>Snapshots\<close>

datatype snapshot_mode = FilesystemMode | LiveProcessState

datatype snapshot_source = SnapImage string | SnapDockerfile string | SnapSandbox string snapshot_mode

record 'j snapshot_spec =
  ns_name :: "string option"
  ns_source :: snapshot_source
  ns_sandbox_kind :: "sandbox_kind option"
  ns_region :: "string option"
  ns_resources :: driver_resources
  ns_provider_config :: 'j

definition snapshot_spec_new :: "'j \<Rightarrow> snapshot_source \<Rightarrow> 'j snapshot_spec" where
  "snapshot_spec_new json_null s =
     \<lparr>ns_name = None, ns_source = s, ns_sandbox_kind = None, ns_region = None, ns_resources = driver_resources_default,
      ns_provider_config = json_null\<rparr>"

definition snapshot_spec_validate :: "'j snapshot_spec \<Rightarrow> (error, unit) result" where
  "snapshot_spec_validate s =
     (if ns_sandbox_kind s = Some KindUnknown then Err (InvalidSpec ''sandbox_kind'' ''unknown sandbox kind'')
      else if ns_region s = Some [] then Err (InvalidSpec ''region'' ''must not be empty'')
      else Ok ())"

datatype snapshot_state = SnapBuilding | SnapActive | SnapInactive | SnapError | SnapDeleting | SnapUnknown

record snapshot_status =
  ss_id :: string
  ss_name :: "string option"
  ss_state :: snapshot_state
  ss_sandbox_kind :: "sandbox_kind option"
  ss_regions :: "string list"
  ss_resources :: "driver_resources option"
  ss_error_reason :: "string option"
  ss_size_bytes :: "nat option"
  ss_created_at :: "nat option"

definition snapshot_status_new :: "string \<Rightarrow> snapshot_state \<Rightarrow> snapshot_status" where
  "snapshot_status_new i st =
     \<lparr>ss_id = i, ss_name = None, ss_state = st, ss_sandbox_kind = None, ss_regions = [], ss_resources = None,
      ss_error_reason = None, ss_size_bytes = None, ss_created_at = None\<rparr>"

record ('w, 'e, 'j) snapshot_provider =
  sn_create :: "'j snapshot_spec \<Rightarrow> 'e \<Rightarrow> ('w, string) act"
  sn_get :: "string \<Rightarrow> ('w, snapshot_status) act"
  sn_list :: "string option \<Rightarrow> ('w, snapshot_status list) act"
  sn_activate :: "string \<Rightarrow> 'e \<Rightarrow> ('w, unit) act"

definition ensure_first_poll :: duration where "ensure_first_poll = from_secs 2"
definition ensure_max_poll :: duration where "ensure_max_poll = from_secs 30"

definition snap_state_debug :: "snapshot_state \<Rightarrow> string" where
  "snap_state_debug s = (case s of SnapBuilding \<Rightarrow> ''Building'' | SnapActive \<Rightarrow> ''Active'' | SnapInactive \<Rightarrow> ''Inactive''
     | SnapError \<Rightarrow> ''Error'' | SnapDeleting \<Rightarrow> ''Deleting'' | SnapUnknown \<Rightarrow> ''Unknown'')"

text \<open>The debug rendering of a name is a parameter \<open>dbg\<close>, and so are the clock and sleeping.\<close>

record 'w clock =
  now :: "'w \<Rightarrow> duration"
  sleep :: "duration \<Rightarrow> 'w \<Rightarrow> 'w"

definition snapshot_unusable :: "(string \<Rightarrow> string) \<Rightarrow> string \<Rightarrow> snapshot_status \<Rightarrow> error" where
  "snapshot_unusable dbg name st =
     Provider (provider_error_new ''unknown'' (''snapshot '' @ dbg name @ '' cannot become active: '' @
       (case ss_error_reason st of None \<Rightarrow> ''snapshot is in state '' @ snap_state_debug (ss_state st) | Some r \<Rightarrow> r)))"

partial_function (option) ensure_poll ::
    "(string \<Rightarrow> ('w, snapshot_status) act) \<Rightarrow> 'w clock \<Rightarrow> (string \<Rightarrow> string) \<Rightarrow> string \<Rightarrow> duration \<Rightarrow> duration \<Rightarrow> string \<Rightarrow>
     duration \<Rightarrow> 'w \<Rightarrow> ('w \<times> (error, string) result) option" where
  "ensure_poll get clk dbg name started budget i interval w =
     (if budget \<le> now clk w - started
      then Some (w, Err (Timeout (''waiting for snapshot '' @ dbg name @ '' to become active'') (now clk w - started)))
      else
        (case get i (sleep clk (min interval (budget - (now clk w - started))) w) of (w', r) \<Rightarrow>
           (case r of
              Err e \<Rightarrow> Some (w', Err e)
            | Ok st \<Rightarrow>
                if ss_state st = SnapActive then Some (w', Ok i)
                else if ss_state st = SnapError \<or> ss_state st = SnapDeleting
                then Some (w', Err (snapshot_unusable dbg name st))
                else ensure_poll get clk dbg name started budget i (min (interval * 2) ensure_max_poll) w')))"

text \<open>The snapshot found, activated or created: one that is ready, or one to wait for.\<close>

definition ensure_begin ::
    "('w, 'e, 'j) snapshot_provider \<Rightarrow> (string \<Rightarrow> string) \<Rightarrow> 'j snapshot_spec \<Rightarrow> string \<Rightarrow> 'e \<Rightarrow> ('w, bool \<times> string) act" where
  "ensure_begin P dbg spec name ev =
     act_bind (sn_list P (Some name)) (\<lambda>statuses.
       case List.find (\<lambda>st. ss_name st = Some name) statuses of
         None \<Rightarrow> act_map (Pair False) (sn_create P spec ev)
       | Some st \<Rightarrow>
           (case ss_state st of
              SnapActive \<Rightarrow> act_of (Ok (True, ss_id st))
            | SnapError \<Rightarrow> act_of (Err (snapshot_unusable dbg name st))
            | SnapDeleting \<Rightarrow> act_of (Err (snapshot_unusable dbg name st))
            | SnapInactive \<Rightarrow> act_map (\<lambda>_. (False, ss_id st)) (sn_activate P (ss_id st) ev)
            | SnapBuilding \<Rightarrow> act_of (Ok (False, ss_id st))
            | SnapUnknown \<Rightarrow> act_of (Ok (False, ss_id st))))"

definition ensure_snapshot ::
    "('w, 'e, 'j) snapshot_provider \<Rightarrow> 'w clock \<Rightarrow> (string \<Rightarrow> string) \<Rightarrow> 'j snapshot_spec \<Rightarrow> duration \<Rightarrow> 'e \<Rightarrow> 'w \<Rightarrow>
     ('w \<times> (error, string) result) option" where
  "ensure_snapshot P clk dbg spec budget ev w =
     (case ns_name spec of
        None \<Rightarrow> Some (w, Err (InvalidSpec ''name'' ''ensure looks a snapshot up by name, so the spec must carry one''))
      | Some name \<Rightarrow>
          (case ensure_begin P dbg spec name ev w of
             (w', Err e) \<Rightarrow> Some (w', Err e)
           | (w', Ok (True, i)) \<Rightarrow> Some (w', Ok i)
           | (w', Ok (False, i)) \<Rightarrow> ensure_poll (sn_get P) clk dbg name (now clk w) budget i ensure_first_poll w'))"

subsection \<open>Ownership (owned.rs)\<close>

text \<open>An \<open>Ownership\<close> is its labels.\<close>

type_synonym ownership = "(string, string) btree_map"

definition and_label :: "ownership \<Rightarrow> string \<Rightarrow> string \<Rightarrow> ownership" where
  "and_label own k v = bt_insert k v own"

definition owns :: "ownership \<Rightarrow> (string, string) btree_map \<Rightarrow> bool" where
  "owns own ls \<longleftrightarrow> list_all (\<lambda>(k, v). map_of ls k = Some v) own"

definition stamp :: "ownership \<Rightarrow> (string, string) btree_map \<Rightarrow> (string, string) btree_map" where
  "stamp own ls = bt_extend ls own"

definition owned_checked :: "('w, 'h) handles \<Rightarrow> ownership \<Rightarrow> 'h \<Rightarrow> ('w, 'h) act" where
  "owned_checked hs own h =
     act_bind (hd_describe hs h) (\<lambda>st.
       act_of (if owns own (status_labels st) then Ok h else Err (NotOwned ResSandbox (hd_id hs h))))"

definition owned_create :: "ownership \<Rightarrow> ('w, 'h, 'e, 'j) provider \<Rightarrow> 'j driver_spec \<Rightarrow> 'e \<Rightarrow> ('w, 'h) act" where
  "owned_create own P spec ev = pv_create P (spec\<lparr>dp_labels := stamp own (dp_labels spec)\<rparr>) ev"

definition owned_attach ::
    "('w, 'h) handles \<Rightarrow> ownership \<Rightarrow> ('w, 'h, 'e, 'j) provider \<Rightarrow> string \<Rightarrow> 'e \<Rightarrow> ('w, 'h) act" where
  "owned_attach hs own P i ev = act_bind (pv_attach P i ev) (owned_checked hs own)"

definition owned_undelete ::
    "('w, 'h) handles \<Rightarrow> ownership \<Rightarrow> ('w, 'h, 'e, 'j) provider \<Rightarrow> string \<Rightarrow> 'e \<Rightarrow> ('w, 'h) act" where
  "owned_undelete hs own P i ev = act_bind (pv_undelete P i ev) (owned_checked hs own)"

definition owned_delete ::
    "('w, 'h) handles \<Rightarrow> ownership \<Rightarrow> ('w, 'h, 'e, 'j) provider \<Rightarrow> string \<Rightarrow> 'e \<Rightarrow> ('w, unit) act" where
  "owned_delete hs own P i ev w =
     (case owned_attach hs own P i ev w of
        (w', Ok h) \<Rightarrow> hd_delete hs h w'
      | (w', Err (NotFound ResSandbox _)) \<Rightarrow> (w', Ok ())
      | (w', Err e) \<Rightarrow> (w', Err e))"

definition owned_list ::
    "ownership \<Rightarrow> ('w, 'h, 'e, 'j) provider \<Rightarrow> (string, string) btree_map \<Rightarrow> ('w, driver_status list) act" where
  "owned_list own P flt = act_map (filter (\<lambda>st. owns own (status_labels st))) (pv_list P (stamp own flt))"

definition owned_provider ::
    "('w, 'h) handles \<Rightarrow> ownership \<Rightarrow> ('w, 'h, 'e, 'j) provider \<Rightarrow> ('w, 'h, 'e, 'j) provider" where
  "owned_provider hs own P =
     \<lparr>pv_kind = pv_kind P, pv_capabilities = pv_capabilities P, pv_create = owned_create own P,
      pv_attach = owned_attach hs own P, pv_undelete = owned_undelete hs own P, pv_delete = owned_delete hs own P,
      pv_list = owned_list own P, pv_health = pv_health P\<rparr>"

lemma owns_iff: "bt_ok own \<Longrightarrow> owns own ls \<longleftrightarrow> map_of own \<subseteq>\<^sub>m map_of ls"
  using bt_ok_distinct [of own] by (auto simp: owns_def list_all_iff map_le_def dom_def)

lemma owns_iff_entries: "owns own ls \<longleftrightarrow> (\<forall>(k, v)\<in>set own. map_of ls k = Some v)"
  by (auto simp: owns_def list_all_iff)

lemma stamp_get: "bt_ok own \<Longrightarrow> map_of (stamp own ls) = map_of ls ++ map_of own"
  by (simp add: stamp_def bt_extend_get map_of_rev_bt)

lemma stamp_owns: "bt_ok own \<Longrightarrow> owns own (stamp own ls)"
  by (simp add: owns_iff stamp_get)

subsection \<open>Owned providers act on owned sandboxes only\<close>

text \<open>What a backend holds: the labels of each sandbox. Describing a sandbox tells its labels and
  changes nothing, attaching changes nothing, and deleting through a handle changes nothing but the
  sandbox of the handle.\<close>

definition backend_holds ::
    "('w \<Rightarrow> string \<Rightarrow> (string, string) btree_map option) \<Rightarrow> ('w, 'h) handles \<Rightarrow> ('w, 'h, 'e, 'j) provider \<Rightarrow> bool" where
  "backend_holds store hs P \<longleftrightarrow>
     (\<forall>i ev w. store (fst (pv_attach P i ev w)) = store w) \<and>
     (\<forall>h w. store (fst (hd_describe hs h w)) = store w) \<and>
     (\<forall>h w st. snd (hd_describe hs h w) = Ok st \<longrightarrow> store w (hd_id hs h) = Some (status_labels st)) \<and>
     (\<forall>h w i. i \<noteq> hd_id hs h \<longrightarrow> store (fst (hd_delete hs h w)) i = store w i)"

lemma checked_step:
  assumes "backend_holds store hs P" and "owned_checked hs own h w = (w', r)"
  shows "store w' = store w \<and>
    (\<forall>g. r = Ok g \<longrightarrow> g = h \<and> (\<exists>ls. store w (hd_id hs h) = Some ls \<and> owns own ls))"
  using assms unfolding backend_holds_def owned_checked_def act_bind_def act_of_def
  by (auto split: prod.splits sum.splits if_splits) (metis fst_conv)+

lemma attach_step:
  assumes "backend_holds store hs P" and "owned_attach hs own P i ev w = (w', r)"
  shows "store w' = store w \<and> (\<forall>h. r = Ok h \<longrightarrow> (\<exists>ls. store w (hd_id hs h) = Some ls \<and> owns own ls))"
proof -
  obtain w1 r1 where a: "pv_attach P i ev w = (w1, r1)" by fastforce
  then have w1: "store w1 = store w" using assms(1) unfolding backend_holds_def by (metis fst_conv)
  show ?thesis
  proof (cases r1)
    case (Inl e)
    with a assms(2) w1 show ?thesis by (auto simp: owned_attach_def act_bind_def)
  next
    case (Inr h)
    with a assms(2) have "owned_checked hs own h w1 = (w', r)" by (simp add: owned_attach_def act_bind_def)
    from checked_step [OF assms(1) this] w1 show ?thesis by auto
  qed
qed

text \<open>
  C21. A provider narrowed to an owner acts on the owner's sandboxes only. Deleting by an identifier
  changes no sandbox that does not carry the owner's labels, whatever the identifier now names, and
  reports the foreign sandbox; a handle is only given out for an owned one; a listing holds exactly
  the owned ones of what the backend returned, which was asked with the owner's labels; and what is
  created carries the owner's labels, whatever the caller asked for under the same keys, and
  otherwise what the caller asked for.
\<close>

theorem owned_provider_confined:
  assumes "bt_ok own" and "backend_holds store hs P"
  shows "(\<forall>i ev w w' r. pv_delete (owned_provider hs own P) i ev w = (w', r) \<longrightarrow>
       (\<forall>j. store w' j \<noteq> store w j \<longrightarrow> (\<exists>ls. store w j = Some ls \<and> map_of own \<subseteq>\<^sub>m map_of ls))) \<and>
     (\<forall>i ev w w' h. pv_attach (owned_provider hs own P) i ev w = (w', Ok h) \<longrightarrow>
       store w' = store w \<and> (\<exists>ls. store w (hd_id hs h) = Some ls \<and> map_of own \<subseteq>\<^sub>m map_of ls)) \<and>
     (\<forall>flt w w' sts. pv_list (owned_provider hs own P) flt w = (w', Ok sts) \<longrightarrow>
       (\<exists>asked all. map_of asked = map_of flt ++ map_of own \<and> pv_list P asked w = (w', Ok all) \<and>
          sts = filter (\<lambda>st. map_of own \<subseteq>\<^sub>m map_of (status_labels st)) all)) \<and>
     (\<forall>spec ev. \<exists>ls. map_of ls = map_of (dp_labels spec) ++ map_of own \<and>
       pv_create (owned_provider hs own P) spec ev = pv_create P (spec\<lparr>dp_labels := ls\<rparr>) ev)"
proof (intro conjI)
  have "\<exists>ls. store w j = Some ls \<and> map_of own \<subseteq>\<^sub>m map_of ls"
    if d: "owned_delete hs own P i ev w = (w', r)" and j: "store w' j \<noteq> store w j" for i ev w w' r j
  proof -
    obtain w1 r1 where a: "owned_attach hs own P i ev w = (w1, r1)" by fastforce
    note s = attach_step [OF assms(2) a]
    show ?thesis
    proof (cases r1)
      case (Inr h)
      with d a have "hd_delete hs h w1 = (w', r)" by (simp add: owned_delete_def)
      with assms(2) s j have "j = hd_id hs h" unfolding backend_holds_def by (metis fst_conv)
      with s Inr show ?thesis by (auto simp: owns_iff [OF assms(1)])
    next
      case (Inl e)
      with d a have "w' = w1" by (auto simp: owned_delete_def split: error.splits resource_kind.splits)
      with s j show ?thesis by simp
    qed
  qed
  then show "\<forall>i ev w w' r. pv_delete (owned_provider hs own P) i ev w = (w', r) \<longrightarrow>
       (\<forall>j. store w' j \<noteq> store w j \<longrightarrow> (\<exists>ls. store w j = Some ls \<and> map_of own \<subseteq>\<^sub>m map_of ls))"
    by (simp add: owned_provider_def)
  show "\<forall>i ev w w' h. pv_attach (owned_provider hs own P) i ev w = (w', Ok h) \<longrightarrow>
       store w' = store w \<and> (\<exists>ls. store w (hd_id hs h) = Some ls \<and> map_of own \<subseteq>\<^sub>m map_of ls)"
    using attach_step [OF assms(2)] by (fastforce simp: owned_provider_def owns_iff [OF assms(1), symmetric])
  show "\<forall>flt w w' sts. pv_list (owned_provider hs own P) flt w = (w', Ok sts) \<longrightarrow>
       (\<exists>asked all. map_of asked = map_of flt ++ map_of own \<and> pv_list P asked w = (w', Ok all) \<and>
          sts = filter (\<lambda>st. map_of own \<subseteq>\<^sub>m map_of (status_labels st)) all)"
    using stamp_get [OF assms(1)]
    by (auto simp: owned_provider_def owned_list_def act_map_def act_bind_def act_of_def owns_iff [OF assms(1)]
        split: prod.splits sum.splits)
  show "\<forall>spec ev. \<exists>ls. map_of ls = map_of (dp_labels spec) ++ map_of own \<and>
       pv_create (owned_provider hs own P) spec ev = pv_create P (spec\<lparr>dp_labels := ls\<rparr>) ev"
    using stamp_get [OF assms(1)] by (auto simp: owned_provider_def owned_create_def)
qed

text \<open>A backend that holds two sandboxes, one of them the owner's. Its world is what it holds; a
  handle is the identifier. A deleted sandbox can be restored with the labels it had.\<close>

type_synonym toy_world = "(string \<times> (string, string) btree_map) list"

definition toy_handles :: "(toy_world, string) handles" where
  "toy_handles =
     \<lparr>hd_id = id,
      hd_describe = (\<lambda>i w. (w, case map_of w i of None \<Rightarrow> Err (NotFound ResSandbox i)
                              | Some ls \<Rightarrow> Ok (status_new i Running\<lparr>status_rest := (status_rest (status_new i Running))\<lparr>sd_labels := ls\<rparr>\<rparr>))),
      hd_delete = (\<lambda>i w. (filter (\<lambda>(j, _). j \<noteq> i) w, Ok ()))\<rparr>"

definition toy_provider :: "(toy_world, string, unit, unit) provider" where
  "toy_provider =
     \<lparr>pv_kind = ''toy'', pv_capabilities = minimal IsolationNone,
      pv_create = (\<lambda>s _ w. ((''new'', dp_labels s) # w, Ok ''new'')),
      pv_attach = (\<lambda>i _ w. (w, if map_of w i = None then Err (NotFound ResSandbox i) else Ok i)),
      pv_undelete = (\<lambda>i _ w. ((i, [(''app'', ''other'')]) # w, Ok i)),
      pv_delete = default_delete toy_handles (\<lambda>i _ w. (w, if map_of w i = None then Err (NotFound ResSandbox i) else Ok i)),
      pv_list = (\<lambda>_ w. (w, Ok (map (\<lambda>(i, ls). status_new i Running\<lparr>status_rest := (status_rest (status_new i Running))\<lparr>sd_labels := ls\<rparr>\<rparr>) w))),
      pv_health = default_health\<rparr>"

lemma toy_holds: "backend_holds map_of toy_handles toy_provider"
proof -
  have "map_of (filter (\<lambda>(j, _). j \<noteq> h) w) i = map_of w i" if "i \<noteq> h" for h i :: string and w :: toy_world
    using that by (induction w) auto
  then show ?thesis
    by (auto simp: backend_holds_def toy_handles_def toy_provider_def split: option.splits)
qed

theorem owned_provider_confined_witness:
  "pv_delete (owned_provider toy_handles [(''app'', ''mine'')] toy_provider) ''a'' ()
       [(''a'', [(''app'', ''mine'')]), (''b'', [(''app'', ''other'')])] = ([(''b'', [(''app'', ''other'')])], Ok ()) \<and>
   pv_delete (owned_provider toy_handles [(''app'', ''mine'')] toy_provider) ''b'' ()
       [(''a'', [(''app'', ''mine'')]), (''b'', [(''app'', ''other'')])] =
     ([(''a'', [(''app'', ''mine'')]), (''b'', [(''app'', ''other'')])], Err (NotOwned ResSandbox ''b'')) \<and>
   (\<exists>ls. map_of [(''a'', [(''app'', ''mine'')]), (''b'', [(''app'', ''other'')])] ''a'' = Some ls \<and>
      map_of [(''app'', ''mine'')] \<subseteq>\<^sub>m map_of ls)"
proof -
  have ok: "bt_ok [(''app'', ''mine'')]" by (simp add: bt_ok_def)
  have d: "pv_delete (owned_provider toy_handles [(''app'', ''mine'')] toy_provider) ''a'' ()
       [(''a'', [(''app'', ''mine'')]), (''b'', [(''app'', ''other'')])] = ([(''b'', [(''app'', ''other'')])], Ok ())"
    by (simp add: owned_provider_def owned_delete_def owned_attach_def owned_checked_def owns_def toy_provider_def
        toy_handles_def act_bind_def act_of_def)
  have "\<exists>ls. map_of [(''a'', [(''app'', ''mine'')]), (''b'', [(''app'', ''other'')])] ''a'' = Some ls \<and>
      map_of [(''app'', ''mine'')] \<subseteq>\<^sub>m map_of ls"
    by (rule owned_provider_confined [OF ok toy_holds, THEN conjunct1, rule_format, OF d]) simp
  with d show ?thesis
    by (simp add: owned_provider_def owned_delete_def owned_attach_def owned_checked_def owns_def toy_provider_def
        toy_handles_def act_bind_def act_of_def)
qed

text \<open>Undeleting acts first and checks afterwards: a sandbox that is not the owner's is restored, and
  only then the call reports that it is not owned.\<close>

lemma owned_undelete_restores_foreign:
  "pv_undelete (owned_provider toy_handles [(''app'', ''mine'')] toy_provider) ''b'' () [] =
     ([(''b'', [(''app'', ''other'')])], Err (NotOwned ResSandbox ''b''))"
  by (simp add: owned_provider_def owned_undelete_def owned_checked_def owns_def toy_provider_def toy_handles_def
      act_bind_def act_of_def status_new_def)

subsection \<open>Making a snapshot usable\<close>

text \<open>The interval and the world after each further turn of the loop, were it to go on, and what the turn
  answers.\<close>

definition poll_turn ::
    "(string \<Rightarrow> ('w, snapshot_status) act) \<Rightarrow> 'w clock \<Rightarrow> duration \<Rightarrow> duration \<Rightarrow> string \<Rightarrow> duration \<times> 'w \<Rightarrow> duration \<times> 'w" where
  "poll_turn get clk started budget i st =
     (min (fst st * 2) ensure_max_poll,
      fst (get i (sleep clk (min (fst st) (budget - (now clk (snd st) - started))) (snd st))))"

definition poll_state ::
    "(string \<Rightarrow> ('w, snapshot_status) act) \<Rightarrow> 'w clock \<Rightarrow> duration \<Rightarrow> duration \<Rightarrow> string \<Rightarrow> 'w \<Rightarrow> nat \<Rightarrow> duration \<times> 'w" where
  "poll_state get clk started budget i w k = (poll_turn get clk started budget i ^^ k) (ensure_first_poll, w)"

definition poll_answer ::
    "(string \<Rightarrow> ('w, snapshot_status) act) \<Rightarrow> 'w clock \<Rightarrow> (string \<Rightarrow> string) \<Rightarrow> string \<Rightarrow> duration \<Rightarrow> duration \<Rightarrow> string \<Rightarrow>
     duration \<times> 'w \<Rightarrow> ('w \<times> (error, string) result) option" where
  "poll_answer get clk dbg name started budget i st =
     (case st of (interval, w) \<Rightarrow>
        if budget \<le> now clk w - started
        then Some (w, Err (Timeout (''waiting for snapshot '' @ dbg name @ '' to become active'') (now clk w - started)))
        else
          (case get i (sleep clk (min interval (budget - (now clk w - started))) w) of
             (w', Err e) \<Rightarrow> Some (w', Err e)
           | (w', Ok st) \<Rightarrow>
               if ss_state st = SnapActive then Some (w', Ok i)
               else if ss_state st = SnapError \<or> ss_state st = SnapDeleting then Some (w', Err (snapshot_unusable dbg name st))
               else None))"

interpretation snapshot_wait: polling
    "\<lambda>k. case poll_state get clk started budget i w k of (interval, w') \<Rightarrow>
       ensure_poll get clk dbg name started budget i interval w'"
    "\<lambda>k. poll_answer get clk dbg name started budget i (poll_state get clk started budget i w k)"
proof unfold_locales
  fix k
  obtain v u where s: "poll_state get clk started budget i w k = (v, u)" by fastforce
  then have "poll_state get clk started budget i w (Suc k) = poll_turn get clk started budget i (v, u)"
    by (simp add: poll_state_def)
  then show "(case poll_state get clk started budget i w k of (interval, w') \<Rightarrow>
        ensure_poll get clk dbg name started budget i interval w') =
      (case poll_answer get clk dbg name started budget i (poll_state get clk started budget i w k) of
        Some r \<Rightarrow> Some r
      | None \<Rightarrow> case poll_state get clk started budget i w (Suc k) of (interval, w') \<Rightarrow>
          ensure_poll get clk dbg name started budget i interval w')"
    unfolding s by (simp add: poll_answer_def poll_turn_def ensure_poll.simps [of get clk dbg name started budget i v u]
        split: prod.split sum.split)
qed

text \<open>Sleeping takes at least as long as it says, and no call turns the clock back.\<close>

definition clock_ok :: "'w clock \<Rightarrow> ('w, 'e, 'j) snapshot_provider \<Rightarrow> bool" where
  "clock_ok clk P \<longleftrightarrow>
     (\<forall>d w. now clk w + d \<le> now clk (sleep clk d w)) \<and>
     (\<forall>i w. now clk w \<le> now clk (fst (sn_get P i w))) \<and>
     (\<forall>f w. now clk w \<le> now clk (fst (sn_list P f w))) \<and>
     (\<forall>s ev w. now clk w \<le> now clk (fst (sn_create P s ev w))) \<and>
     (\<forall>i ev w. now clk w \<le> now clk (fst (sn_activate P i ev w)))"

lemma poll_state_interval: "ensure_first_poll \<le> fst (poll_state get clk started budget i w k)"
  by (induction k) (simp_all add: poll_state_def poll_turn_def ensure_first_poll_def ensure_max_poll_def)

lemma poll_state_elapsed:
  assumes "clock_ok clk P" and "started \<le> now clk w"
  shows "started + min budget (k * ensure_first_poll) \<le> now clk (snd (poll_state (sn_get P) clk started budget i w k))"
proof (induction k)
  case 0
  with assms(2) show ?case by (simp add: poll_state_def)
next
  case (Suc k)
  obtain v u where s: "poll_state (sn_get P) clk started budget i w k = (v, u)" by fastforce
  let ?d = "min v (budget - (now clk u - started))"
  have v: "ensure_first_poll \<le> v" using poll_state_interval [of "sn_get P" clk started budget i w k] s by simp
  have "now clk u + ?d \<le> now clk (sleep clk ?d u)" using assms by (simp add: clock_ok_def)
  also have "\<dots> \<le> now clk (fst (sn_get P i (sleep clk ?d u)))" using assms by (simp add: clock_ok_def)
  also have "\<dots> = now clk (snd (poll_state (sn_get P) clk started budget i w (Suc k)))"
    using s by (simp add: poll_state_def poll_turn_def)
  finally have "now clk u + ?d \<le> now clk (snd (poll_state (sn_get P) clk started budget i w (Suc k)))" .
  moreover have "started + min budget (k * ensure_first_poll) \<le> now clk u" using Suc.IH s by simp
  ultimately show ?case using v by (auto simp: min_def split: if_splits)
qed

lemma ensure_poll_returns:
  assumes "clock_ok clk P" and "started \<le> now clk w"
  shows "\<exists>k\<le>budget div ensure_first_poll + 1. \<exists>r.
    ensure_poll (sn_get P) clk dbg name started budget i ensure_first_poll w = Some r \<and>
    poll_answer (sn_get P) clk dbg name started budget i (poll_state (sn_get P) clk started budget i w k) = Some r \<and>
    (\<forall>j<k. poll_answer (sn_get P) clk dbg name started budget i (poll_state (sn_get P) clk started budget i w j) = None)"
proof -
  let ?n = "budget div ensure_first_poll + 1"
  have f: "0 < ensure_first_poll" by (simp add: ensure_first_poll_def)
  have "budget < ?n * ensure_first_poll"
    using f by (metis add.commute div_mult_mod_eq mod_less_divisor mult_Suc nat_add_left_cancel_less plus_1_eq_Suc)
  with poll_state_elapsed [OF assms, of budget ?n i]
  have "budget \<le> now clk (snd (poll_state (sn_get P) clk started budget i w ?n)) - started" by simp
  then have "poll_answer (sn_get P) clk dbg name started budget i (poll_state (sn_get P) clk started budget i w (0 + ?n)) \<noteq> None"
    by (auto simp: poll_answer_def split: prod.splits)
  from snapshot_wait.loop_returns [OF this] show ?thesis by (auto simp: poll_state_def)
qed

text \<open>How a wait for a snapshot ends: it became active, the provider said that it cannot, a call
  failed, or the budget is used up.\<close>

definition wait_ended ::
    "('w, 'e, 'j) snapshot_provider \<Rightarrow> 'w clock \<Rightarrow> (string \<Rightarrow> string) \<Rightarrow> string \<Rightarrow> duration \<Rightarrow> duration \<Rightarrow> string \<Rightarrow>
     'w \<times> (error, string) result \<Rightarrow> bool" where
  "wait_ended P clk dbg name started budget i res \<longleftrightarrow>
     (case res of
        (w', Ok i') \<Rightarrow> i' = i \<and> (\<exists>u st. sn_get P i u = (w', Ok st) \<and> ss_state st = SnapActive)
      | (w', Err e) \<Rightarrow>
          (\<exists>u st. sn_get P i u = (w', Ok st) \<and> ss_state st \<in> {SnapError, SnapDeleting} \<and> e = snapshot_unusable dbg name st) \<or>
          (\<exists>u. sn_get P i u = (w', Err e)) \<or>
          (\<exists>t. e = Timeout (''waiting for snapshot '' @ dbg name @ '' to become active'') t \<and> budget \<le> t \<and> t = now clk w' - started))"

lemma poll_answer_ended:
  "poll_answer (sn_get P) clk dbg name started budget i st = Some res \<Longrightarrow> wait_ended P clk dbg name started budget i res"
  by (cases st) (fastforce simp: poll_answer_def wait_ended_def split: prod.splits sum.splits if_splits)

text \<open>How the snapshot was found: the one of that name, activated when it was inactive, and created
  only when the provider listed none of that name.\<close>

definition began ::
    "('w, 'e, 'j) snapshot_provider \<Rightarrow> 'j snapshot_spec \<Rightarrow> string \<Rightarrow> 'e \<Rightarrow> 'w \<Rightarrow> 'w \<Rightarrow> string \<Rightarrow> bool" where
  "began P spec name ev w w1 i \<longleftrightarrow>
     (\<exists>u sts. sn_list P (Some name) w = (u, Ok sts) \<and>
        ((\<forall>st\<in>set sts. ss_name st \<noteq> Some name) \<and> sn_create P spec ev u = (w1, Ok i) \<or>
         (\<exists>st\<in>set sts. ss_name st = Some name \<and> ss_id st = i \<and>
            (ss_state st = SnapInactive \<and> sn_activate P i ev u = (w1, Ok ()) \<or>
             ss_state st \<in> {SnapBuilding, SnapUnknown} \<and> w1 = u))))"

lemma ensure_begin_Ok:
  assumes "ensure_begin P dbg spec name ev w = (w1, Ok (ready, i))"
  shows "(if ready then \<exists>sts. sn_list P (Some name) w = (w1, Ok sts) \<and>
             (\<exists>st\<in>set sts. ss_name st = Some name \<and> ss_id st = i \<and> ss_state st = SnapActive)
          else began P spec name ev w w1 i)"
proof -
  obtain u sts where l: "sn_list P (Some name) w = (u, Ok sts)"
    using assms by (auto simp: ensure_begin_def act_bind_def split: prod.splits sum.splits)
  show ?thesis
  proof (cases "List.find (\<lambda>st. ss_name st = Some name) sts")
    case None
    with l assms show ?thesis
      by (auto simp: ensure_begin_def began_def act_bind_def act_map_def act_of_def find_None_iff split: prod.splits sum.splits)
  next
    case (Some st)
    then have "st \<in> set sts" "ss_name st = Some name" by (auto dest: find_Some_in)
    with l Some assms show ?thesis
      by (fastforce simp: ensure_begin_def began_def act_bind_def act_map_def act_of_def
          split: prod.splits sum.splits snapshot_state.splits)
  qed
qed

lemma ensure_begin_now:
  assumes "clock_ok clk P" and "ensure_begin P dbg spec name ev w = (w1, r)"
  shows "now clk w \<le> now clk w1"
proof -
  obtain u q where l: "sn_list P (Some name) w = (u, q)" by fastforce
  with assms(1) have u: "now clk w \<le> now clk u" unfolding clock_ok_def by (metis fst_conv)
  have "now clk u \<le> now clk w1"
    using assms l unfolding clock_ok_def
    by (auto simp: ensure_begin_def act_bind_def act_map_def act_of_def
        split: prod.splits sum.splits option.splits snapshot_state.splits) (metis fst_conv)+
  with u show ?thesis by simp
qed

text \<open>
  C23. Making a snapshot usable ends, and ends truthfully. Whatever the provider answers, the call returns,
  after at most the budget divided by the first interval, plus two, looks; it returns a snapshot only
  when the provider has just said that it is active; a snapshot is created only when none of that name
  was listed, and activated only when it was inactive; a timeout is reported only when the budget has
  really passed; and every other error is one a call returned or a snapshot that cannot become active.
\<close>

theorem ensure_snapshot_settles:
  assumes "clock_ok clk P" and "ns_name spec = Some name"
  shows "\<exists>w' r. ensure_snapshot P clk dbg spec budget ev w = Some (w', r) \<and>
    ((\<exists>e. r = Err e \<and> ensure_begin P dbg spec name ev w = (w', Err e)) \<or>
     (\<exists>i sts. r = Ok i \<and> sn_list P (Some name) w = (w', Ok sts) \<and>
        (\<exists>st\<in>set sts. ss_name st = Some name \<and> ss_id st = i \<and> ss_state st = SnapActive)) \<or>
     (\<exists>i w1. began P spec name ev w w1 i \<and> wait_ended P clk dbg name (now clk w) budget i (w', r) \<and>
        (\<exists>k\<le>budget div ensure_first_poll + 1.
           poll_answer (sn_get P) clk dbg name (now clk w) budget i
             (poll_state (sn_get P) clk (now clk w) budget i w1 k) = Some (w', r))))"
proof -
  obtain w1 q where b: "ensure_begin P dbg spec name ev w = (w1, q)" by fastforce
  show ?thesis
  proof (cases q)
    case (Inl e)
    with b assms(2) show ?thesis by (simp add: ensure_snapshot_def)
  next
    case (Inr x)
    obtain ready i where x: "x = (ready, i)" by fastforce
    note ok = ensure_begin_Ok [OF b [unfolded Inr x]]
    show ?thesis
    proof (cases ready)
      case True
      with b Inr x assms(2) ok show ?thesis by (simp add: ensure_snapshot_def)
    next
      case False
      obtain k w' r where k: "k \<le> budget div ensure_first_poll + 1"
        "ensure_poll (sn_get P) clk dbg name (now clk w) budget i ensure_first_poll w1 = Some (w', r)"
        "poll_answer (sn_get P) clk dbg name (now clk w) budget i (poll_state (sn_get P) clk (now clk w) budget i w1 k) = Some (w', r)"
        using ensure_poll_returns [OF assms(1) ensure_begin_now [OF assms(1) b], of budget dbg name i] by auto
      from k(2) False b Inr x assms(2) have "ensure_snapshot P clk dbg spec budget ev w = Some (w', r)"
        by (simp add: ensure_snapshot_def)
      moreover have "began P spec name ev w w1 i" using ok False by simp
      ultimately show ?thesis using k(1,3) poll_answer_ended [OF k(3)] by blast
    qed
  qed
qed

text \<open>A snapshot that is inactive at first and active at the second look; the world is the clock.\<close>

definition toy_snapshots :: "(nat, unit, unit) snapshot_provider" where
  "toy_snapshots =
     \<lparr>sn_create = (\<lambda>_ _ w. (w, Ok ''new'')),
      sn_get = (\<lambda>i w. (w, Ok (snapshot_status_new i (if w < from_secs 6 then SnapBuilding else SnapActive)))),
      sn_list = (\<lambda>_ w. (w, Ok [snapshot_status_new ''s1'' SnapInactive\<lparr>ss_name := Some ''base''\<rparr>])),
      sn_activate = (\<lambda>_ _ w. (w, Ok ()))\<rparr>"

definition toy_clock :: "nat clock" where
  "toy_clock = \<lparr>now = id, sleep = (+)\<rparr>"

theorem ensure_snapshot_settles_witness:
  "ensure_snapshot toy_snapshots toy_clock id ((snapshot_spec_new () (SnapImage ''x''))\<lparr>ns_name := Some ''base''\<rparr>) (from_secs 20) () 0 =
     Some (from_secs 6, Ok ''s1'') \<and>
   began toy_snapshots ((snapshot_spec_new () (SnapImage ''x''))\<lparr>ns_name := Some ''base''\<rparr>) ''base'' () 0 0 ''s1''"
proof -
  let ?spec = "(snapshot_spec_new () (SnapImage ''x''))\<lparr>ns_name := Some ''base''\<rparr>"
  have c: "clock_ok toy_clock toy_snapshots" by (simp add: clock_ok_def toy_clock_def toy_snapshots_def)
  have e: "ensure_snapshot toy_snapshots toy_clock id ?spec (from_secs 20) () 0 = Some (from_secs 6, Ok ''s1'')"
    by (simp add: ensure_snapshot_def ensure_begin_def toy_snapshots_def toy_clock_def snapshot_status_new_def snapshot_spec_new_def
        act_bind_def act_map_def act_of_def ensure_first_poll_def ensure_max_poll_def ensure_poll.simps)
  have "ns_name ?spec = Some ''base''" by simp
  from ensure_snapshot_settles [OF c this, of id "from_secs 20" "()" 0] e
  have "\<exists>i w1. began toy_snapshots ?spec ''base'' () 0 w1 i"
    by (auto simp: ensure_begin_def toy_snapshots_def act_bind_def act_map_def act_of_def snapshot_status_new_def)
  then show ?thesis using e
    by (auto simp: began_def toy_snapshots_def snapshot_status_new_def)
qed

end
