(* ===== verification/Events.thy ===== *)
theory Events
  imports Providers "HOL-Library.Multiset"
begin

section \<open>Events (event.rs)\<close>

text \<open>
  A driver operation tells an observer what it does: that it started, how it progresses, and how it
  ended. Every event of a context carries the next number of its source. Operations run
  concurrently and their futures may be dropped, so the events of a context are a step relation over
  the operations in flight. Handing an event over is one step, as the lock is taken before the number
  is drawn and held until the observer has it; what the observer does then holds everybody else up
  and is left out, which only adds interleavings.
\<close>

subsection \<open>Data\<close>

datatype event_subject =
    SubjectProvider
  | SubjectSandbox "string option" "string option"
  | SubjectSnapshot "string option" "string option"
  | SubjectVolume "string option" "string option"
  | SubjectUnknown

datatype progress_unit = UnitBytes | UnitItems | UnitSteps | UnitPercent | UnitUnknown

record progress =
  pg_code :: string
  pg_message :: "string option"
  pg_completed :: "nat option"
  pg_total :: "nat option"
  pg_unit :: "progress_unit option"

datatype volume_state = VolCreating | VolReady | VolDeleting | VolDeleted | VolError | VolUnknown

datatype resource_state =
    StateOfSandbox sandbox_state | StateOfSnapshot snapshot_state | StateOfVolume volume_state | StateOfUnknown

datatype event_body =
    OperationStarted action
  | OperationProgress action progress
  | OperationCompleted action duration
  | OperationFailed action duration error_report
  | StateObserved "resource_state option" resource_state
  | Notice string string
  | BodyUnknown

definition body_terminal :: "event_body \<Rightarrow> bool" where
  "body_terminal b \<longleftrightarrow> (case b of OperationCompleted _ _ \<Rightarrow> True | OperationFailed _ _ _ \<Rightarrow> True | _ \<Rightarrow> False)"

record event =
  ev_source_id :: string
  ev_sequence :: nat
  ev_occurred_at :: nat
  ev_provider :: string
  ev_subject :: event_subject
  ev_operation_id :: "string option"
  ev_correlation_id :: "string option"
  ev_body :: event_body

text \<open>The shared part of a context; its observer is the list of what was handed to it.\<close>

record event_source =
  es_source_id :: string
  es_next_sequence :: nat
  es_observed :: "event list"

type_synonym event_context = "string option" \<comment> \<open>the correlation id\<close>

record event_emitter =
  em_provider :: string
  em_context :: "event_context option"

definition u64_max :: nat where "u64_max = 2 ^ 64 - 1"

definition source_new :: "string \<Rightarrow> event_source" where
  "source_new i = \<lparr>es_source_id = i, es_next_sequence = 0, es_observed = []\<rparr>"

text \<open>Drawing a number past the last one panics: \<open>None\<close>.\<close>

definition context_emit ::
    "event_context \<Rightarrow> nat \<Rightarrow> string \<Rightarrow> event_subject \<Rightarrow> string option \<Rightarrow> event_body \<Rightarrow> event_source \<Rightarrow> event_source option" where
  "context_emit ctx occurred_at kind subject operation_id body src =
     (if es_next_sequence src = u64_max then None
      else Some (src\<lparr>es_next_sequence := es_next_sequence src + 1,
        es_observed := es_observed src @ [\<lparr>ev_source_id = es_source_id src, ev_sequence = es_next_sequence src + 1,
          ev_occurred_at = occurred_at, ev_provider = kind, ev_subject = subject, ev_operation_id = operation_id,
          ev_correlation_id = ctx, ev_body = body\<rparr>]\<rparr>))"

definition emitter_emit ::
    "event_emitter \<Rightarrow> nat \<Rightarrow> event_subject \<Rightarrow> string option \<Rightarrow> event_body \<Rightarrow> event_source \<Rightarrow> event_source option" where
  "emitter_emit em occurred_at subject operation_id body src =
     (case em_context em of
        None \<Rightarrow> Some src
      | Some ctx \<Rightarrow> context_emit ctx occurred_at (em_provider em) subject operation_id body src)"

definition context_forward :: "event \<Rightarrow> event_source \<Rightarrow> event_source" where
  "context_forward e src = src\<lparr>es_observed := es_observed src @ [e]\<rparr>"

text \<open>The last event of an operation, by its outcome; the display of an error is a parameter.\<close>

definition terminal_body :: "(error \<Rightarrow> string) \<Rightarrow> action \<Rightarrow> duration \<Rightarrow> error option \<Rightarrow> event_body" where
  "terminal_body display act dur outcome =
     (case outcome of
        None \<Rightarrow> OperationCompleted act dur
      | Some e \<Rightarrow> OperationFailed act dur (error_report display e))"

subsection \<open>Operations in flight\<close>

text \<open>Where \<open>EventEmitter::run\<close> is: about to say that it started, after it did, in the operation, about
  to say how it ended, after it did, and returned; or its future was dropped, or it panicked. An
  outcome is the error, if any.\<close>

datatype op_phase =
    OpStarting | OpAnnounced | OpRunning | OpFinishing event_subject duration "error option"
  | OpReported "error option" | OpReturned "error option" | OpDropped | OpPanicked

record op =
  op_emitter :: event_emitter
  op_id :: string
  op_action :: action
  op_subject :: event_subject
  op_phase :: op_phase
  op_reporter :: bool

text \<open>A report of progress has read its subject and waits for the lock. A reporter can be cloned and
  kept, so it may report at any time after it was made.\<close>

record events_world =
  ew_source :: event_source
  ew_ops :: "nat \<Rightarrow> op option"
  ew_pending :: "(nat \<times> event_subject \<times> progress) multiset"

definition world_new :: "string \<Rightarrow> events_world" where
  "world_new i = \<lparr>ew_source = source_new i, ew_ops = Map.empty, ew_pending = {#}\<rparr>"

definition put_op :: "nat \<Rightarrow> op \<Rightarrow> events_world \<Rightarrow> events_world" where
  "put_op i r w = w\<lparr>ew_ops := (ew_ops w)(i \<mapsto> r)\<rparr>"

definition op_unfinished :: "op_phase \<Rightarrow> bool" where
  "op_unfinished p \<longleftrightarrow> (case p of OpReturned _ \<Rightarrow> False | OpDropped \<Rightarrow> False | OpPanicked \<Rightarrow> False | _ \<Rightarrow> True)"

inductive ev_step :: "(error \<Rightarrow> string) \<Rightarrow> events_world \<Rightarrow> events_world \<Rightarrow> bool" for display where
  run_begin: "\<lbrakk>ew_ops w i = None; \<forall>j r. ew_ops w j = Some r \<longrightarrow> op_id r \<noteq> x\<rbrakk> \<Longrightarrow>
    ev_step display w (put_op i \<lparr>op_emitter = em, op_id = x, op_action = a, op_subject = s, op_phase = OpStarting,
      op_reporter = False\<rparr> w)"
| announce: "\<lbrakk>ew_ops w i = Some r; op_phase r = OpStarting;
     emitter_emit (op_emitter r) t (op_subject r) (Some (op_id r)) (OperationStarted (op_action r)) (ew_source w) = Some src\<rbrakk> \<Longrightarrow>
    ev_step display w (put_op i (r\<lparr>op_phase := OpAnnounced\<rparr>) (w\<lparr>ew_source := src\<rparr>))"
| announce_panics: "\<lbrakk>ew_ops w i = Some r; op_phase r = OpStarting;
     emitter_emit (op_emitter r) t (op_subject r) (Some (op_id r)) (OperationStarted (op_action r)) (ew_source w) = None\<rbrakk> \<Longrightarrow>
    ev_step display w (put_op i (r\<lparr>op_phase := OpPanicked\<rparr>) w)"
| run_operation: "\<lbrakk>ew_ops w i = Some r; op_phase r = OpAnnounced\<rbrakk> \<Longrightarrow>
    ev_step display w (put_op i (r\<lparr>op_phase := OpRunning, op_reporter := True\<rparr>) w)"
| set_subject: "\<lbrakk>ew_ops w i = Some r; op_reporter r\<rbrakk> \<Longrightarrow>
    ev_step display w (put_op i (r\<lparr>op_subject := s\<rparr>) w)"
| report: "\<lbrakk>ew_ops w i = Some r; op_reporter r\<rbrakk> \<Longrightarrow>
    ev_step display w (w\<lparr>ew_pending := add_mset (i, op_subject r, p) (ew_pending w)\<rparr>)"
| deliver: "\<lbrakk>ew_ops w i = Some r; (i, s, p) \<in># ew_pending w;
     emitter_emit (op_emitter r) t s (Some (op_id r)) (OperationProgress (op_action r) p) (ew_source w) = Some src\<rbrakk> \<Longrightarrow>
    ev_step display w (w\<lparr>ew_source := src, ew_pending := ew_pending w - {#(i, s, p)#}\<rparr>)"
| report_lost: "q \<in># ew_pending w \<Longrightarrow> ev_step display w (w\<lparr>ew_pending := ew_pending w - {#q#}\<rparr>)"
| operation_ends: "\<lbrakk>ew_ops w i = Some r; op_phase r = OpRunning\<rbrakk> \<Longrightarrow>
    ev_step display w (put_op i (r\<lparr>op_phase := OpFinishing (op_subject r) d outcome\<rparr>) w)"
| report_end: "\<lbrakk>ew_ops w i = Some r; op_phase r = OpFinishing s d outcome;
     emitter_emit (op_emitter r) t s (Some (op_id r)) (terminal_body display (op_action r) d outcome) (ew_source w) = Some src\<rbrakk> \<Longrightarrow>
    ev_step display w (put_op i (r\<lparr>op_phase := OpReported outcome\<rparr>) (w\<lparr>ew_source := src\<rparr>))"
| report_end_panics: "\<lbrakk>ew_ops w i = Some r; op_phase r = OpFinishing s d outcome;
     emitter_emit (op_emitter r) t s (Some (op_id r)) (terminal_body display (op_action r) d outcome) (ew_source w) = None\<rbrakk> \<Longrightarrow>
    ev_step display w (put_op i (r\<lparr>op_phase := OpPanicked\<rparr>) w)"
| run_returns: "\<lbrakk>ew_ops w i = Some r; op_phase r = OpReported outcome\<rbrakk> \<Longrightarrow>
    ev_step display w (put_op i (r\<lparr>op_phase := OpReturned outcome\<rparr>) w)"
| run_dropped: "\<lbrakk>ew_ops w i = Some r; op_unfinished (op_phase r)\<rbrakk> \<Longrightarrow>
    ev_step display w (put_op i (r\<lparr>op_phase := OpDropped\<rparr>) w)"
| observed: "\<lbrakk>b = StateObserved prev cur \<or> b = Notice code message; emitter_emit em t s None b (ew_source w) = Some src\<rbrakk> \<Longrightarrow>
    ev_step display w (w\<lparr>ew_source := src\<rparr>)"
| forwarded: "ev_source_id e \<noteq> es_source_id (ew_source w) \<Longrightarrow>
    ev_step display w (w\<lparr>ew_source := context_forward e (ew_source w)\<rparr>)"

abbreviation ev_steps :: "(error \<Rightarrow> string) \<Rightarrow> events_world \<Rightarrow> events_world \<Rightarrow> bool" where
  "ev_steps display \<equiv> (ev_step display)\<^sup>*\<^sup>*"

subsection \<open>The order of events\<close>

text \<open>The events of the source's own, and the bodies of one operation among them.\<close>

definition own_events :: "event_source \<Rightarrow> event list" where
  "own_events src = filter (\<lambda>e. ev_source_id e = es_source_id src) (es_observed src)"

definition op_bodies :: "event_source \<Rightarrow> string \<Rightarrow> event_body list" where
  "op_bodies src x = map ev_body (filter (\<lambda>e. ev_operation_id e = Some x) (own_events src))"

definition op_events :: "event_source \<Rightarrow> string \<Rightarrow> event list" where
  "op_events src x = filter (\<lambda>e. ev_operation_id e = Some x) (own_events src)"

definition all_progress :: "action \<Rightarrow> event_body list \<Rightarrow> bool" where
  "all_progress a bs \<longleftrightarrow> (\<forall>b\<in>set bs. \<exists>p. b = OperationProgress a p)"

definition says_end :: "(error \<Rightarrow> string) \<Rightarrow> action \<Rightarrow> error option \<Rightarrow> event_body \<Rightarrow> bool" where
  "says_end display a outcome b \<longleftrightarrow>
     (\<exists>d. outcome = None \<and> b = OperationCompleted a d \<or>
          (\<exists>e. outcome = Some e \<and> b = OperationFailed a d (error_report display e)))"

definition ended_with :: "(error \<Rightarrow> string) \<Rightarrow> action \<Rightarrow> error option \<Rightarrow> event_body list \<Rightarrow> bool" where
  "ended_with display a outcome bs \<longleftrightarrow>
     (\<exists>ps b qs. bs = OperationStarted a # ps @ b # qs \<and> says_end display a outcome b \<and> all_progress a ps \<and> all_progress a qs)"

definition in_flight :: "action \<Rightarrow> event_body list \<Rightarrow> bool" where
  "in_flight a bs \<longleftrightarrow> (\<exists>ps. bs = OperationStarted a # ps \<and> all_progress a ps)"

text \<open>What the observer has seen of an operation, by where it is.\<close>

definition told :: "(error \<Rightarrow> string) \<Rightarrow> op \<Rightarrow> event_body list \<Rightarrow> bool" where
  "told display r bs \<longleftrightarrow>
     (case op_phase r of
        OpStarting \<Rightarrow> bs = []
      | OpAnnounced \<Rightarrow> in_flight (op_action r) bs
      | OpRunning \<Rightarrow> in_flight (op_action r) bs
      | OpFinishing _ _ _ \<Rightarrow> in_flight (op_action r) bs
      | OpReported outcome \<Rightarrow> ended_with display (op_action r) outcome bs
      | OpReturned outcome \<Rightarrow> ended_with display (op_action r) outcome bs
      | _ \<Rightarrow> bs = [] \<or> in_flight (op_action r) bs \<or> (\<exists>outcome. ended_with display (op_action r) outcome bs))"

text \<open>An event handed over is the last of the source's own.\<close>

definition handed_over :: "event_emitter \<Rightarrow> string option \<Rightarrow> event_body \<Rightarrow> event_source \<Rightarrow> event_source \<Rightarrow> bool" where
  "handed_over em oid b src src' \<longleftrightarrow>
     (\<exists>e. own_events src' = own_events src @ [e] \<and> ev_operation_id e = oid \<and> ev_body e = b \<and>
        ev_provider e = em_provider em \<and> Some (ev_correlation_id e) = em_context em \<and> ev_sequence e = es_next_sequence src + 1 \<and>
        es_source_id src' = es_source_id src \<and> es_next_sequence src' = es_next_sequence src + 1 \<and>
        es_next_sequence src \<noteq> u64_max)"

lemma emitter_emit_Some:
  assumes "emitter_emit em t s oid b src = Some src'"
  shows "if em_context em = None then src' = src else handed_over em oid b src src'"
  using assms
  by (auto simp: emitter_emit_def context_emit_def own_events_def handed_over_def split: option.splits if_splits)

lemma forward_own: "ev_source_id e \<noteq> es_source_id src \<Longrightarrow> own_events (context_forward e src) = own_events src"
  by (simp add: own_events_def context_forward_def)

text \<open>What holds of the source, of one operation, and of all of them.\<close>

definition source_ok :: "event_source \<Rightarrow> bool" where
  "source_ok src \<longleftrightarrow> map ev_sequence (own_events src) = [1..<Suc (es_next_sequence src)] \<and> es_next_sequence src \<le> u64_max"

definition op_ok :: "(error \<Rightarrow> string) \<Rightarrow> event_source \<Rightarrow> op \<Rightarrow> bool" where
  "op_ok display src r \<longleftrightarrow>
     (let bs = op_bodies src (op_id r) in
      (if em_context (op_emitter r) = None then bs = []
       else told display r bs \<and> (op_reporter r \<longrightarrow> bs \<noteq> [])) \<and>
      (op_phase r \<in> {OpStarting, OpAnnounced} \<longrightarrow> \<not> op_reporter r) \<and>
      (\<forall>e\<in>set (own_events src). ev_operation_id e = Some (op_id r) \<longrightarrow>
         ev_provider e = em_provider (op_emitter r) \<and> Some (ev_correlation_id e) = em_context (op_emitter r)))"

definition ids_ok :: "event list \<Rightarrow> (nat \<Rightarrow> op option) \<Rightarrow> (nat \<times> event_subject \<times> progress) multiset \<Rightarrow> bool" where
  "ids_ok es ops pend \<longleftrightarrow>
     (\<forall>i r j q. ops i = Some r \<longrightarrow> ops j = Some q \<longrightarrow> op_id r = op_id q \<longrightarrow> i = j) \<and>
     (\<forall>e\<in>set es. \<forall>x. ev_operation_id e = Some x \<longrightarrow> (\<exists>i r. ops i = Some r \<and> op_id r = x)) \<and>
     (\<forall>q\<in>#pend. \<exists>r. ops (fst q) = Some r \<and> op_reporter r)"

definition ev_inv :: "(error \<Rightarrow> string) \<Rightarrow> events_world \<Rightarrow> bool" where
  "ev_inv display w \<longleftrightarrow>
     source_ok (ew_source w) \<and> (\<forall>i r. ew_ops w i = Some r \<longrightarrow> op_ok display (ew_source w) r) \<and>
     ids_ok (own_events (ew_source w)) (ew_ops w) (ew_pending w)"

lemma op_bodies_handed:
  "handed_over em oid b src src' \<Longrightarrow> op_bodies src' x = op_bodies src x @ (if oid = Some x then [b] else [])"
  by (auto simp: handed_over_def op_bodies_def)

lemma source_ok_handed: "handed_over em oid b src src' \<Longrightarrow> source_ok src \<Longrightarrow> source_ok src'"
  by (auto simp: handed_over_def source_ok_def)

lemma op_ok_other:
  "handed_over em oid b src src' \<Longrightarrow> oid \<noteq> Some (op_id r) \<Longrightarrow> op_ok display src r \<Longrightarrow> op_ok display src' r"
  unfolding op_ok_def by (simp add: op_bodies_handed Let_def) (auto simp: handed_over_def)

text \<open>An operation hands over an event of its own and moves to another phase.\<close>

lemma op_ok_own:
  assumes "handed_over (op_emitter r) (Some (op_id r)) b src src'" and "op_ok display src r"
    and "told display (r\<lparr>op_phase := p, op_reporter := v\<rparr>) (op_bodies src (op_id r) @ [b])"
    and "p \<in> {OpStarting, OpAnnounced} \<Longrightarrow> \<not> v"
  shows "op_ok display src' (r\<lparr>op_phase := p, op_reporter := v\<rparr>)"
proof -
  from assms(1) have "em_context (op_emitter r) \<noteq> None" by (metis handed_over_def option.distinct(1))
  with assms show ?thesis
    unfolding op_ok_def by (simp add: op_bodies_handed Let_def) (auto simp: handed_over_def)
qed

lemma told_progress:
  assumes "told display r bs" and "bs \<noteq> []"
  shows "told display r (bs @ [OperationProgress (op_action r) p])"
proof -
  have f: "in_flight a bs \<Longrightarrow> in_flight a (bs @ [OperationProgress a p])" for a bs
    by (auto simp: in_flight_def all_progress_def)
  have e: "ended_with display a out bs \<Longrightarrow> ended_with display a out (bs @ [OperationProgress a p])" for a out bs
    unfolding ended_with_def all_progress_def by fastforce
  from assms f e show ?thesis unfolding told_def by (cases "op_phase r") (auto, blast+)
qed

lemma terminal_says_end: "says_end display a outcome (terminal_body display a d outcome)"
  by (cases outcome) (simp_all add: says_end_def terminal_body_def)

lemma told_ended:
  "in_flight a bs \<Longrightarrow> ended_with display a outcome (bs @ [terminal_body display a d outcome])"
  unfolding in_flight_def ended_with_def using terminal_says_end [of display a outcome d]
  by (fastforce simp: all_progress_def)

lemma ids_ok_put:
  assumes "ids_ok es ops pend" and "ops i = Some r" and "op_id q = op_id r" and "op_reporter r \<Longrightarrow> op_reporter q"
  shows "ids_ok es (ops(i \<mapsto> q)) pend"
  unfolding ids_ok_def
proof (intro conjI allI ballI impI)
  fix k p j p'
  assume "(ops(i \<mapsto> q)) k = Some p" "(ops(i \<mapsto> q)) j = Some p'" "op_id p = op_id p'"
  with assms(1-3) show "k = j" unfolding ids_ok_def by (auto split: if_splits)
next
  fix e x
  assume "e \<in> set es" "ev_operation_id e = Some x"
  with assms(1) obtain k p where "ops k = Some p" "op_id p = x" unfolding ids_ok_def by blast
  with assms(2,3) show "\<exists>j p. (ops(i \<mapsto> q)) j = Some p \<and> op_id p = x"
    by (cases "k = i") (auto intro: exI [of _ k] exI [of _ i])
next
  fix x
  assume "x \<in># pend"
  with assms(1,2,4) show "\<exists>p. (ops(i \<mapsto> q)) (fst x) = Some p \<and> op_reporter p" unfolding ids_ok_def by fastforce
qed

lemma ev_inv_put:
  assumes "ev_inv display w" and "ew_ops w i = Some r" and "op_ok display (ew_source w) q"
    and "op_id q = op_id r" and "op_reporter r \<Longrightarrow> op_reporter q"
  shows "ev_inv display (put_op i q w)"
  using assms ids_ok_put [of _ "ew_ops w" _ i r q] by (auto simp: ev_inv_def put_op_def)

lemma ev_inv_hand:
  assumes "ev_inv display w" and "ew_ops w i = Some r" and "op_ok display src q"
    and h: "handed_over em (Some (op_id r)) b (ew_source w) src"
    and "op_id q = op_id r" and "op_reporter r \<Longrightarrow> op_reporter q"
  shows "ev_inv display (put_op i q (w\<lparr>ew_source := src\<rparr>))"
proof -
  have "op_ok display src p" if "ew_ops w k = Some p" "k \<noteq> i" for k p
    using that assms(1,2) by (intro op_ok_other [OF h]) (auto simp: ev_inv_def ids_ok_def)
  moreover have "ids_ok (own_events src) (ew_ops w) (ew_pending w)"
    using assms(1,2) h unfolding ev_inv_def ids_ok_def handed_over_def by (auto; blast)
  ultimately show ?thesis
    using assms source_ok_handed [OF h] ids_ok_put [of _ "ew_ops w" _ i r q] by (auto simp: ev_inv_def put_op_def)
qed

lemma ev_inv_hand_none:
  assumes "ev_inv display w" and h: "handed_over em None b (ew_source w) src"
  shows "ev_inv display (w\<lparr>ew_source := src\<rparr>)"
  using assms source_ok_handed [OF h] op_ok_other [OF h] by (auto simp: ev_inv_def ids_ok_def handed_over_def)

lemma ev_inv_new: "ev_inv display (world_new x)"
  by (simp add: ev_inv_def world_new_def source_ok_def source_new_def own_events_def ids_ok_def u64_max_def)

lemma ev_inv_op: "ev_inv display w \<Longrightarrow> ew_ops w i = Some r \<Longrightarrow> op_ok display (ew_source w) r"
  by (simp add: ev_inv_def)

lemma put_op_same: "ew_ops w i = Some r \<Longrightarrow> put_op i r w = w"
  by (simp add: put_op_def fun_upd_idem)

text \<open>An operation that emits and moves on.\<close>

lemma ev_inv_emit:
  assumes "ev_inv display w" and "ew_ops w i = Some r"
    and e: "emitter_emit (op_emitter r) t s (Some (op_id r)) b (ew_source w) = Some src"
    and told: "told display r (op_bodies (ew_source w) (op_id r)) \<Longrightarrow>
      told display (r\<lparr>op_phase := p\<rparr>) (op_bodies (ew_source w) (op_id r) @ [b])"
    and "p \<in> {OpStarting, OpAnnounced} \<Longrightarrow> \<not> op_reporter r"
  shows "ev_inv display (put_op i (r\<lparr>op_phase := p\<rparr>) (w\<lparr>ew_source := src\<rparr>))"
proof -
  note ok = ev_inv_op [OF assms(1,2)]
  show ?thesis
  proof (cases "em_context (op_emitter r)")
    case None
    with emitter_emit_Some [OF e] have "src = ew_source w" by simp
    moreover have "op_ok display (ew_source w) (r\<lparr>op_phase := p\<rparr>)" using ok None assms(5) by (auto simp: op_ok_def Let_def)
    ultimately show ?thesis using ev_inv_put [OF assms(1,2)] by simp
  next
    case (Some ctx)
    with emitter_emit_Some [OF e] have h: "handed_over (op_emitter r) (Some (op_id r)) b (ew_source w) src" by simp
    from ok Some have "told display r (op_bodies (ew_source w) (op_id r))" by (simp add: op_ok_def Let_def)
    then have "op_ok display src (r\<lparr>op_phase := p\<rparr>)"
      using op_ok_own [OF h ok, where p = p and v = "op_reporter r"] told assms(5) by simp
    from ev_inv_hand [OF assms(1,2) this h] show ?thesis by simp
  qed
qed

text \<open>An operation that moves on without an event.\<close>

lemma ev_inv_phase:
  assumes "ev_inv display w" and "ew_ops w i = Some r"
    and "op_id q = op_id r" "op_emitter q = op_emitter r" "op_reporter r \<Longrightarrow> op_reporter q"
    and "op_phase q \<in> {OpStarting, OpAnnounced} \<Longrightarrow> op_phase r \<in> {OpStarting, OpAnnounced} \<and> op_reporter q = op_reporter r"
    and "\<And>bs. told display r bs \<Longrightarrow> told display q bs"
    and "\<And>bs. told display r bs \<Longrightarrow> op_reporter q \<Longrightarrow> \<not> op_reporter r \<Longrightarrow> bs \<noteq> []"
  shows "ev_inv display (put_op i q w)"
proof (rule ev_inv_put [OF assms(1,2) _ assms(3,5)])
  show "op_ok display (ew_source w) q"
    using ev_inv_op [OF assms(1,2)] assms(3-8) unfolding op_ok_def Let_def
    by (cases "em_context (op_emitter r)") (simp_all, blast+)
qed

lemma ev_inv_begin:
  assumes "ev_inv display w" and "ew_ops w i = None" and "\<forall>j r. ew_ops w j = Some r \<longrightarrow> op_id r \<noteq> op_id q"
    and "op_phase q = OpStarting" and "\<not> op_reporter q"
  shows "ev_inv display (put_op i q w)"
proof -
  have none: "\<forall>e\<in>set (own_events (ew_source w)). ev_operation_id e \<noteq> Some (op_id q)"
    using assms(1,3) unfolding ev_inv_def ids_ok_def by blast
  then have "op_bodies (ew_source w) (op_id q) = []" by (simp add: op_bodies_def filter_empty_conv)
  with none assms(4,5) have "op_ok display (ew_source w) q" by (simp add: op_ok_def told_def)
  moreover have "ids_ok (own_events (ew_source w)) ((ew_ops w)(i \<mapsto> q)) (ew_pending w)"
  proof -
    have "ids_ok (own_events (ew_source w)) (ew_ops w) (ew_pending w)" using assms(1) by (simp add: ev_inv_def)
    with assms(2,3) show ?thesis unfolding ids_ok_def by (auto, metis, metis option.distinct(1))
  qed
  ultimately show ?thesis using assms(1) by (auto simp: ev_inv_def put_op_def)
qed

lemma ev_inv_pending:
  "ev_inv display w \<Longrightarrow> (\<And>q. q \<in># pend \<Longrightarrow> q \<in># ew_pending w \<or> (\<exists>r. ew_ops w (fst q) = Some r \<and> op_reporter r)) \<Longrightarrow>
   ev_inv display (w\<lparr>ew_pending := pend\<rparr>)"
  unfolding ev_inv_def ids_ok_def by (simp del: split_paired_All) blast

lemma ev_inv_deliver:
  assumes "ev_inv display w" and "ew_ops w i = Some r" and "op_reporter r"
    and e: "emitter_emit (op_emitter r) t s (Some (op_id r)) (OperationProgress (op_action r) p) (ew_source w) = Some src"
  shows "ev_inv display (w\<lparr>ew_source := src\<rparr>)"
proof (cases "em_context (op_emitter r)")
  case None
  with emitter_emit_Some [OF e] have "src = ew_source w" by simp
  with assms(1) show ?thesis by simp
next
  case (Some ctx)
  note ok = ev_inv_op [OF assms(1,2)]
  have "op_bodies (ew_source w) (op_id r) \<noteq> []" using ok Some assms(3) by (simp add: op_ok_def Let_def)
  then have "ev_inv display (put_op i (r\<lparr>op_phase := op_phase r\<rparr>) (w\<lparr>ew_source := src\<rparr>))"
    by (intro ev_inv_emit [OF assms(1,2) e]) (use ok assms(3) told_progress in \<open>auto simp: op_ok_def Let_def\<close>)
  then show ?thesis using assms(2) by (simp add: put_op_same)
qed

lemma ev_step_inv:
  assumes "ev_step display w w'" and "ev_inv display w"
  shows "ev_inv display w'"
  using assms
proof (induction rule: ev_step.induct)
  case (run_begin w i x em a s)
  then show ?case by (intro ev_inv_begin) auto
next
  case (announce w i r t src)
  from ev_inv_op [OF announce.prems announce.hyps(1)] announce.hyps(2) have "\<not> op_reporter r"
    by (simp add: op_ok_def Let_def)
  then show ?case
    by (intro ev_inv_emit [OF announce.prems announce.hyps(1,3)])
      (use announce.hyps(2) in \<open>simp_all add: told_def in_flight_def all_progress_def\<close>)
next
  case (report_end w i r s d outcome t src)
  show ?case
    by (rule ev_inv_emit [OF report_end.prems report_end.hyps(1,3)])
      (use report_end.hyps(2) in \<open>simp_all add: told_def told_ended\<close>)
next
  case (deliver w i r s p t src)
  then have "op_reporter r" by (force simp: ev_inv_def ids_ok_def)
  from ev_inv_deliver [OF deliver.prems deliver.hyps(1) this deliver.hyps(3)]
  have "ev_inv display (w\<lparr>ew_source := src\<rparr>)" .
  from ev_inv_pending [OF this, of "ew_pending w - {#(i, s, p)#}"] show ?case by (auto dest: in_diffD)
next
  case (observed b prev cur code message em t s w src)
  from emitter_emit_Some [OF observed.hyps(2)] observed.prems show ?case
    by (cases "em_context em") (auto dest: ev_inv_hand_none)
next
  case (forwarded e w)
  have "source_ok (context_forward e (ew_source w)) = source_ok (ew_source w)"
    "op_ok display (context_forward e (ew_source w)) r = op_ok display (ew_source w) r" for r
    by (simp_all only: source_ok_def op_ok_def op_bodies_def forward_own [OF forwarded.hyps]) (simp add: context_forward_def)
  with forwarded show ?case by (simp add: ev_inv_def forward_own)
next
  case (report w i r p)
  then show ?case by (intro ev_inv_pending) auto
next
  case (report_lost q w)
  then show ?case by (intro ev_inv_pending) (auto dest: in_diffD)
next
  case (announce_panics w i r t)
  show ?case
    by (rule ev_inv_phase [OF announce_panics.prems announce_panics.hyps(1)])
      (use announce_panics in \<open>auto simp: told_def in_flight_def op_unfinished_def split: op_phase.splits\<close>)
next
  case (run_operation w i r)
  show ?case
    by (rule ev_inv_phase [OF run_operation.prems run_operation.hyps(1)])
      (use run_operation in \<open>auto simp: told_def in_flight_def op_unfinished_def split: op_phase.splits\<close>)
next
  case (set_subject w i r s)
  show ?case
    by (rule ev_inv_phase [OF set_subject.prems set_subject.hyps(1)])
      (use set_subject ev_inv_op [OF set_subject.prems set_subject.hyps(1)] in \<open>auto simp: told_def in_flight_def op_unfinished_def split: op_phase.splits\<close>)
next
  case (operation_ends w i r d outcome)
  show ?case
    by (rule ev_inv_phase [OF operation_ends.prems operation_ends.hyps(1)])
      (use operation_ends in \<open>auto simp: told_def in_flight_def op_unfinished_def split: op_phase.splits\<close>)
next
  case (report_end_panics w i r s d outcome t)
  show ?case
    by (rule ev_inv_phase [OF report_end_panics.prems report_end_panics.hyps(1)])
      (use report_end_panics in \<open>auto simp: told_def in_flight_def op_unfinished_def split: op_phase.splits\<close>)
next
  case (run_returns w i r outcome)
  show ?case
    by (rule ev_inv_phase [OF run_returns.prems run_returns.hyps(1)])
      (use run_returns in \<open>auto simp: told_def in_flight_def op_unfinished_def split: op_phase.splits\<close>)
next
  case (run_dropped w i r)
  show ?case
    by (rule ev_inv_phase [OF run_dropped.prems run_dropped.hyps(1)])
      (use run_dropped in \<open>auto simp: told_def in_flight_def op_unfinished_def split: op_phase.splits\<close>)
qed

text \<open>
  C22. The events of a context tell the truth, in order. However operations of one context interleave,
  are dropped or report from clones of their reporter, the source's own events are numbered from one
  without a gap in the order of handing over; an operation's events are its start, then its progress,
  then one end that matches what it returned, and nothing but late progress after it; when it has
  returned its end has been handed over; they carry its provider and correlation; and an emitter
  without a context emits nothing.
\<close>

theorem events_ordered:
  assumes "ev_steps display (world_new x) w"
  shows "map ev_sequence (own_events (ew_source w)) = [1..<Suc (es_next_sequence (ew_source w))] \<and>
    es_next_sequence (ew_source w) \<le> u64_max \<and>
    (\<forall>i r. ew_ops w i = Some r \<longrightarrow>
       (if em_context (op_emitter r) = None then op_events (ew_source w) (op_id r) = []
        else told display r (map ev_body (op_events (ew_source w) (op_id r))) \<and>
          (\<forall>e\<in>set (op_events (ew_source w) (op_id r)).
             ev_provider e = em_provider (op_emitter r) \<and> Some (ev_correlation_id e) = em_context (op_emitter r))))"
proof -
  from assms have inv: "ev_inv display w"
    by (induction rule: rtranclp_induct) (auto intro: ev_inv_new ev_step_inv)
  have "if em_context (op_emitter r) = None then op_events (ew_source w) (op_id r) = []
        else told display r (map ev_body (op_events (ew_source w) (op_id r))) \<and>
          (\<forall>e\<in>set (op_events (ew_source w) (op_id r)).
             ev_provider e = em_provider (op_emitter r) \<and> Some (ev_correlation_id e) = em_context (op_emitter r))"
    if "ew_ops w i = Some r" for i r
    using ev_inv_op [OF inv that] by (auto simp: op_ok_def op_bodies_def op_events_def Let_def)
  with inv show ?thesis by (simp add: ev_inv_def source_ok_def)
qed

text \<open>One operation from its beginning to its return.\<close>

theorem events_ordered_witness:
  "\<exists>w r. ev_steps (\<lambda>_. []) (world_new ''s'') w \<and> ew_ops w 0 = Some r \<and> op_phase r = OpReturned None \<and>
     map ev_sequence (own_events (ew_source w)) = [1..<3] \<and>
     told (\<lambda>_. []) r (map ev_body (op_events (ew_source w) (op_id r)))"
proof -
  let ?d = "\<lambda>_ :: error. [] :: string"
  let ?em = "\<lparr>em_provider = ''p'', em_context = Some None\<rparr>"
  let ?r = "\<lparr>op_emitter = ?em, op_id = ''o'', op_action = Create, op_subject = SubjectProvider, op_phase = OpStarting,
    op_reporter = False\<rparr>"
  define src1 where "src1 = the (emitter_emit ?em 0 SubjectProvider (Some ''o'') (OperationStarted Create) (source_new ''s''))"
  define src2 where "src2 = the (emitter_emit ?em 0 SubjectProvider (Some ''o'') (terminal_body ?d Create 5 None) src1)"
  have e1: "emitter_emit ?em 0 SubjectProvider (Some ''o'') (OperationStarted Create) (source_new ''s'') = Some src1"
    by (simp add: src1_def emitter_emit_def context_emit_def source_new_def u64_max_def)
  have n1: "es_next_sequence src1 = 1" "es_next_sequence src2 = 2"
    by (simp_all add: src1_def src2_def emitter_emit_def context_emit_def source_new_def u64_max_def)
  have e2: "emitter_emit ?em 0 SubjectProvider (Some ''o'') (terminal_body ?d Create 5 None) src1 = Some src2"
    using n1 by (simp add: src2_def emitter_emit_def context_emit_def u64_max_def)
  define W where "W = (\<lambda>src p v. \<lparr>ew_source = src, ew_ops = [0 \<mapsto> ?r\<lparr>op_phase := p, op_reporter := v\<rparr>], ew_pending = {#}\<rparr>)"
  have "ev_steps ?d (world_new ''s'') (W (source_new ''s'') OpStarting False)"
    by (rule r_into_rtranclp) (use ev_step.run_begin [of "world_new ''s''" 0 "''o''" ?d ?em Create SubjectProvider] in \<open>simp add: world_new_def put_op_def W_def\<close>)
  also have "ev_steps ?d (W (source_new ''s'') OpStarting False) (W src1 OpAnnounced False)"
    by (rule r_into_rtranclp) (use ev_step.announce [of "W (source_new ''s'') OpStarting False" 0 ?r 0 src1 ?d] e1 in \<open>simp add: put_op_def W_def\<close>)
  also have "ev_steps ?d (W src1 OpAnnounced False) (W src1 OpRunning True)"
    by (rule r_into_rtranclp) (use ev_step.run_operation [of "W src1 OpAnnounced False" 0 "?r\<lparr>op_phase := OpAnnounced\<rparr>" ?d] in \<open>simp add: put_op_def W_def\<close>)
  also have "ev_steps ?d (W src1 OpRunning True) (W src1 (OpFinishing SubjectProvider 5 None) True)"
    by (rule r_into_rtranclp) (use ev_step.operation_ends [of "W src1 OpRunning True" 0 "?r\<lparr>op_phase := OpRunning, op_reporter := True\<rparr>" ?d 5 None] in \<open>simp add: put_op_def W_def\<close>)
  also have "ev_steps ?d (W src1 (OpFinishing SubjectProvider 5 None) True) (W src2 (OpReported None) True)"
    by (rule r_into_rtranclp) (use ev_step.report_end [of "W src1 (OpFinishing SubjectProvider 5 None) True" 0
        "?r\<lparr>op_phase := OpFinishing SubjectProvider 5 None, op_reporter := True\<rparr>" SubjectProvider 5 None 0 ?d src2] e2 in \<open>simp add: put_op_def W_def\<close>)
  also have "ev_steps ?d (W src2 (OpReported None) True) (W src2 (OpReturned None) True)"
    by (rule r_into_rtranclp) (use ev_step.run_returns [of "W src2 (OpReported None) True" 0 "?r\<lparr>op_phase := OpReported None, op_reporter := True\<rparr>" None ?d] in \<open>simp add: put_op_def W_def\<close>)
  finally have steps: "ev_steps ?d (world_new ''s'') (W src2 (OpReturned None) True)" .
  let ?q = "?r\<lparr>op_phase := OpReturned None, op_reporter := True\<rparr>"
  have q: "ew_ops (W src2 (OpReturned None) True) 0 = Some ?q" "ew_source (W src2 (OpReturned None) True) = src2"
    by (simp_all add: W_def)
  note t = events_ordered [OF steps]
  from t q have "told ?d ?q (map ev_body (op_events src2 (op_id ?q)))" by fastforce
  moreover from t q n1 have "map ev_sequence (own_events src2) = [1..<3]" by simp
  ultimately show ?thesis using steps q by (intro exI [of _ "W src2 (OpReturned None) True"] exI [of _ ?q]) simp
qed

end
