(* ===== verification/Spec2Isabelle.thy ===== *)
theory Spec2Isabelle
  imports Capabilities Wire_Errors Capture Sanitize Grace Git_Retry Git_Parse Control Channel Encoded_Exec Tar_Scanner Derived_Git Host_Registry Wait Derived_Service Catalog Catalog_Life Events
begin

text \<open>
  A verification library for the sandbox driver (the crates under \<open>crates/\<close>): a library that gives
  one interface to sandboxes of several providers (Docker, Daytona, the host), with providers either
  linked in or run as plugin processes behind a protocol. The development models the driver's own
  logic from its sources and proves what makes it correct. The sources are written in Rust; paths
  below are relative to \<open>src/crates/\<close>.

  \<^bold>\<open>How the program fits together.\<close> A caller asks a provider for a sandbox and runs commands, moves
  files, searches, clones repositories and starts services in it. Facets a provider lacks are derived
  from its exec facet by shell scripts. Output of commands is sanitized, copied into a bounded buffer
  and streamed to the caller's sink; stops, timeouts and sink failures race against the output. A plugin
  process is driven over a control connection of JSON lines with three budgeted lanes and over data
  channels of length-prefixed frames that are admitted by a one-time token. Above the providers stands
  the catalog of the shared contract: named entries, activated on first use, and workload
  specifications admitted against what a provider says it supports.

  \<^bold>\<open>Conventions.\<close> \<open>Prelude\<close> holds the types every component uses, the result type and the interfaces
  (locales) shared by several components; \<open>Rust_Std\<close> and \<open>Ordered_Map\<close> what the sources use of the
  standard library. Bytes are characters, a string is the bytes of its UTF-8 form, a duration is a
  number of nanoseconds, a \<open>BTreeMap\<close> its entries in key order. Errors are values of a sum type. An asynchronous
  function is a function of its inputs where nothing else runs in between, and a step relation where
  interleaving matters. Code of other crates, of a service or of the operating system is a parameter,
  with what is assumed of it as a named hypothesis.

  \<^bold>\<open>The theories, in the order of the program.\<close>

  \<^item> \<open>Capabilities\<close> (sandbox-driver/src/capabilities.rs): capability names and sets.
  \<^item> \<open>Errors\<close>, \<open>Wire_Errors\<close> (sandbox-driver/src/error.rs, sandbox-driver-protocol/src/wire.rs): the error
    type, bounded reports, and the error envelope: a typed error survives the wire.
  \<^item> \<open>Identifiers\<close> (sandbox-driver/src/id.rs): validated identifier types.
  \<^item> \<open>Exec_Types\<close>, \<open>Acts\<close> (sandbox-driver/src/exec.rs): execution requests and results; verbs over exec.
  \<^item> \<open>Capture\<close>, \<open>Sanitize\<close> (capture.rs, buffer.rs, sanitize.rs): the bounded copy of a stream and the
    escape sequence filter. Both are interfaces of \<open>Prelude\<close> (\<open>chunk_sink\<close>, \<open>chunk_machine\<close>), so that
    chunk boundaries carry no information; \<open>chunk_pipeline\<close> composes them for \<open>Docker_Output\<close>
    (sandbox-driver-docker/src/output.rs).
  \<^item> \<open>Drain\<close>, \<open>Grace\<close> (drain.rs, grace.rs, and run_signals of sandbox-driver-docker/src/exec.rs): the race of
    output, timeout, term, kill and sink failure as a timed step relation, and the TERM, grace, KILL
    ladder around it; what is sent, what is reported, and that it returns.
  \<^item> \<open>Encoded_Exec\<close> (sandbox-driver-daytona/src/encoded_exec.rs): binary output over a text transport.
  \<^item> \<open>Tar_Scanner\<close> (sandbox-driver-docker/src/fs/tar.rs): ranged reads and uploads through archives.
  \<^item> \<open>Transport_Limits\<close>, \<open>Control\<close>, \<open>Frames\<close>, \<open>Channel\<close> (sandbox-driver-protocol/src/limits.rs, control.rs,
    channel.rs): the budgets, the control lanes, the frames of a data channel, the listener with its
    expectations and admissions. The locale \<open>ledger\<close> is the contract of a budget, interpreted for
    every budget of the control queue and of the listener; \<open>byte_writer\<close> that of a byte stream.
  \<^item> \<open>Wait\<close> (wait.rs, state.rs): waiting for a state; the locale \<open>polling\<close> is the contract of its loops.
  \<^item> \<open>Shell\<close>, \<open>Derived_Fs\<close>, \<open>Derived_Search\<close>, \<open>Derived_Service\<close> (derived/mod.rs, derived/fs.rs,
    derived/search.rs, derived/service.rs): quoting against the rules of a POSIX shell, and files, search
    and services by scripts and the parsers of their output.
  \<^item> \<open>Git_Options\<close>, \<open>Git_Command\<close>, \<open>Git_Credentials\<close>, \<open>Git_Parse\<close>, \<open>Derived_Git\<close>, \<open>Git_Retry\<close> (git.rs,
    derived/git/, git_retry.rs): git by scripts: no caller's value is read as an option, credentials,
    parsers of git's output, pinned clones, and the retry loop.
  \<^item> \<open>Host_Registry\<close> (sandbox-driver-host/src/registry.rs): the record files of host sandboxes.
  \<^item> \<open>Units\<close>, \<open>Workload\<close> (sandbox-driver/src/contract/units.rs, workload.rs, admission.rs, descriptor.rs, schema.rs):
    sizes and durations read exactly, workload specifications, and their admission: a workload is
    admitted just if it follows the portable rules and everything it asks for is advertised.
  \<^item> \<open>Catalog\<close>, \<open>Catalog_Life\<close> (sandbox-driver/src/contract/config.rs, identity.rs, runtime.rs, catalog.rs): named
    entries, creation, saved references and their routing, the inventory over many providers, and
    activation against shutdown as a step relation over every interleaving.
  \<^item> \<open>Plugins\<close> (sandbox-driver-protocol/src/discovery.rs, supervisor.rs): which file is launched as a plugin and
    in which environment, and the generations of a supervised plugin.
  \<^item> \<open>Specs\<close>, \<open>Providers\<close>, \<open>Events\<close> (sandbox-driver/src/spec.rs, provider.rs, sandbox.rs, owned.rs, event.rs):
    provisioning requests, the default methods of the provider interface, snapshots made usable, the
    provider narrowed to an owner, and the events of concurrent operations.

  \<^bold>\<open>Fuel and bounds.\<close> Loops are total functions with a termination proof, or step relations with a
  theorem that a run ends (the stop race, at most three turns). Waiting without a deadline may not
  end: \<open>wait_for_state\<close> is a partial function whose result is None when it does not return, and the
  theorem shows that with a deadline it does.

  \<^bold>\<open>Not modelled.\<close> Calls of the Docker and Daytona APIs, processes and files of the host, sockets,
  serde's generated code, terminal output and argument parsing, test harnesses: they are other code's
  behaviour or plain forwarding. Dropping a future in the middle of an operation is modelled only
  where stated. Debug and display texts are parameters where an error carries them.
\<close>

end
